(* ===== verification/Prelude.thy ===== *)
theory Prelude
  imports Main "HOL-Library.Word" "HOL-Library.Char_ord" "HOL-Library.List_Lexorder"
    "HOL-Library.State_Monad"
begin

text \<open>
  Shared vocabulary of the development: bytes and strings, the searching functions of
  \<open>std::string\<close>, \<open>std::map\<close> as a strictly sorted association list, unsigned
  arithmetic of \<open>size_t\<close>, and the locale of byte-wise escape codes that the URI, hex and
  JSON encoders share.

  A \<open>std::string\<close> is a \<^typ>\<open>string\<close>: a list of \<^typ>\<open>char\<close>, each one byte.
  Its order (used by \<open>std::map\<close>) is the lexicographic order of unsigned bytes, which is
  the order of the theories \<open>List_Lexorder\<close> and \<open>Char_ord\<close>.
\<close>

unbundle bit_operations_syntax

named_theorems smap_simps \<open>lookup and well-formedness of the sorted association lists\<close>
named_theorems find_facts \<open>what the searching functions of strings return\<close>

type_synonym byte = "8 word"
type_synonym u32 = "32 word"
type_synonym u64 = "64 word"

subsection \<open>Bytes\<close>

abbreviation ord_of :: "char \<Rightarrow> nat" where
  "ord_of c \<equiv> of_char c"

abbreviation chr_of :: "nat \<Rightarrow> char" where
  "chr_of n \<equiv> char_of n"

definition byte_of :: "char \<Rightarrow> byte" where
  "byte_of c = of_nat (ord_of c)"

definition char_of_byte :: "'a::len word \<Rightarrow> char" where
  "char_of_byte w = chr_of (unat w)"

lemma ord_of_less_256 [simp]: "ord_of c < 256"
proof -
  have "ord_of c = ord_of (chr_of (ord_of c))" by simp
  also have "\<dots> = ord_of c mod 256" by (simp only: of_char_of)
  finally show ?thesis by (metis mod_less_divisor zero_less_numeral)
qed

lemma byte_of_char_of_byte [simp]: "byte_of (char_of_byte (w :: byte)) = w"
proof -
  have "unat w < 256" using unsigned_less [of w] by simp
  then show ?thesis by (simp add: byte_of_def char_of_byte_def)
qed

lemma char_of_byte_byte_of [simp]: "char_of_byte (byte_of c) = c"
  by (simp add: byte_of_def char_of_byte_def unat_of_nat)

lemma byte_of_inject [simp]: "byte_of c = byte_of d \<longleftrightarrow> c = d"
  by (metis char_of_byte_byte_of)

definition is_digit :: "char \<Rightarrow> bool" where
  "is_digit c \<longleftrightarrow> 48 \<le> ord_of c \<and> ord_of c \<le> 57"

text \<open>The characters \<open>isspace\<close> accepts in the C locale.\<close>

definition is_space :: "char \<Rightarrow> bool" where
  "is_space c \<longleftrightarrow> ord_of c = 32 \<or> 9 \<le> ord_of c \<and> ord_of c \<le> 13"

text \<open>A C string ends at the first NUL: what \<open>c_str()\<close> shows to the C library.\<close>

definition cstr :: "string \<Rightarrow> string" where
  "cstr s = takeWhile (\<lambda>c. c \<noteq> CHR 0x00) s"

lemma takeWhile_all: "\<forall>x \<in> set s. P x \<Longrightarrow> takeWhile P s = s"
  by (simp add: takeWhile_eq_all_conv)

lemma cstr_id: "CHR 0x00 \<notin> set s \<Longrightarrow> cstr s = s"
  unfolding cstr_def by (rule takeWhile_all) auto

subsection \<open>Unsigned subtraction of 64-bit sizes\<close>

text \<open>
  \<open>size_t\<close> is 64 bits wide and its subtraction wraps. Sizes are naturals below
  \<open>2 ^ 64\<close>; where the code subtracts without a guard the model uses this function.
\<close>

definition size_sub :: "nat \<Rightarrow> nat \<Rightarrow> nat" where
  "size_sub a b = (if b \<le> a then a - b else 2 ^ 64 + a - b)"

lemma size_sub_le [simp]: "b \<le> a \<Longrightarrow> size_sub a b = a - b"
  by (simp add: size_sub_def)

lemma size_sub_word:
  assumes "a < 2 ^ 64" and "b < 2 ^ 64"
  shows "size_sub a b = unat (of_nat a - of_nat b :: u64)"
proof (cases "b \<le> a")
  case True
  then have "(of_nat a - of_nat b :: u64) = of_nat (a - b)" by simp
  then have "unat (of_nat a - of_nat b :: u64) = (a - b) mod 2 ^ 64"
    by (simp only: unat_of_nat) simp
  with True assms show ?thesis by simp
next
  case False
  have "(of_nat (2 ^ 64 + a - b) :: u64) = of_nat (2 ^ 64 + a) - of_nat b"
    using assms False by (subst of_nat_diff) auto
  then have "(of_nat a - of_nat b :: u64) = of_nat (2 ^ 64 + a - b)" by simp
  then have "unat (of_nat a - of_nat b :: u64) = (2 ^ 64 + a - b) mod 2 ^ 64"
    by (simp only: unat_of_nat) simp
  with False assms show ?thesis by (simp add: size_sub_def)
qed

subsection \<open>Division with large constants\<close>

lemma div_bounds_int:
  "0 < (k::int) \<Longrightarrow> k * (a div k) \<le> a \<and> a < k * (a div k) + k"
  using pos_mod_sign [of k a] pos_mod_bound [of k a] mult_div_mod_eq [of k a] by linarith

lemma div_add_self_int:
  assumes "0 < (n::int)" and m: "m = n - 1"
  shows "(y + n) div n = (y + m) div n + (if n dvd y then 1 else 0)"
proof (cases "n dvd y")
  case True
  then obtain k where "y = n * k" by auto
  moreover have "(n * k + (n - 1)) div n = k"
    using assms by (subst div_mult_self4) simp_all
  ultimately show ?thesis using assms by simp
next
  case False
  define q r where "q = y div n" and "r = y mod n"
  have "r \<noteq> 0" using False by (simp add: r_def dvd_eq_mod_eq_0)
  then have r: "0 < r" "r < n" using assms by (auto simp: r_def order.not_eq_order_implies_strict)
  have y: "y = n * q + r" by (simp add: q_def r_def)
  have "(y + (n - 1)) div n = (n * (q + 1) + (r - 1)) div n" by (simp add: y algebra_simps)
  also have "\<dots> = q + 1" using assms r by (subst div_mult_self4) simp_all
  finally have "(y + (n - 1)) div n = q + 1" .
  moreover have "(y + n) div n = q + 1" using assms div_add_self2 [of n y] by (simp add: q_def)
  ultimately show ?thesis using False m by simp
qed

subsection \<open>Searching strings\<close>

text \<open>\<open>find(pat, pos)\<close> of \<open>std::string\<close>; \<open>npos\<close> is \<^const>\<open>None\<close>.\<close>

fun find_sub :: "'a list \<Rightarrow> 'a list \<Rightarrow> nat option" where
  "find_sub p [] = (if p = [] then Some 0 else None)"
| "find_sub p (x # xs) =
     (if take (length p) (x # xs) = p then Some 0 else map_option Suc (find_sub p xs))"

definition find_from :: "'a list \<Rightarrow> 'a list \<Rightarrow> nat \<Rightarrow> nat option" where
  "find_from p s i = (if i \<le> length s then map_option ((+) i) (find_sub p (drop i s)) else None)"

text \<open>\<open>rfind(pat)\<close>: the start of the last occurrence.\<close>

definition rfind_sub :: "'a list \<Rightarrow> 'a list \<Rightarrow> nat option" where
  "rfind_sub p s =
     map_option (\<lambda>i. length s - length p - i) (find_sub (rev p) (rev s))"

lemma find_sub_Some [find_facts]:
  "find_sub p s = Some i \<Longrightarrow> i + length p \<le> length s \<and> take (length p) (drop i s) = p"
proof (induction s arbitrary: i)
  case Nil
  then show ?case by (simp split: if_splits)
next
  case (Cons x xs)
  show ?case
  proof (cases "take (length p) (x # xs) = p")
    case True
    have "length (take (length p) (x # xs)) \<le> length (x # xs)" by simp
    with True have "length p \<le> length (x # xs)" by metis
    moreover from Cons.prems True have "i = 0" by simp
    ultimately show ?thesis using True by simp
  next
    case False
    with Cons.prems obtain j where "find_sub p xs = Some j" "i = Suc j" by auto
    with Cons.IH [of j] show ?thesis by simp
  qed
qed

lemma find_sub_split [find_facts]:
  assumes "find_sub p s = Some i"
  shows "s = take i s @ p @ drop (i + length p) s"
proof -
  from find_sub_Some [OF assms] have "drop i s = p @ drop (length p) (drop i s)"
    by (metis append_take_drop_id)
  then have "take i s @ drop i s = take i s @ p @ drop (i + length p) s"
    by (simp add: drop_drop add.commute)
  then show ?thesis by simp
qed

lemma find_sub_first:
  "find_sub p s = Some i \<Longrightarrow> j < i \<Longrightarrow> take (length p) (drop j s) \<noteq> p"
proof (induction s arbitrary: i j)
  case Nil
  then show ?case by (simp split: if_splits)
next
  case (Cons x xs)
  show ?case
  proof (cases "take (length p) (x # xs) = p")
    case True
    with Cons.prems show ?thesis by simp
  next
    case False
    with Cons.prems obtain k where "find_sub p xs = Some k" "i = Suc k" by auto
    with Cons.IH [of k] Cons.prems False show ?thesis by (cases j) auto
  qed
qed

lemma find_sub_None [find_facts]:
  "find_sub p s = None \<longleftrightarrow> (\<forall>j \<le> length s. take (length p) (drop j s) \<noteq> p)"
proof (induction s)
  case Nil
  then show ?case by simp
next
  case (Cons x xs)
  have "(\<forall>j \<le> length (x # xs). take (length p) (drop j (x # xs)) \<noteq> p) \<longleftrightarrow>
        take (length p) (x # xs) \<noteq> p \<and> (\<forall>j \<le> length xs. take (length p) (drop j xs) \<noteq> p)"
    by (metis (no_types, lifting) Suc_le_mono drop0 drop_Suc_Cons length_Cons not0_implies_Suc
        zero_le)
  with Cons.IH show ?case by simp
qed

lemma find_sub_singleton_None: "find_sub [c] s = None \<longleftrightarrow> c \<notin> set s"
  by (induction s) auto

lemma find_sub_singleton_append:
  "c \<notin> set s \<Longrightarrow> find_sub [c] (s @ c # t) = Some (length s)"
  by (induction s) auto

lemma find_sub_singleton_Some: "find_sub [c] s = Some i \<Longrightarrow> c \<notin> set (take i s)"
proof (induction s arbitrary: i)
  case (Cons x xs)
  then show ?case by (cases i) (auto split: if_splits)
qed simp

text \<open>Where a pattern cannot start, the search skips.\<close>

lemma find_sub_skip:
  assumes "\<And>j. j < length s \<Longrightarrow> take (length p) (drop j (s @ t)) \<noteq> p"
  shows "find_sub p (s @ t) = map_option ((+) (length s)) (find_sub p t)"
  using assms
proof (induction s)
  case Nil
  then show ?case by (cases "find_sub p t") simp_all
next
  case (Cons x xs)
  have "take (length p) ((x # xs) @ t) \<noteq> p" using Cons.prems [of 0] by simp
  moreover have "find_sub p (xs @ t) = map_option ((+) (length xs)) (find_sub p t)"
    by (rule Cons.IH) (use Cons.prems in force)
  ultimately show ?case by (cases "find_sub p t") simp_all
qed

subsection \<open>\<open>std::map\<close> as a strictly sorted association list\<close>

text \<open>
  Iteration over a \<open>std::map\<close> visits the keys in increasing order, so the model keeps
  the entries as a list sorted by key: \<open>m[k] = v\<close> is \<open>smap_put\<close>, \<open>find\<close> is
  \<^const>\<open>map_of\<close>, \<open>erase(k)\<close> is \<open>smap_del\<close>.
\<close>

type_synonym ('k, 'v) smap = "('k \<times> 'v) list"

definition smap_ok :: "('k::linorder, 'v) smap \<Rightarrow> bool" where
  "smap_ok m \<longleftrightarrow> sorted_wrt (<) (map fst m)"

fun smap_put :: "'k::linorder \<Rightarrow> 'v \<Rightarrow> ('k, 'v) smap \<Rightarrow> ('k, 'v) smap" where
  "smap_put k v [] = [(k, v)]"
| "smap_put k v ((k', v') # m) =
     (if k < k' then (k, v) # (k', v') # m
      else if k = k' then (k, v) # m
      else (k', v') # smap_put k v m)"

definition smap_del :: "'k \<Rightarrow> ('k, 'v) smap \<Rightarrow> ('k, 'v) smap" where
  "smap_del k m = filter (\<lambda>e. fst e \<noteq> k) m"

lemma smap_ok_Nil [simp, smap_simps]: "smap_ok []"
  by (simp add: smap_ok_def)

lemma smap_ok_Cons [smap_simps]:
  "smap_ok ((k, v) # m) \<longleftrightarrow> (\<forall>k' \<in> fst ` set m. k < k') \<and> smap_ok m"
  by (simp add: smap_ok_def)

lemma smap_put_keys [smap_simps]: "fst ` set (smap_put k v m) = insert k (fst ` set m)"
  by (induction k v m rule: smap_put.induct) auto

lemma smap_put_ok [smap_simps]: "smap_ok m \<Longrightarrow> smap_ok (smap_put k v m)"
  by (induction k v m rule: smap_put.induct) (auto simp: smap_simps)

lemma map_of_smap_put [simp]:
  "map_of (smap_put k v m) k' = (if k' = k then Some v else map_of m k')"
  by (induction k v m rule: smap_put.induct) auto

lemma smap_put_snoc: 
  "(\<forall>k' \<in> fst ` set m. k' < k) \<Longrightarrow> smap_put k v m = m @ [(k, v)]"
  by (induction k v m rule: smap_put.induct) auto

lemma map_of_smap_del [simp]:
  "map_of (smap_del k m) k' = (if k' = k then None else map_of m k')"
  by (induction m) (auto simp: smap_del_def)

lemma smap_del_ok [smap_simps]: "smap_ok m \<Longrightarrow> smap_ok (smap_del k m)"
  unfolding smap_ok_def smap_del_def
  by (induction m) auto

lemma smap_put_not_Nil [simp]: "smap_put k v m \<noteq> []"
  by (induction k v m rule: smap_put.induct) auto

lemma smap_ok_distinct: "smap_ok m \<Longrightarrow> distinct (map fst m)"
  unfolding smap_ok_def by (simp add: strict_sorted_iff)

subsection \<open>Escape codes: one code word per byte\<close>

text \<open>
  An encoder that replaces each byte by a code word is undone by any decoder that reads
  one code word off the front of its input. The URI, hex and JSON string encoders are
  instances.
\<close>

locale escape_code =
  fixes enc :: "'a \<Rightarrow> 'b list"
    and dec :: "'b list \<Rightarrow> ('a \<times> 'b list) option"
  assumes dec_enc: "dec (enc c @ r) = Some (c, r)"
    and enc_nonempty: "enc c \<noteq> []"
begin

fun dec_all :: "nat \<Rightarrow> 'b list \<Rightarrow> 'a list option" where
  "dec_all n [] = Some []"
| "dec_all 0 (x # xs) = None"
| "dec_all (Suc n) (x # xs) =
     (case dec (x # xs) of None \<Rightarrow> None
      | Some (c, r) \<Rightarrow> map_option ((#) c) (dec_all n r))"

lemma dec_all_step:
  "dec_all (Suc n) (enc c @ r) = map_option ((#) c) (dec_all n r)"
proof -
  obtain x xs where "enc c = x # xs" using enc_nonempty by (cases "enc c") auto
  with dec_enc [of c r] show ?thesis by simp
qed

lemma dec_all_enc: "length s \<le> n \<Longrightarrow> dec_all n (concat (map enc s)) = Some s"
proof (induction s arbitrary: n)
  case (Cons c s)
  then obtain m where "n = Suc m" "length s \<le> m" by (cases n) auto
  with Cons.IH [of m] show ?case by (simp only: list.map concat.simps dec_all_step) simp
qed simp

lemma enc_inj:
  assumes "concat (map enc s) = concat (map enc t)"
  shows "s = t"
proof -
  let ?n = "max (length s) (length t)"
  have "Some s = dec_all ?n (concat (map enc s))" by (simp add: dec_all_enc)
  also have "\<dots> = Some t" by (simp add: assms dec_all_enc)
  finally show ?thesis by simp
qed

end

subsection \<open>Running the state monad\<close>

lemmas run_simps = run_state_bind run_state_return run_state_get run_state_set

end
