(* ===== verification/Cstd.thy ===== *)
theory Cstd
  imports Prelude
begin

text \<open>
  The part of the C and C++ standard library the agent calls, with its documented behaviour:
  decimal and hexadecimal printing (\<open>std::to_string\<close>, \<open>snprintf\<close>), the
  \<open>strto*\<close> family on integers, the conversions of \<open>sscanf\<close> the date parsers use, and
  \<open>gmtime_r\<close> on the proleptic Gregorian calendar. The calendar comes with its
  specification: \<open>gmtime\<close> splits a time stamp into a valid date and time of day
  that denote the same second.
\<close>

subsection \<open>Decimal and hexadecimal numerals\<close>

fun show_nat :: "nat \<Rightarrow> string" where
  "show_nat n =
     (if n < 10 then [chr_of (48 + n)] else show_nat (n div 10) @ [chr_of (48 + n mod 10)])"

declare show_nat.simps [simp del]

definition show_int :: "int \<Rightarrow> string" where
  "show_int i = (if i < 0 then CHR ''-'' # show_nat (nat (- i)) else show_nat (nat i))"

definition digit_val :: "char \<Rightarrow> nat" where
  "digit_val c = ord_of c - 48"

definition digits_val :: "string \<Rightarrow> nat" where
  "digits_val s = foldl (\<lambda>a c. 10 * a + digit_val c) 0 s"

text \<open>\<open>%0wd\<close>: at least \<open>w\<close> columns, zeros after the sign.\<close>

definition pad_left :: "nat \<Rightarrow> char \<Rightarrow> string \<Rightarrow> string" where
  "pad_left w c s = replicate (w - length s) c @ s"

definition fmt_0d :: "nat \<Rightarrow> int \<Rightarrow> string" where
  "fmt_0d w i =
     (if i < 0 then CHR ''-'' # pad_left (w - 1) CHR ''0'' (show_nat (nat (- i)))
      else pad_left w CHR ''0'' (show_nat (nat i)))"

text \<open>The digits of \<open>%02x\<close> and of the lookup strings \<open>"0123456789abcdef"\<close>.\<close>

definition hex_digit :: "nat \<Rightarrow> char" where
  "hex_digit n = (if n < 10 then chr_of (48 + n) else chr_of (87 + n))"

definition hex_digit_upper :: "nat \<Rightarrow> char" where
  "hex_digit_upper n = (if n < 10 then chr_of (48 + n) else chr_of (55 + n))"

definition hex_val :: "char \<Rightarrow> nat option" where
  "hex_val c =
     (let n = ord_of c in
      if 48 \<le> n \<and> n \<le> 57 then Some (n - 48)
      else if 97 \<le> n \<and> n \<le> 102 then Some (n - 87)
      else if 65 \<le> n \<and> n \<le> 70 then Some (n - 55)
      else None)"

lemma hex_val_hex_digit [simp]: "n < 16 \<Longrightarrow> hex_val (hex_digit n) = Some n"
  by (simp add: hex_val_def hex_digit_def Let_def)

lemma hex_val_hex_digit_upper [simp]: "n < 16 \<Longrightarrow> hex_val (hex_digit_upper n) = Some n"
  by (simp add: hex_val_def hex_digit_upper_def Let_def)

lemma is_digit_chr_of: "n < 10 \<Longrightarrow> is_digit (chr_of (48 + n))"
  by (simp add: is_digit_def)

lemma digit_val_chr_of: "n < 10 \<Longrightarrow> digit_val (chr_of (48 + n)) = n"
  by (simp add: digit_val_def)

lemma show_nat_digits: "c \<in> set (show_nat n) \<Longrightarrow> is_digit c"
proof (induction n rule: show_nat.induct)
  case (1 n)
  then show ?case
    by (subst (asm) (2) show_nat.simps) (auto simp: is_digit_chr_of split: if_splits)
qed

lemma show_nat_not_Nil [simp]: "show_nat n \<noteq> []"
  by (subst show_nat.simps) simp

lemma digits_val_snoc: "digits_val (s @ [c]) = 10 * digits_val s + digit_val c"
  by (simp add: digits_val_def)

lemma digits_val_show_nat [simp]: "digits_val (show_nat n) = n"
proof (induction n rule: show_nat.induct)
  case (1 n)
  show ?case
  proof (cases "n < 10")
    case True
    then show ?thesis
      by (subst show_nat.simps) (simp add: digits_val_def digit_val_chr_of)
  next
    case False
    with "1.IH" show ?thesis
      by (subst show_nat.simps) (simp add: digits_val_snoc digit_val_chr_of)
  qed
qed

lemma digits_val_append:
  "digits_val (s @ t) = digits_val s * 10 ^ length t + digits_val t"
proof (induction t rule: rev_induct)
  case (snoc c t)
  have "digits_val (s @ t @ [c]) = 10 * digits_val (s @ t) + digit_val c"
    using digits_val_snoc [of "s @ t" c] by simp
  with snoc show ?case by (simp add: digits_val_snoc algebra_simps)
qed (simp add: digits_val_def)

lemma digits_val_zeros [simp]: "digits_val (replicate n CHR ''0'' @ s) = digits_val s"
proof -
  have "digits_val (replicate n CHR ''0'') = 0"
    by (induction n) (simp_all add: digits_val_def digit_val_def)
  then show ?thesis by (simp add: digits_val_append)
qed

lemma length_show_nat_le: "n < 10 ^ k \<Longrightarrow> 0 < k \<Longrightarrow> length (show_nat n) \<le> k"
proof (induction n arbitrary: k rule: show_nat.induct)
  case (1 n)
  show ?case
  proof (cases "n < 10")
    case True
    with "1.prems" show ?thesis by (subst show_nat.simps) simp
  next
    case False
    with "1.prems" obtain j where j: "k = Suc j" "0 < j" by (cases k) (auto, cases "k - 1", auto)
    with "1.prems" have "n div 10 < 10 ^ j" by (simp add: div_less_iff_less_mult mult.commute)
    with "1.IH" False j have "length (show_nat (n div 10)) \<le> j" by blast
    with False j show ?thesis by (subst show_nat.simps) simp
  qed
qed

lemma digits_val_pad_left [simp]: "digits_val (pad_left w CHR ''0'' s) = digits_val s"
  by (simp add: pad_left_def)

lemma length_fmt_0d:
  "0 \<le> i \<Longrightarrow> i < 10 ^ w \<Longrightarrow> 0 < w \<Longrightarrow> length (fmt_0d w i) = w"
  using length_show_nat_le [of "nat i" w]
  by (simp add: fmt_0d_def pad_left_def nat_less_iff)

lemma fmt_0d_digits: "0 \<le> i \<Longrightarrow> c \<in> set (fmt_0d w i) \<Longrightarrow> is_digit c"
  by (auto simp: fmt_0d_def pad_left_def is_digit_def dest!: show_nat_digits)

lemma digits_val_fmt_0d: "0 \<le> i \<Longrightarrow> digits_val (fmt_0d w i) = nat i"
  by (simp add: fmt_0d_def)

lemma fmt_0d_not_Nil [simp]: "fmt_0d w i \<noteq> []"
  by (simp add: fmt_0d_def pad_left_def)

subsection \<open>\<open>strtol\<close>, \<open>strtoul\<close>, \<open>atoi\<close>\<close>

fun take_sign :: "string \<Rightarrow> bool \<times> string" where
  "take_sign (c # s) =
     (if c = CHR ''-'' then (True, s) else if c = CHR ''+'' then (False, s) else (False, c # s))"
| "take_sign [] = (False, [])"

definition clamp_long :: "int \<Rightarrow> int" where
  "clamp_long v = max (- (2 ^ 63)) (min (2 ^ 63 - 1) v)"

text \<open>\<open>strtol(s, nullptr, 10)\<close>: 0 when there are no digits, saturating at 64 bits.\<close>

definition strtol :: "string \<Rightarrow> int" where
  "strtol s =
     (let (neg, u) = take_sign (dropWhile is_space (cstr s));
          v = int (digits_val (takeWhile is_digit u))
      in clamp_long (if neg then - v else v))"

definition atoi :: "string \<Rightarrow> int" where
  "atoi s = sint (of_int (strtol s) :: 32 word)"

fun skip_0x :: "string \<Rightarrow> string" where
  "skip_0x (z # x # c # s) =
     (if z = CHR ''0'' \<and> (x = CHR ''x'' \<or> x = CHR ''X'') \<and> hex_val c \<noteq> None then c # s
      else z # x # c # s)"
| "skip_0x s = s"

definition hex_digits_val :: "string \<Rightarrow> nat" where
  "hex_digits_val s = foldl (\<lambda>a c. 16 * a + (case hex_val c of Some v \<Rightarrow> v | None \<Rightarrow> 0)) 0 s"

definition unsigned_result :: "bool \<Rightarrow> nat \<Rightarrow> nat" where
  "unsigned_result neg v =
     (if 2 ^ 64 \<le> v then 2 ^ 64 - 1 else if neg \<and> v \<noteq> 0 then 2 ^ 64 - v else v)"

definition strtoul_10 :: "string \<Rightarrow> nat" where
  "strtoul_10 s =
     (let (neg, u) = take_sign (dropWhile is_space (cstr s))
      in unsigned_result neg (digits_val (takeWhile is_digit u)))"

definition strtoul_16 :: "string \<Rightarrow> nat" where
  "strtoul_16 s =
     (let (neg, u) = take_sign (dropWhile is_space (cstr s))
      in unsigned_result neg
           (hex_digits_val (takeWhile (\<lambda>c. hex_val c \<noteq> None) (skip_0x u))))"

lemma unsigned_result_less: "unsigned_result neg v < 2 ^ 64"
  by (simp add: unsigned_result_def)

lemma strtoul_10_less: "strtoul_10 s < 2 ^ 64"
  by (simp only: strtoul_10_def Let_def case_prod_beta unsigned_result_less)

lemma strtoul_16_less: "strtoul_16 s < 2 ^ 64"
  by (simp only: strtoul_16_def Let_def case_prod_beta unsigned_result_less)

lemma digit_not_space: "is_digit c \<Longrightarrow> \<not> is_space c"
  by (simp add: is_digit_def is_space_def)

lemma strtoul_10_show_nat:
  assumes "n < 2 ^ 64"
  shows "strtoul_10 (show_nat n) = n"
proof -
  obtain c r where cr: "show_nat n = c # r" by (cases "show_nat n") auto
  have digits: "\<forall>d \<in> set (show_nat n). is_digit d" using show_nat_digits by blast
  then have c: "is_digit c" and "CHR 0x00 \<notin> set (show_nat n)"
    using cr by (auto simp: is_digit_def)
  then have "cstr (show_nat n) = c # r" using cr by (simp add: cstr_id)
  moreover have "take_sign (c # r) = (False, c # r)" using c by (auto simp: is_digit_def)
  moreover have "takeWhile is_digit (c # r) = c # r" by (rule takeWhile_all) (use digits cr in auto)
  moreover have "digits_val (c # r) = n" using cr digits_val_show_nat [of n] by simp
  moreover have "dropWhile is_space (c # r) = c # r" using c by (simp add: digit_not_space)
  ultimately show ?thesis
    using assms by (simp only: strtoul_10_def unsigned_result_def Let_def prod.case) simp
qed

subsection \<open>\<open>sscanf\<close> conversions\<close>

text \<open>
  \<open>%wd\<close> skips white space, then reads an optional sign and digits, at most \<open>w\<close>
  characters in all. A number too large for an \<open>int\<close> is undefined in C; the model keeps
  its value.
\<close>

definition scan_d :: "nat \<Rightarrow> string \<Rightarrow> (int \<times> string) option" where
  "scan_d w s =
     (let t = dropWhile is_space s;
          (neg, u) = take_sign (take w t);
          ds = takeWhile is_digit u
      in if ds = [] then None
         else Some (if neg then - int (digits_val ds) else int (digits_val ds),
                    drop (length (take w t) - length u + length ds) t))"

fun scan_lit :: "char \<Rightarrow> string \<Rightarrow> string option" where
  "scan_lit c (x # s) = (if x = c then Some s else None)"
| "scan_lit c [] = None"

definition scan_ws :: "string \<Rightarrow> string" where
  "scan_ws s = dropWhile is_space s"

definition scan_s :: "nat \<Rightarrow> string \<Rightarrow> (string \<times> string) option" where
  "scan_s w s =
     (let t = dropWhile is_space s; word = take w (takeWhile (\<lambda>c. \<not> is_space c) t)
      in if word = [] then None else Some (word, drop (length word) t))"

lemma scan_d_fixed:
  assumes "0 \<le> i" "i < 10 ^ w" "0 < w"
  shows "scan_d w (fmt_0d w i @ r) = Some (i, r)"
proof -
  let ?f = "fmt_0d w i"
  have len: "length ?f = w" by (rule length_fmt_0d [OF assms])
  have digits: "\<forall>d \<in> set ?f. is_digit d" using fmt_0d_digits assms(1) by blast
  obtain c t where ct: "?f = c # t" by (cases ?f) auto
  with digits have c: "is_digit c" by simp
  then have "dropWhile is_space (?f @ r) = ?f @ r" using ct by (simp add: digit_not_space)
  moreover have "take w (?f @ r) = ?f" using len by simp
  moreover have "take_sign ?f = (False, ?f)" using ct c by (auto simp: is_digit_def)
  moreover have "takeWhile is_digit ?f = ?f" by (rule takeWhile_all) (rule digits)
  moreover have "drop (length ?f - length ?f + length ?f) (?f @ r) = r" by simp
  ultimately show ?thesis
    using assms(1)
    by (simp only: scan_d_def Let_def prod.case if_False fmt_0d_not_Nil digits_val_fmt_0d) simp
qed

subsection \<open>The calendar and \<open>gmtime_r\<close>\<close>

record tm =
  tm_year :: int  \<comment> \<open>the full year: \<open>tm_year + 1900\<close> in C\<close>
  tm_mon :: nat   \<comment> \<open>1 to 12: \<open>tm_mon + 1\<close> in C\<close>
  tm_mday :: nat
  tm_hour :: nat
  tm_min :: nat
  tm_sec :: nat

definition leap_year :: "int \<Rightarrow> bool" where
  "leap_year y \<longleftrightarrow> 4 dvd y \<and> (\<not> 100 dvd y \<or> 400 dvd y)"

text \<open>Days from 1 January of year 0 to 1 January of year \<open>y\<close>.\<close>

definition days_to_year :: "int \<Rightarrow> int" where
  "days_to_year y = 365 * y + (y + 3) div 4 - (y + 99) div 100 + (y + 399) div 400"

definition days_to_month :: "int \<Rightarrow> nat \<Rightarrow> nat" where
  "days_to_month y m =
     [0, 31, 59, 90, 120, 151, 181, 212, 243, 273, 304, 334, 365] ! (m - 1) +
     (if leap_year y \<and> 2 < m then 1 else 0)"

definition valid_date :: "int \<Rightarrow> nat \<Rightarrow> nat \<Rightarrow> bool" where
  "valid_date y m d \<longleftrightarrow>
     1 \<le> m \<and> m \<le> 12 \<and> 1 \<le> d \<and> days_to_month y m + d \<le> days_to_month y (m + 1)"

text \<open>Days since 1 January 1970.\<close>

definition day_number :: "int \<Rightarrow> nat \<Rightarrow> nat \<Rightarrow> int" where
  "day_number y m d = days_to_year y + int (days_to_month y m) + int d - 1 - 719528"

definition year_of_day :: "int \<Rightarrow> int" where
  "year_of_day D =
     (let y = 400 * D div 146097
      in if D < days_to_year y then y - 1 else if days_to_year (y + 1) \<le> D then y + 1 else y)"

definition month_of_day :: "int \<Rightarrow> nat \<Rightarrow> nat" where
  "month_of_day y yd =
     (case find (\<lambda>m. days_to_month y m \<le> yd) (rev [2..<13]) of
        Some m \<Rightarrow> m | None \<Rightarrow> 1)"

definition gmtime :: "int \<Rightarrow> tm" where
  "gmtime t =
     (let D = t div 86400 + 719528; s = nat (t mod 86400);
          y = year_of_day D; yd = nat (D - days_to_year y); m = month_of_day y yd
      in \<lparr>tm_year = y, tm_mon = m, tm_mday = yd - days_to_month y m + 1,
          tm_hour = s div 3600, tm_min = s mod 3600 div 60, tm_sec = s mod 60\<rparr>)"

text \<open>A year is at least 365.2425 years' worth of days away from year 0, give or take two days.\<close>

lemma days_to_year_bounds:
  "146097 * y - 396 \<le> 400 * days_to_year y \<and> 400 * days_to_year y \<le> 146097 * y + 699"
proof -
  define a b c where "a = (y + 3) div 4" and "b = (y + 99) div 100" and "c = (y + 399) div 400"
  have "y \<le> 4 * a \<and> 4 * a \<le> y + 3" and "y \<le> 100 * b \<and> 100 * b \<le> y + 99"
    and "y \<le> 400 * c \<and> 400 * c \<le> y + 399"
    using div_bounds_int [of 4 "y + 3"] div_bounds_int [of 100 "y + 99"]
      div_bounds_int [of 400 "y + 399"]
    unfolding a_def b_def c_def by linarith+
  moreover have "days_to_year y = 365 * y + a - b + c"
    by (simp add: days_to_year_def a_def b_def c_def)
  ultimately show ?thesis by linarith
qed

lemma year_of_day_bounds:
  "days_to_year (year_of_day D) \<le> D \<and> D < days_to_year (year_of_day D + 1)"
proof -
  define y where "y = 400 * D div 146097"
  have "146097 * y \<le> 400 * D" "400 * D < 146097 * y + 146097"
    using div_bounds_int [of 146097 "400 * D"] unfolding y_def by linarith+
  moreover have "400 * days_to_year (y - 1) \<le> 146097 * (y - 1) + 699"
    using days_to_year_bounds [of "y - 1"] by blast
  moreover have "146097 * (y + 2) - 396 \<le> 400 * days_to_year (y + 2)"
    using days_to_year_bounds [of "y + 2"] by blast
  moreover have "year_of_day D =
      (if D < days_to_year y then y - 1 else if days_to_year (y + 1) \<le> D then y + 1 else y)"
    by (simp add: year_of_day_def y_def Let_def)
  moreover have "y + 1 + 1 = y + 2" and "2 + y = y + 2" by simp_all
  ultimately show ?thesis
    by (smt (verit))
qed

lemma year_sum_step:
  fixes y :: int
  assumes "A = a + p" "B = b + q" "C = c + r" "E = 365 * y + 365 + A - B + C"
    "D = 365 * y + a - b + c" "L = 365 + p - q + r"
  shows "E = D + L"
  using assms by simp

lemma leap_day_sum:
  "(b \<longrightarrow> a) \<Longrightarrow> (c \<longrightarrow> b) \<Longrightarrow>
   (if a \<and> (\<not> b \<or> c) then 366 else 365 :: int) =
   365 + (if a then 1 else 0) - (if b then 1 else 0) + (if c then 1 else 0)"
  by (cases a; cases b; cases c; simp only: simp_thms if_True if_False; simp)

lemma days_to_year_Suc:
  "days_to_year (y + 1) = days_to_year y + (if leap_year y then 366 else 365)"
proof -
  define p q r :: int where "p = (if 4 dvd y then 1 else 0)"
    and "q = (if 100 dvd y then 1 else 0)" and "r = (if 400 dvd y then 1 else 0)"
  have "(y + 4) div 4 = (y + 3) div 4 + p" and "(y + 100) div 100 = (y + 99) div 100 + q"
    and "(y + 400) div 400 = (y + 399) div 400 + r"
    unfolding p_def q_def r_def by (rule div_add_self_int; simp)+
  moreover have "days_to_year (y + 1) =
      365 * y + 365 + (y + 4) div 4 - (y + 100) div 100 + (y + 400) div 400"
  proof -
    have "y + 1 + 3 = y + 4" "y + 1 + 99 = y + 100" "y + 1 + 399 = y + 400" "365 * (y + 1) = 365 * y + 365"
      by simp_all
    then show ?thesis by (simp only: days_to_year_def)
  qed
  moreover have "days_to_year y = 365 * y + (y + 3) div 4 - (y + 99) div 100 + (y + 399) div 400"
    by (rule days_to_year_def)
  moreover have "(if leap_year y then 366 else 365) = 365 + p - q + r"
  proof -
    have "100 dvd y \<longrightarrow> 4 dvd y" by presburger
    moreover have "400 dvd y \<longrightarrow> 100 dvd y" by presburger
    ultimately show ?thesis unfolding p_def q_def r_def leap_year_def by (rule leap_day_sum)
  qed
  ultimately show ?thesis by (rule year_sum_step)
qed

lemma find_rev_upt:
  "case find P (rev [2..<Suc n]) of
     Some m \<Rightarrow> P m \<and> 2 \<le> m \<and> m \<le> n \<and> (m < n \<longrightarrow> \<not> P (m + 1))
   | None \<Rightarrow> \<forall>m. 2 \<le> m \<and> m \<le> n \<longrightarrow> \<not> P m"
proof (induction n)
  case (Suc n)
  show ?case
  proof (cases "2 \<le> Suc n \<and> \<not> P (Suc n)")
    case True
    then have "find P (rev [2..<Suc (Suc n)]) = find P (rev [2..<Suc n])" by simp
    with Suc.IH True show ?thesis
      by (auto simp: less_Suc_eq_le le_Suc_eq split: option.splits)
  qed auto
qed simp

lemma month_of_day_bounds:
  assumes "yd < 365 + (if leap_year y then 1 else 0)"
  defines "m \<equiv> month_of_day y yd"
  shows "1 \<le> m \<and> m \<le> 12 \<and> days_to_month y m \<le> yd \<and> yd < days_to_month y (m + 1)"
proof (cases "find (\<lambda>m. days_to_month y m \<le> yd) (rev [2..<13])")
  case None
  then have "m = 1" by (simp add: m_def month_of_day_def)
  moreover have "yd < days_to_month y 2"
    using find_rev_upt [where P = "\<lambda>m. days_to_month y m \<le> yd" and n = 12] None by (auto simp: not_le)
  ultimately show ?thesis by (simp add: days_to_month_def)
next
  case (Some n)
  then have n: "m = n" by (simp add: m_def month_of_day_def)
  from find_rev_upt [where P = "\<lambda>m. days_to_month y m \<le> yd" and n = 12] Some
  have "days_to_month y n \<le> yd" "2 \<le> n" "n \<le> 12" "n < 12 \<Longrightarrow> yd < days_to_month y (n + 1)"
    by auto
  moreover have "days_to_month y 13 = 365 + (if leap_year y then 1 else 0)"
    by (simp add: days_to_month_def)
  ultimately show ?thesis using n assms(1) by (cases "n = 12") auto
qed

text \<open>\<^const>\<open>gmtime\<close> is inverse to counting days and seconds.\<close>

lemma gmtime_spec:
  fixes t :: int
  defines "g \<equiv> gmtime t"
  shows "valid_date (tm_year g) (tm_mon g) (tm_mday g)"
    and "tm_hour g < 24" and "tm_min g < 60" and "tm_sec g < 60"
    and "day_number (tm_year g) (tm_mon g) (tm_mday g) * 86400 +
         int (tm_hour g) * 3600 + int (tm_min g) * 60 + int (tm_sec g) = t"
proof -
  define D s y yd m where "D = t div 86400 + 719528" and "s = nat (t mod 86400)"
    and "y = year_of_day D" and "yd = nat (D - days_to_year y)" and "m = month_of_day y yd"
  have g: "g = \<lparr>tm_year = y, tm_mon = m, tm_mday = yd - days_to_month y m + 1,
                tm_hour = s div 3600, tm_min = s mod 3600 div 60, tm_sec = s mod 60\<rparr>"
    by (simp add: g_def gmtime_def D_def s_def y_def yd_def m_def Let_def)
  have y: "days_to_year y \<le> D" "D < days_to_year (y + 1)"
    using year_of_day_bounds [of D] by (simp_all add: y_def)
  then have yd: "int yd = D - days_to_year y" by (simp add: yd_def)
  with y(2) have "yd < 365 + (if leap_year y then 1 else 0)"
    unfolding days_to_year_Suc by (simp split: if_splits)
  from month_of_day_bounds [OF this] have m: "1 \<le> m" "m \<le> 12" "days_to_month y m \<le> yd"
    "yd < days_to_month y (m + 1)" by (simp_all add: m_def)
  show "valid_date (tm_year g) (tm_mon g) (tm_mday g)"
    using m by (simp add: g valid_date_def)
  have s: "s < 86400" by (simp add: s_def nat_less_iff)
  then show "tm_hour g < 24" by (simp add: g div_less_iff_less_mult)
  show "tm_min g < 60" and "tm_sec g < 60" by (simp_all add: g div_less_iff_less_mult)
  have "s div 3600 * 3600 + s mod 3600 div 60 * 60 + s mod 60 = s"
  proof -
    have "s mod 60 = s mod 3600 mod 60" by (simp add: mod_mod_cancel)
    then show ?thesis using div_mult_mod_eq [of "s mod 3600" 60] div_mult_mod_eq [of s 3600]
      by linarith
  qed
  then have "int (s div 3600) * 3600 + int (s mod 3600 div 60) * 60 + int (s mod 60) = int s"
    by (metis (no_types, lifting) of_nat_add of_nat_mult of_nat_numeral)
  moreover have "int s = t mod 86400" by (simp add: s_def)
  moreover have "day_number y m (yd - days_to_month y m + 1) = t div 86400"
    using m(3) yd by (simp add: day_number_def D_def of_nat_diff)
  moreover have "t div 86400 * 86400 + t mod 86400 = t" by (rule div_mult_mod_eq)
  ultimately have "day_number y m (yd - days_to_month y m + 1) * 86400 +
      int (s div 3600) * 3600 + int (s mod 3600 div 60) * 60 + int (s mod 60) = t"
    by linarith
  then show "day_number (tm_year g) (tm_mon g) (tm_mday g) * 86400 +
         int (tm_hour g) * 3600 + int (tm_min g) * 60 + int (tm_sec g) = t"
    by (simp add: g)
qed

lemma days_to_year_mono: "a \<le> b \<Longrightarrow> days_to_year a \<le> days_to_year b"
proof (induction "nat (b - a)" arbitrary: b)
  case (Suc n)
  then have "days_to_year a \<le> days_to_year (b - 1)" by simp
  also have "\<dots> \<le> days_to_year b" using days_to_year_Suc [of "b - 1"] by simp
  finally show ?case .
qed simp

lemma gmtime_year_range:
  assumes "0 \<le> t" and "t < 253402300800"
  shows "1970 \<le> tm_year (gmtime t)" and "tm_year (gmtime t) \<le> 9999"
proof -
  define D where "D = t div 86400 + 719528"
  have D: "719528 \<le> D" "D < 3652425" 
    using assms div_bounds_int [of 86400 t] unfolding D_def by linarith+
  have y: "tm_year (gmtime t) = year_of_day D" by (simp add: gmtime_def D_def Let_def)
  note b = year_of_day_bounds [of D]
  have "days_to_year 1970 = 719528" "days_to_year 10000 = 3652425"
    by (simp_all add: days_to_year_def)
  with D b days_to_year_mono [of "year_of_day D + 1" 1970] days_to_year_mono [of 10000 "year_of_day D"]
  show "1970 \<le> tm_year (gmtime t)" and "tm_year (gmtime t) \<le> 9999" unfolding y by linarith+
qed

end
