(* ===== verification/Double.thy ===== *)
theory Double
  imports Cstd
begin

text \<open>
  IEEE 754 binary64, as \<open>double\<close> of the source: a sign, a 53-bit mantissa and an exponent,
  the infinities and the NaNs. \<open>strtod\<close> rounds the exact decimal (or hexadecimal)
  numeral to the nearest double, ties to even; \<open>%.17g\<close> prints the exact value rounded
  to 17 digits. Everything is integer arithmetic, so the definitions compute.

  The lemmas cover what the agent relies on: integers of at most 53 bits are exact, and the text
  of such an integer reads back as the same double.
\<close>

text \<open>\<open>DFin s m e\<close> is \<open>(-1)^s * m * 2^e\<close>. Zero has exponent 0; other values
  have \<open>2^52 \<le> m < 2^53\<close>, or a smaller \<open>m\<close> and the least exponent.\<close>

datatype double = DFin bool nat int | DInf bool | DNan bool

subsection \<open>Rounding a fraction to a double\<close>

fun nbits :: "nat \<Rightarrow> nat" where
  "nbits n = (if n = 0 then 0 else Suc (nbits (n div 2)))"

declare nbits.simps [simp del]

lemma nbits_0 [simp]: "nbits 0 = 0"
  by (simp add: nbits.simps)

lemma nbits_pos: "0 < n \<Longrightarrow> nbits n = Suc (nbits (n div 2))"
  by (subst nbits.simps) simp

definition round_div :: "nat \<Rightarrow> nat \<Rightarrow> nat" where
  "round_div a b =
     (let q = a div b; r = a mod b
      in if b < 2 * r \<or> 2 * r = b \<and> odd q then q + 1 else q)"

text \<open>The fraction \<open>a / (b * 2 ^ e)\<close> as a numerator and a denominator.\<close>

definition scaled :: "nat \<Rightarrow> nat \<Rightarrow> int \<Rightarrow> nat \<times> nat" where
  "scaled a b e = (if 0 \<le> e then (a, b * 2 ^ nat e) else (a * 2 ^ nat (- e), b))"

definition mk_double :: "bool \<Rightarrow> nat \<Rightarrow> nat \<Rightarrow> double" where
  "mk_double s a b =
     (if a = 0 then DFin s 0 0
      else let e0 = int (nbits a) - int (nbits b) - 53;
               (p, q) = scaled a b e0;
               e1 = (if 2 ^ 53 * q \<le> p then e0 + 1 else e0);
               e2 = max e1 (- 1074);
               (p, q) = scaled a b e2;
               m0 = round_div p q;
               m = (if m0 = 2 ^ 53 then 2 ^ 52 else m0);
               e = (if m0 = 2 ^ 53 then e2 + 1 else e2)
           in if 971 < e then DInf s else if m = 0 then DFin s 0 0 else DFin s m e)"

definition double_of_int :: "int \<Rightarrow> double" where
  "double_of_int i = mk_double (i < 0) (nat \<bar>i\<bar>) 1"

subsection \<open>Reading a double\<close>

text \<open>\<open>isxdigit\<close>, and the case-insensitive words of \<open>strtod\<close>.\<close>

definition is_xdigit :: "char \<Rightarrow> bool" where
  "is_xdigit c \<longleftrightarrow> hex_val c \<noteq> None"

definition lower_ascii :: "char \<Rightarrow> char" where
  "lower_ascii c = (if 65 \<le> ord_of c \<and> ord_of c \<le> 90 then chr_of (ord_of c + 32) else c)"

definition strip_word :: "string \<Rightarrow> string \<Rightarrow> string option" where
  "strip_word w s =
     (if map lower_ascii (take (length w) s) = w then Some (drop (length w) s) else None)"

text \<open>The exponent part: taken only when at least one digit follows the letter and the sign.\<close>

definition take_exp :: "char \<Rightarrow> string \<Rightarrow> int \<times> string" where
  "take_exp letter s =
     (case s of [] \<Rightarrow> (0, s)
      | c # r \<Rightarrow>
          (if lower_ascii c = letter
           then let (neg, r1) = take_sign r;
                    ds = takeWhile is_digit r1
                in if ds = [] then (0, s)
                   else ((if neg then - int (digits_val ds) else int (digits_val ds)),
                         dropWhile is_digit r1)
           else (0, s)))"

text \<open>Digits, an optional point and more digits: the digits before and after the point.\<close>

definition take_mantissa :: "(char \<Rightarrow> bool) \<Rightarrow> string \<Rightarrow> string \<times> string \<times> string" where
  "take_mantissa P s =
     (let a = takeWhile P s; r = dropWhile P s
      in case r of
           c # r1 \<Rightarrow>
             (if c = CHR ''.'' \<and> (a \<noteq> [] \<or> takeWhile P r1 \<noteq> [])
              then (a, takeWhile P r1, dropWhile P r1) else (a, [], r))
         | [] \<Rightarrow> (a, [], r))"

definition dec_double :: "bool \<Rightarrow> nat \<Rightarrow> int \<Rightarrow> double" where
  "dec_double neg d e =
     (if 0 \<le> e then mk_double neg (d * 10 ^ nat e) 1 else mk_double neg d (10 ^ nat (- e)))"

definition hex_double :: "bool \<Rightarrow> nat \<Rightarrow> int \<Rightarrow> double" where
  "hex_double neg d e =
     (if 0 \<le> e then mk_double neg (d * 2 ^ nat e) 1 else mk_double neg d (2 ^ nat (- e)))"

definition nan_tail :: "string \<Rightarrow> string" where
  "nan_tail s =
     (case s of CHR 0x28 # r \<Rightarrow>
        (let w = dropWhile (\<lambda>c. is_digit c \<or> c = CHR ''_'' \<or>
                                 97 \<le> ord_of (lower_ascii c) \<and> ord_of (lower_ascii c) \<le> 122) r
         in case w of CHR 0x29 # r' \<Rightarrow> r' | _ \<Rightarrow> s)
      | _ \<Rightarrow> s)"

text \<open>\<open>strtod(s, &end)\<close>: the value and the text from \<open>end\<close> on.\<close>

definition strtod :: "string \<Rightarrow> double \<times> string" where
  "strtod s =
     (let (neg, r) = take_sign (dropWhile is_space s)
      in case strip_word ''infinity'' r of
           Some r' \<Rightarrow> (DInf neg, r')
         | None \<Rightarrow>
      (case strip_word ''inf'' r of
           Some r' \<Rightarrow> (DInf neg, r')
         | None \<Rightarrow>
      (case strip_word ''nan'' r of
           Some r' \<Rightarrow> (DNan neg, nan_tail r')
         | None \<Rightarrow>
      (let hx = (case strip_word ''0x'' r of None \<Rightarrow> ([], [], r) | Some r' \<Rightarrow> take_mantissa is_xdigit r');
           (ha, hb, hr) = hx
       in if ha @ hb \<noteq> []
          then let (e, r') = take_exp CHR ''p'' hr
               in (hex_double neg (hex_digits_val (ha @ hb)) (e - 4 * int (length hb)), r')
          else let (a, b, dr) = take_mantissa is_digit r
               in if a @ b = [] then (DFin False 0 0, s)
                  else let (e, r') = take_exp CHR ''e'' dr
                       in (dec_double neg (digits_val (a @ b)) (e - int (length b)), r')))))"

subsection \<open>Converting and printing\<close>

text \<open>
  \<open>static_cast<int64_t>\<close> and \<open>static_cast<int>\<close> of a double truncate. Out of range C++
  leaves the result open; the model takes that of the arm64 target (\<open>fcvtzs\<close>), which
  saturates and turns NaN into 0. A conversion to an unsigned type is \<open>fcvtzu\<close>.
\<close>

definition trunc_double :: "double \<Rightarrow> int \<Rightarrow> int \<Rightarrow> int" where
  "trunc_double d lo hi =
     (case d of
        DFin s m e \<Rightarrow>
          (let a = (if 0 \<le> e then int m * 2 ^ nat e else int (m div 2 ^ nat (- e)))
           in max lo (min hi (if s then - a else a)))
      | DInf s \<Rightarrow> (if s then lo else hi)
      | DNan _ \<Rightarrow> 0)"

definition double_to_int64 :: "double \<Rightarrow> int" where
  "double_to_int64 d = trunc_double d (- (2 ^ 63)) (2 ^ 63 - 1)"

definition double_to_int32 :: "double \<Rightarrow> int" where
  "double_to_int32 d = trunc_double d (- (2 ^ 31)) (2 ^ 31 - 1)"

definition double_to_uint32 :: "double \<Rightarrow> int" where
  "double_to_uint32 d = trunc_double d 0 (2 ^ 32 - 1)"

text \<open>\<open>fabs(d) < 1e15 && d == floor(d)\<close>.\<close>

definition small_integral :: "double \<Rightarrow> bool" where
  "small_integral d =
     (case d of
        DFin s m e \<Rightarrow>
          (if 0 \<le> e then m * 2 ^ nat e < 10 ^ 15
           else m mod 2 ^ nat (- e) = 0 \<and> m div 2 ^ nat (- e) < 10 ^ 15)
      | _ \<Rightarrow> False)"

text \<open>The decimal exponent of \<open>a / b\<close>: the \<open>x\<close> with \<open>10^x \<le> a/b < 10^(x+1)\<close>.\<close>

fun neg_exponent :: "nat \<Rightarrow> nat \<Rightarrow> nat \<Rightarrow> nat \<Rightarrow> nat" where
  "neg_exponent 0 k a b = k"
| "neg_exponent (Suc n) k a b = (if b \<le> a * 10 ^ k then k else neg_exponent n (Suc k) a b)"

definition dec_exponent :: "nat \<Rightarrow> nat \<Rightarrow> int" where
  "dec_exponent a b =
     (if b \<le> a then int (length (show_nat (a div b))) - 1 else - int (neg_exponent 330 1 a b))"

definition strip_zeros :: "string \<Rightarrow> string" where
  "strip_zeros s = rev (dropWhile (\<lambda>c. c = CHR ''0'') (rev s))"

definition with_point :: "string \<Rightarrow> string \<Rightarrow> string" where
  "with_point a b = (if b = [] then a else a @ ''.'' @ b)"

text \<open>\<open>%.17g\<close>: 17 significant digits, trailing zeros dropped.\<close>

definition fmt_g17 :: "double \<Rightarrow> string" where
  "fmt_g17 d =
     (case d of
        DInf s \<Rightarrow> (if s then ''-inf'' else ''inf'')
      | DNan s \<Rightarrow> (if s then ''-nan'' else ''nan'')
      | DFin s m e \<Rightarrow>
          (if s then ''-'' else []) @
          (if m = 0 then ''0''
           else let (a, b) = (if 0 \<le> e then (m * 2 ^ nat e, 1) else (m, 2 ^ nat (- e)));
                    x0 = dec_exponent a b;
                    (p, q) = (if x0 \<le> 16 then (a * 10 ^ nat (16 - x0), b) else (a, b * 10 ^ nat (x0 - 16)));
                    d0 = round_div p q;
                    x = (if d0 = 10 ^ 17 then x0 + 1 else x0);
                    ds = show_nat (if d0 = 10 ^ 17 then 10 ^ 16 else d0)
                in if x < - 4 \<or> 17 \<le> x
                   then with_point (take 1 ds) (strip_zeros (drop 1 ds)) @ ''e'' @
                        (if x < 0 then ''-'' else ''+'') @ fmt_0d 2 \<bar>x\<bar>
                   else if 0 \<le> x
                   then with_point (take (nat x + 1) ds) (strip_zeros (drop (nat x + 1) ds))
                   else with_point ''0'' (replicate (nat (- x) - 1) CHR ''0'' @ strip_zeros ds)))"

subsection \<open>Integers are exact\<close>

lemma nbits_bounds: "0 < n \<Longrightarrow> 2 ^ (nbits n - 1) \<le> n \<and> n < 2 ^ nbits n \<and> 0 < nbits n"
proof (induction n rule: nbits.induct)
  case (1 n)
  show ?case
  proof (cases "n div 2 = 0")
    case True
    with "1.prems" have "n = 1" by auto
    then show ?thesis by (simp add: nbits_pos)
  next
    case False
    with 1 have IH: "2 ^ (nbits (n div 2) - 1) \<le> n div 2" "n div 2 < 2 ^ nbits (n div 2)"
      "0 < nbits (n div 2)" by auto
    define k where "k = nbits (n div 2) - 1"
    have k: "nbits (n div 2) = Suc k" using IH by (simp add: k_def)
    with IH "1.prems" show ?thesis by (simp add: nbits_pos) linarith
  qed
qed

lemma nbits_le: "n < 2 ^ k \<Longrightarrow> nbits n \<le> k"
proof (cases "n = 0")
  case False
  assume "n < 2 ^ k"
  with False nbits_bounds [of n] have "(2::nat) ^ (nbits n - 1) < 2 ^ k" by linarith
  then have "nbits n - 1 < k" by simp
  then show ?thesis by simp
qed simp

lemma nbits_1 [simp]: "nbits (Suc 0) = Suc 0"
  by (simp add: nbits_pos)

lemma mk_double_exact:
  assumes "0 < n" and "n < 2 ^ 53"
  shows "mk_double s n 1 = DFin s (n * 2 ^ (53 - nbits n)) (int (nbits n) - 53)"
proof -
  define k where "k = nbits n"
  have k: "k \<le> 53" "0 < k" "2 ^ (k - 1) \<le> n" "n < 2 ^ k"
    using nbits_bounds [OF assms(1)] nbits_le [OF assms(2)] by (auto simp: k_def)
  have e0: "int k - int (nbits 1) - 53 = - int (54 - k)" using k by simp
  have big: "(2::nat) ^ 53 \<le> n * 2 ^ (54 - k)"
  proof -
    have "(2::nat) ^ 53 = 2 ^ (k - 1) * 2 ^ (54 - k)" using k by (simp add: power_add [symmetric])
    also have "\<dots> \<le> n * 2 ^ (54 - k)" using k by simp
    finally show ?thesis .
  qed
  have small: "n * 2 ^ (53 - k) < 2 ^ 53"
  proof -
    have "n * 2 ^ (53 - k) < 2 ^ k * 2 ^ (53 - k)" using k by simp
    also have "\<dots> = 2 ^ 53" using k by (simp add: power_add [symmetric])
    finally show ?thesis .
  qed
  have "nat (int (54 - k)) = 54 - k" "\<not> 0 \<le> - int (54 - k)" using k by auto
  then have s0: "scaled n 1 (- int (54 - k)) = (n * 2 ^ (54 - k), 1)"
    by (simp only: scaled_def if_False minus_minus)
  have "nat (53 - int k) = 53 - k" using k by simp
  then have s1: "scaled n 1 (- int (53 - k)) = (n * 2 ^ (53 - k), 1)"
    using k by (simp add: scaled_def)
  have e1: "- int (54 - k) + 1 = - int (53 - k)" using k by simp
  have mx: "max (- int (53 - k)) (- 1074) = - int (53 - k)" by simp
  have r1: "round_div x 1 = x" for x by (simp add: round_div_def)
  have "mk_double s n 1 = DFin s (n * 2 ^ (53 - k)) (- int (53 - k))"
    unfolding mk_double_def Let_def k_def [symmetric] e0 s0 prod.case
    using big small assms(1) unfolding s0 s1 e1 mx r1 prod.case
    by (simp add: e1 mx s1 r1 del: One_nat_def)
  moreover have "- int (53 - k) = int k - 53" using k by simp
  ultimately show ?thesis by (simp add: k_def)
qed

lemma mk_double_0 [simp]: "mk_double s 0 b = DFin s 0 0"
  by (simp add: mk_double_def)

lemma trunc_mk_double:
  assumes "n < 2 ^ 53" and "lo \<le> - int n" and "int n \<le> hi"
  shows "trunc_double (mk_double s n 1) lo hi = (if s then - int n else int n)"
proof (cases "n = 0")
  case True
  with assms show ?thesis by (simp add: trunc_double_def)
next
  case False
  define k where "k = nbits n"
  have k: "k \<le> 53" using nbits_le [OF assms(1)] by (simp add: k_def)
  have "nat (- (int k - 53)) = 53 - k" using k by simp
  moreover have "mk_double s n 1 = DFin s (n * 2 ^ (53 - k)) (int k - 53)"
    using False assms by (simp only: mk_double_exact k_def)
  ultimately show ?thesis
    using assms k by (cases "k = 53") (simp_all add: trunc_double_def)
qed

lemma double_to_int64_of_int:
  assumes "\<bar>i\<bar> < 2 ^ 53"
  shows "double_to_int64 (double_of_int i) = i"
proof -
  have "nat \<bar>i\<bar> < 2 ^ 53" using assms by (simp add: nat_less_iff)
  with assms show ?thesis
    unfolding double_to_int64_def double_of_int_def
    by (subst trunc_mk_double) auto
qed

lemma double_to_int32_of_int:
  assumes "\<bar>i\<bar> < 2 ^ 31"
  shows "double_to_int32 (double_of_int i) = i"
proof -
  have "nat \<bar>i\<bar> < 2 ^ 53" using assms by (simp add: nat_less_iff)
  with assms show ?thesis
    unfolding double_to_int32_def double_of_int_def
    by (subst trunc_mk_double) auto
qed

lemma small_integral_of_int:
  assumes "\<bar>i\<bar> < 10 ^ 15"
  shows "small_integral (double_of_int i)"
proof -
  define n where "n = nat \<bar>i\<bar>"
  have n: "n < 10 ^ 15" using assms by (simp add: n_def nat_less_iff)
  then have n53: "n < 2 ^ 53" by simp
  show ?thesis
  proof (cases "n = 0")
    case True
    then show ?thesis by (simp add: double_of_int_def n_def [symmetric] small_integral_def)
  next
    case False
    define k where "k = nbits n"
    have k: "k \<le> 53" using nbits_le [OF n53] by (simp add: k_def)
    have "nat (- (int k - 53)) = 53 - k" using k by simp
    moreover have "mk_double (i < 0) n 1 = DFin (i < 0) (n * 2 ^ (53 - k)) (int k - 53)"
      using False n53 by (simp only: mk_double_exact k_def)
    ultimately show ?thesis
      using n k unfolding double_of_int_def n_def [symmetric]
      by (cases "k = 53") (simp_all add: small_integral_def)
  qed
qed

lemma double_of_int_inject:
  assumes "\<bar>i\<bar> < 2 ^ 53" and "\<bar>j\<bar> < 2 ^ 53"
  shows "double_of_int i = double_of_int j \<longleftrightarrow> i = j"
  using double_to_int64_of_int [OF assms(1)] double_to_int64_of_int [OF assms(2)] by metis

subsection \<open>The text of an integer reads back\<close>

lemma lower_ascii_digit: "is_digit c \<Longrightarrow> lower_ascii c = c"
  by (simp add: is_digit_def lower_ascii_def)

lemma strip_word_digit:
  "is_digit c \<Longrightarrow> w \<noteq> [] \<Longrightarrow> hd w \<noteq> c \<Longrightarrow> strip_word w (c # r) = None"
  by (cases w) (auto simp: strip_word_def lower_ascii_digit)

lemma take_mantissa_all:
  "\<forall>c \<in> set s. P c \<Longrightarrow> take_mantissa P s = (s, [], [])"
  by (simp add: take_mantissa_def takeWhile_all Let_def
      dropWhile_eq_Nil_conv [THEN iffD2])

lemma show_nat_Cons:
  "\<exists>c r. show_nat n = c # r \<and> is_digit c \<and> (\<forall>x \<in> set r. is_digit x) \<and>
              (c = CHR ''0'' \<longrightarrow> r = [] \<and> n = 0)"
proof (induction n rule: show_nat.induct)
  case (1 n)
  show ?case
  proof (cases "n < 10")
    case True
    have "chr_of (48 + n) = CHR ''0'' \<Longrightarrow> n = 0"
      using True digit_val_chr_of [of n] by (simp add: digit_val_def)
    with True show ?thesis by (subst show_nat.simps) (auto simp: is_digit_chr_of)
  next
    case False
    with 1 obtain c r where *: "show_nat (n div 10) = c # r" "is_digit c"
      "\<forall>x \<in> set r. is_digit x" "c = CHR ''0'' \<longrightarrow> r = [] \<and> n div 10 = 0" by auto
    have "n div 10 \<noteq> 0" using False by simp
    with * False show ?thesis by (subst show_nat.simps) (auto simp: is_digit_chr_of)
  qed
qed

lemma strtod_show_nat:
  "strtod (show_nat n) = (dec_double False n 0, [])"
proof -
  obtain c r where cr: "show_nat n = c # r" "is_digit c" "\<forall>x \<in> set r. is_digit x"
    "c = CHR ''0'' \<Longrightarrow> r = []" using show_nat_Cons [of n] by blast
  have w: "strip_word w (c # r) = None" if "w \<noteq> []" "\<not> is_digit (hd w)" for w
    using that cr(2) by (intro strip_word_digit) auto
  have x: "strip_word ''0x'' (c # r) = None"
    using cr by (cases r) (auto simp: strip_word_def lower_ascii_digit)
  have sp: "dropWhile is_space (c # r) = c # r" using cr(2) by (simp add: digit_not_space)
  have sg: "take_sign (c # r) = (False, c # r)"
    using cr(2) by (auto simp: is_digit_def)
  have m: "take_mantissa is_digit (c # r) = (c # r, [], [])"
    using cr by (intro take_mantissa_all) auto
  have dv: "digits_val (c # r) = n" using digits_val_show_nat [of n] cr(1) by simp
  have i1: "strip_word ''infinity'' (c # r) = None" and i2: "strip_word ''inf'' (c # r) = None"
    and i3: "strip_word ''nan'' (c # r) = None"
    by (rule w; simp add: is_digit_def)+
  show ?thesis
    unfolding strtod_def cr(1) sp sg Let_def prod.case i1 i2 i3 option.case x m
    by (simp add: take_exp_def dv)
qed

lemma strtod_show_int:
  "strtod (show_int i) = (double_of_int i, [])"
proof (cases "i < 0")
  case True
  define n where "n = nat (- i)"
  obtain c r where cr: "show_nat n = c # r" "is_digit c" "\<forall>x \<in> set r. is_digit x"
    "c = CHR ''0'' \<Longrightarrow> r = []" using show_nat_Cons [of n] by blast
  have w: "strip_word w (c # r) = None" if "w \<noteq> []" "\<not> is_digit (hd w)" for w
    using that cr(2) by (intro strip_word_digit) auto
  have x: "strip_word ''0x'' (c # r) = None"
    using cr by (cases r) (auto simp: strip_word_def lower_ascii_digit)
  have m: "take_mantissa is_digit (c # r) = (c # r, [], [])"
    using cr by (intro take_mantissa_all) auto
  have dv: "digits_val (c # r) = n" using digits_val_show_nat [of n] cr(1) by simp
  have i1: "strip_word ''infinity'' (c # r) = None" and i2: "strip_word ''inf'' (c # r) = None"
    and i3: "strip_word ''nan'' (c # r) = None"
    by (rule w; simp add: is_digit_def)+
  have e: "show_int i = CHR ''-'' # c # r" using True cr(1) by (simp add: show_int_def n_def)
  have sp: "dropWhile is_space (CHR ''-'' # c # r) = CHR ''-'' # c # r"
    by (simp add: is_space_def)
  have "strtod (show_int i) = (dec_double True n 0, [])"
    unfolding strtod_def e sp take_sign.simps simp_thms if_True Let_def prod.case i1 i2 i3 option.case x m
    by (simp add: take_exp_def dv)
  moreover have "dec_double True n 0 = double_of_int i"
    using True by (simp add: dec_double_def double_of_int_def n_def)
  ultimately show ?thesis by simp
next
  case False
  then show ?thesis
    by (simp add: show_int_def strtod_show_nat dec_double_def double_of_int_def)
qed

end
