(* ===== verification/Util.thy ===== *)
theory Util
  imports Cstd "HOL-Library.Signed_Division"
begin

text \<open>
  The helpers of \<open>src/src/util.cpp\<close>: hexadecimal and base64 text, time stamps and their
  parsers, UUIDs, string helpers, the URI encoding of SigV4 and the comparison of dotted
  versions. The digests and the HMAC of mbedTLS are not here: they are parameters of the
  definitions that use them.

  The lemmas show that the encoders lose nothing (base64 and URI text decode back to the
  bytes), that splitting and joining are inverse, that a printed time stamp parses back to the
  same second, and that the version comparison is a total preorder on version texts.
\<close>

subsection \<open>Hexadecimal and base64\<close>

definition to_hex :: "string \<Rightarrow> string" where
  "to_hex raw = concat (map (\<lambda>c. [hex_digit (ord_of c div 16), hex_digit (ord_of c mod 16)]) raw)"

definition b64_alphabet :: string where
  "b64_alphabet = ''ABCDEFGHIJKLMNOPQRSTUVWXYZabcdefghijklmnopqrstuvwxyz0123456789+/''"

definition b64_char :: "u32 \<Rightarrow> nat \<Rightarrow> char" where
  "b64_char v sh = b64_alphabet ! unat ((drop_bit sh v) AND 63)"

definition u32_of :: "char \<Rightarrow> u32" where
  "u32_of c = of_nat (ord_of c)"

fun base64_encode :: "string \<Rightarrow> string" where
  "base64_encode (a # b # c # r) =
     (let v = push_bit 16 (u32_of a) OR push_bit 8 (u32_of b) OR u32_of c
      in [b64_char v 18, b64_char v 12, b64_char v 6, b64_char v 0] @ base64_encode r)"
| "base64_encode [a] =
     (let v = push_bit 16 (u32_of a) in [b64_char v 18, b64_char v 12, CHR ''='', CHR ''=''])"
| "base64_encode [a, b] =
     (let v = push_bit 16 (u32_of a) OR push_bit 8 (u32_of b)
      in [b64_char v 18, b64_char v 12, b64_char v 6, CHR ''=''])"
| "base64_encode [] = []"

subsection \<open>Time stamps\<close>

definition amz_date :: "int \<Rightarrow> string" where
  "amz_date epoch =
     (let g = gmtime epoch
      in fmt_0d 4 (tm_year g) @ fmt_0d 2 (int (tm_mon g)) @ fmt_0d 2 (int (tm_mday g)) @ ''T'' @
         fmt_0d 2 (int (tm_hour g)) @ fmt_0d 2 (int (tm_min g)) @ fmt_0d 2 (int (tm_sec g)) @ ''Z'')"

definition amz_datestamp :: "int \<Rightarrow> string" where
  "amz_datestamp epoch =
     (let g = gmtime epoch
      in fmt_0d 4 (tm_year g) @ fmt_0d 2 (int (tm_mon g)) @ fmt_0d 2 (int (tm_mday g)))"

text \<open>Division and remainder of C truncate towards zero: \<open>sdiv\<close> and \<open>smod\<close>.\<close>

definition iso8601 :: "int \<Rightarrow> string" where
  "iso8601 epoch_ms =
     (let g = gmtime (epoch_ms sdiv 1000)
      in fmt_0d 4 (tm_year g) @ ''-'' @ fmt_0d 2 (int (tm_mon g)) @ ''-'' @
         fmt_0d 2 (int (tm_mday g)) @ ''T'' @ fmt_0d 2 (int (tm_hour g)) @ '':'' @
         fmt_0d 2 (int (tm_min g)) @ '':'' @ fmt_0d 2 (int (tm_sec g)) @ ''.'' @
         fmt_0d 3 (epoch_ms smod 1000) @ ''Z'')"

definition iso8601_seconds :: "int \<Rightarrow> string" where
  "iso8601_seconds epoch =
     (let g = gmtime epoch
      in fmt_0d 4 (tm_year g) @ ''-'' @ fmt_0d 2 (int (tm_mon g)) @ ''-'' @
         fmt_0d 2 (int (tm_mday g)) @ ''T'' @ fmt_0d 2 (int (tm_hour g)) @ '':'' @
         fmt_0d 2 (int (tm_min g)) @ '':'' @ fmt_0d 2 (int (tm_sec g)) @ ''Z'')"

definition iso_dash :: "int \<Rightarrow> string" where
  "iso_dash epoch_ms =
     (let g = gmtime (epoch_ms sdiv 1000)
      in fmt_0d 4 (tm_year g) @ ''-'' @ fmt_0d 2 (int (tm_mon g)) @ ''-'' @
         fmt_0d 2 (int (tm_mday g)) @ ''T'' @ fmt_0d 2 (int (tm_hour g)) @ ''-'' @
         fmt_0d 2 (int (tm_min g)) @ ''-'' @ fmt_0d 2 (int (tm_sec g)) @ ''.'' @
         fmt_0d 3 (epoch_ms smod 1000) @ ''Z'')"

text \<open>
  Days since 1970 of a civil date. The month and the day are \<open>unsigned\<close>: their arithmetic
  wraps at 32 bits, and the year of the era and the day of the era are \<open>unsigned\<close> too.
\<close>

definition days_from_civil :: "int \<Rightarrow> u32 \<Rightarrow> u32 \<Rightarrow> int" where
  "days_from_civil y0 m d =
     (let y = (if m \<le> 2 then y0 - 1 else y0);
          era = (if 0 \<le> y then y else y - 399) sdiv 400;
          yoe = (of_int (y - era * 400) :: u32);
          doy = (153 * (m + (if 2 < m then - 3 else 9)) + 2) div 5 + d - 1;
          doe = yoe * 365 + yoe div 4 - yoe div 100 + doy
      in era * 146097 + uint doe - 719468)"

definition parse_iso8601 :: "string \<Rightarrow> int" where
  "parse_iso8601 s =
     (case do {
        (year, s1) \<leftarrow> scan_d 4 (cstr s); s2 \<leftarrow> scan_lit CHR ''-'' s1;
        (mon, s3) \<leftarrow> scan_d 2 s2; s4 \<leftarrow> scan_lit CHR ''-'' s3;
        (day, s5) \<leftarrow> scan_d 2 s4; s6 \<leftarrow> scan_lit CHR ''T'' s5;
        (hour, s7) \<leftarrow> scan_d 2 s6; s8 \<leftarrow> scan_lit CHR '':'' s7;
        (mi, s9) \<leftarrow> scan_d 2 s8; s10 \<leftarrow> scan_lit CHR '':'' s9;
        (sec, _) \<leftarrow> scan_d 2 s10;
        Some (year, mon, day, hour, mi, sec) }
      of None \<Rightarrow> 0
       | Some (year, mon, day, hour, mi, sec) \<Rightarrow>
           days_from_civil year (of_int mon) (of_int day) * 86400 + hour * 3600 + mi * 60 + sec)"

definition month_names :: "string list" where
  "month_names = [''Jan'', ''Feb'', ''Mar'', ''Apr'', ''May'', ''Jun'',
                  ''Jul'', ''Aug'', ''Sep'', ''Oct'', ''Nov'', ''Dec'']"

definition month_index :: "string \<Rightarrow> nat" where
  "month_index name =
     (case find (\<lambda>i. month_names ! i = name) [0..<12] of None \<Rightarrow> 0 | Some i \<Rightarrow> i + 1)"

definition parse_http_date :: "string \<Rightarrow> int" where
  "parse_http_date s0 =
     (let s = cstr s0;
          rest = (case find_sub '','' s of None \<Rightarrow> s | Some p \<Rightarrow> drop (p + 1) s);
          w = length s0
      in case do {
           (day, s1) \<leftarrow> scan_d w (scan_ws rest);
           (name, s2) \<leftarrow> scan_s 3 (scan_ws s1);
           (year, s3) \<leftarrow> scan_d w (scan_ws s2);
           (hour, s4) \<leftarrow> scan_d w (scan_ws s3); s5 \<leftarrow> scan_lit CHR '':'' s4;
           (mi, s6) \<leftarrow> scan_d w s5; s7 \<leftarrow> scan_lit CHR '':'' s6;
           (sec, _) \<leftarrow> scan_d w s7;
           Some (day, name, year, hour, mi, sec) }
         of None \<Rightarrow> 0
          | Some (day, name, year, hour, mi, sec) \<Rightarrow>
              let mon = month_index name
              in if mon = 0 then 0
                 else days_from_civil year (of_nat mon) (of_int day) * 86400 + hour * 3600 +
                      mi * 60 + sec)"

subsection \<open>UUIDs\<close>

text \<open>
  The sixteen bytes come from \<open>/dev/urandom\<close>, or from the clock when the read was short
  (\<^const>\<open>None\<close>). The clock is a signed 64-bit value shifted arithmetically.
\<close>

definition uuid_fallback :: "int \<Rightarrow> byte list" where
  "uuid_fallback now_ms =
     map (\<lambda>i. of_int (drop_bit (i mod 8 * 8) now_ms) XOR of_nat (i * 31)) [0..<16]"

definition uuid_stamp :: "byte list \<Rightarrow> byte list" where
  "uuid_stamp b = b[6 := (b ! 6 AND 0x0F) OR 0x40, 8 := (b ! 8 AND 0x3F) OR 0x80]"

definition hex_byte :: "byte \<Rightarrow> string" where
  "hex_byte w = [hex_digit (unat w div 16), hex_digit (unat w mod 16)]"

definition uuid_text :: "byte list \<Rightarrow> string" where
  "uuid_text b =
     concat (map hex_byte (take 4 b)) @ ''-'' @ concat (map hex_byte (take 2 (drop 4 b))) @ ''-'' @
     concat (map hex_byte (take 2 (drop 6 b))) @ ''-'' @
     concat (map hex_byte (take 2 (drop 8 b))) @ ''-'' @ concat (map hex_byte (drop 10 b))"

definition uuid4 :: "byte list option \<Rightarrow> int \<Rightarrow> string" where
  "uuid4 urandom now_ms =
     uuid_text (uuid_stamp (case urandom of Some b \<Rightarrow> b | None \<Rightarrow> uuid_fallback now_ms))"

subsection \<open>Strings\<close>

definition is_trimmed :: "char \<Rightarrow> bool" where
  "is_trimmed c \<longleftrightarrow> c = CHR '' '' \<or> c = CHR 0x09 \<or> c = CHR 0x0D \<or> c = CHR 0x0A"

definition trim :: "string \<Rightarrow> string" where
  "trim s = rev (dropWhile is_trimmed (rev (dropWhile is_trimmed s)))"

definition starts_with :: "string \<Rightarrow> string \<Rightarrow> bool" where
  "starts_with s p \<longleftrightarrow> length p \<le> length s \<and> take (length p) s = p"

function split :: "string \<Rightarrow> char \<Rightarrow> string list" where
  "split s sep =
     (case find_sub [sep] s of
        None \<Rightarrow> [s]
      | Some p \<Rightarrow> take p s # split (drop (p + 1) s) sep)"
  by pat_completeness auto
termination
  by (relation "measure (\<lambda>(s, sep). length s)") (auto dest!: find_sub_Some)

declare split.simps [simp del]

fun join :: "string list \<Rightarrow> string \<Rightarrow> string" where
  "join [] sep = []"
| "join [p] sep = p"
| "join (p # q # ps) sep = p @ sep @ join (q # ps) sep"

definition lower_char :: "char \<Rightarrow> char" where
  "lower_char c = (if 65 \<le> ord_of c \<and> ord_of c \<le> 90 then chr_of (ord_of c + 32) else c)"

definition lower :: "string \<Rightarrow> string" where
  "lower s = map lower_char s"

definition clip :: "string \<Rightarrow> nat \<Rightarrow> string \<Rightarrow> string" where
  "clip s mx suffix =
     (if length s \<le> mx then s
      else if mx \<le> length suffix then take mx s
      else take (mx - length suffix) s @ suffix)"

definition unreserved :: "char \<Rightarrow> bool" where
  "unreserved c \<longleftrightarrow>
     (65 \<le> ord_of c \<and> ord_of c \<le> 90) \<or> (97 \<le> ord_of c \<and> ord_of c \<le> 122) \<or> is_digit c \<or>
     c = CHR ''-'' \<or> c = CHR ''_'' \<or> c = CHR ''.'' \<or> c = CHR ''~''"

definition uri_encode_char :: "bool \<Rightarrow> char \<Rightarrow> string" where
  "uri_encode_char encode_slash c =
     (if unreserved c \<or> (c = CHR ''/'' \<and> \<not> encode_slash) then [c]
      else [CHR ''%'', hex_digit_upper (ord_of c div 16), hex_digit_upper (ord_of c mod 16)])"

definition uri_encode :: "string \<Rightarrow> bool \<Rightarrow> string" where
  "uri_encode s encode_slash = concat (map (uri_encode_char encode_slash) s)"

text \<open>Missing components count as 0; the first difference decides.\<close>

fun compare_components :: "int list \<Rightarrow> int list \<Rightarrow> int" where
  "compare_components (x # xs) (y # ys) =
     (if x \<noteq> y then (if x < y then - 1 else 1) else compare_components xs ys)"
| "compare_components (x # xs) [] =
     (if x \<noteq> 0 then (if x < 0 then - 1 else 1) else compare_components xs [])"
| "compare_components [] (y # ys) =
     (if 0 \<noteq> y then (if 0 < y then - 1 else 1) else compare_components [] ys)"
| "compare_components [] [] = 0"

definition version_compare :: "string \<Rightarrow> string \<Rightarrow> int" where
  "version_compare a b =
     compare_components (map strtol (split a CHR ''.'')) (map strtol (split b CHR ''.''))"

subsection \<open>Base64 text decodes to the bytes it encodes\<close>

text \<open>
  The proofs read the 24-bit groups of the encoder as numbers in radix 64; the decoder is
  that of RFC 4648, which the source does not contain.
\<close>

lemma u32_of_unat [simp]: "unat (u32_of c) = ord_of c"
proof -
  have "ord_of c < 2 ^ 32" by (rule order.strict_trans [OF ord_of_less_256]) simp
  then show ?thesis by (simp add: u32_of_def unat_of_nat)
qed

lemma bit_u32_of: "bit (u32_of c) n \<Longrightarrow> n < 8"
proof (rule ccontr)
  assume "bit (u32_of c) n" "\<not> n < 8"
  then have b: "bit (ord_of c) n" unfolding u32_of_def by (simp add: bit_simps)
  have "(2::nat) ^ 8 \<le> 2 ^ n" using \<open>\<not> n < 8\<close> by (intro power_increasing) auto
  then have "ord_of c < 2 ^ n" using order.strict_trans2 [OF ord_of_less_256] by simp
  with b show False by (metis bit_iff_odd div_less even_zero)
qed

lemma b64_word:
  "push_bit 16 (u32_of a) OR push_bit 8 (u32_of b) OR u32_of c =
   of_nat (ord_of a * 65536 + ord_of b * 256 + ord_of c)"
proof -
  have "push_bit 8 (u32_of b) AND u32_of c = 0"
    by (rule bit_word_eqI) (auto simp: bit_simps dest!: bit_u32_of)
  then have 1: "push_bit 8 (u32_of b) OR u32_of c = push_bit 8 (u32_of b) + u32_of c"
    by (simp add: disjunctive_add_eq_or)
  have "push_bit 16 (u32_of a) AND (push_bit 8 (u32_of b) OR u32_of c) = 0"
    by (rule bit_word_eqI) (auto simp: bit_simps dest!: bit_u32_of)
  then have "push_bit 16 (u32_of a) OR (push_bit 8 (u32_of b) OR u32_of c) =
     push_bit 16 (u32_of a) + (push_bit 8 (u32_of b) OR u32_of c)"
    by (simp add: disjunctive_add_eq_or)
  with 1 show ?thesis
    by (simp add: push_bit_eq_mult u32_of_def or.assoc mult.commute)
qed

lemma b64_char_of_nat:
  assumes "n < 2 ^ 32"
  shows "b64_char (of_nat n) sh = b64_alphabet ! (n div 2 ^ sh mod 64)"
proof -
  have "drop_bit sh (of_nat n :: u32) AND 63 = take_bit 6 (drop_bit sh (of_nat n))"
    unfolding take_bit_eq_mask by (simp add: mask_numeral)
  then have "unat (drop_bit sh (of_nat n :: u32) AND 63) = take_bit 6 (drop_bit sh n)"
    using assms by (simp add: unsigned_take_bit_eq unat_drop_bit_eq unat_of_nat)
  then show ?thesis by (simp add: b64_char_def take_bit_eq_mod drop_bit_eq_div)
qed

definition b64_val :: "char \<Rightarrow> nat option" where
  "b64_val c = find (\<lambda>i. b64_alphabet ! i = c) [0..<64]"

lemma b64_val_table: "map (\<lambda>i. b64_val (b64_alphabet ! i)) [0..<64] = map Some [0..<64]"
  by code_simp

lemma b64_val_alphabet: "i < 64 \<Longrightarrow> b64_val (b64_alphabet ! i) = Some i"
  using arg_cong [OF b64_val_table, of "\<lambda>xs. xs ! i"] by simp

lemma b64_pad_table: "map (\<lambda>i. b64_alphabet ! i = CHR ''='') [0..<64] = replicate 64 False"
  by code_simp

lemma b64_not_pad: "i < 64 \<Longrightarrow> b64_alphabet ! i \<noteq> CHR ''=''"
  using arg_cong [OF b64_pad_table, of "\<lambda>xs. xs ! i"] by simp

definition b64_bytes :: "nat \<Rightarrow> nat \<Rightarrow> nat \<Rightarrow> nat \<Rightarrow> string" where
  "b64_bytes i j k l =
     (let n = i * 262144 + j * 4096 + k * 64 + l
      in [chr_of (n div 65536), chr_of (n div 256), chr_of n])"

fun base64_decode :: "string \<Rightarrow> string option" where
  "base64_decode [] = Some []"
| "base64_decode (w # x # y # z # r) =
     do {
       i \<leftarrow> b64_val w; j \<leftarrow> b64_val x;
       if y = CHR ''='' \<and> z = CHR ''='' \<and> r = [] then Some (take 1 (b64_bytes i j 0 0))
       else do {
         k \<leftarrow> b64_val y;
         if z = CHR ''='' \<and> r = [] then Some (take 2 (b64_bytes i j k 0))
         else do { l \<leftarrow> b64_val z; t \<leftarrow> base64_decode r; Some (b64_bytes i j k l @ t) }
       }
     }"
| "base64_decode _ = None"

lemma radix_64:
  assumes "n < 16777216"
  shows "(n div 262144 mod 64) * 262144 + (n div 4096 mod 64) * 4096 + (n div 64 mod 64) * 64 +
         n mod 64 = (n::nat)"
proof -
  define q1 q2 q3 where "q1 = n div 64" and "q2 = q1 div 64" and "q3 = q2 div 64"
  have "n div 4096 = q2" "n div 262144 = q3"
    unfolding q1_def q2_def q3_def by (simp_all add: div_mult2_eq [symmetric])
  moreover have "q3 mod 64 = q3"
    using assms unfolding q1_def q2_def q3_def
    by (simp add: div_mult2_eq [symmetric] div_less_iff_less_mult)
  moreover have "n = q1 * 64 + n mod 64" "q1 = q2 * 64 + q1 mod 64" "q2 = q3 * 64 + q2 mod 64"
    unfolding q1_def q2_def q3_def by (simp_all only: div_mult_mod_eq)
  moreover define r0 r1 r2 where "r0 = n mod 64" and "r1 = q1 mod 64" and "r2 = q2 mod 64"
  ultimately show ?thesis
    unfolding q1_def [symmetric] r0_def [symmetric] r1_def [symmetric] r2_def [symmetric]
    by simp
qed

lemma b64_bytes_word:
  fixes a b c
  defines "n \<equiv> ord_of a * 65536 + ord_of b * 256 + ord_of c"
  shows "b64_bytes (n div 262144 mod 64) (n div 4096 mod 64) (n div 64 mod 64) (n mod 64) = [a, b, c]"
proof -
  have bounds: "ord_of a \<le> 255" "ord_of b \<le> 255" "ord_of c \<le> 255"
    using ord_of_less_256 [of a] ord_of_less_256 [of b] ord_of_less_256 [of c] by linarith+
  then have "n < 16777216" unfolding n_def by linarith
  then have r: "(n div 262144 mod 64) * 262144 + (n div 4096 mod 64) * 4096 + (n div 64 mod 64) * 64 +
         n mod 64 = n" by (rule radix_64)
  have "n div 65536 = ord_of a" 
    using bounds by (intro div_nat_eqI) (simp_all add: n_def)
  moreover have "n div 256 = ord_of a * 256 + ord_of b"
    using bounds by (intro div_nat_eqI) (simp_all add: n_def)
  moreover have "chr_of (ord_of a * 256 + ord_of b) = b"
    by (simp add: char_of_eq_iff take_bit_eq_mod)
  moreover have "chr_of n = c"
  proof -
    have "n = ord_of c + 256 * (ord_of a * 256 + ord_of b)" unfolding n_def by simp
    then have "n mod 256 = ord_of c" by (simp only: mod_mult_self2) simp
    then show ?thesis by (simp add: char_of_eq_iff take_bit_eq_mod)
  qed
  ultimately show ?thesis unfolding b64_bytes_def Let_def r by simp
qed

lemma b64_word_less: "ord_of a * 65536 + ord_of b * 256 + ord_of c < 2 ^ 32"
proof -
  have "(2::nat) ^ 32 = 4294967296" by simp
  then show ?thesis
    using ord_of_less_256 [of a] ord_of_less_256 [of b] ord_of_less_256 [of c] by linarith
qed

lemma b64_word2:
  "push_bit 16 (u32_of a) OR push_bit 8 (u32_of b) =
   of_nat (ord_of a * 65536 + ord_of b * 256 + ord_of (chr_of 0))"
  using b64_word [of a b "chr_of 0"] by (simp add: u32_of_def)

lemma b64_word1:
  "push_bit 16 (u32_of a) =
   of_nat (ord_of a * 65536 + ord_of (chr_of 0) * 256 + ord_of (chr_of 0))"
  using b64_word [of a "chr_of 0" "chr_of 0"] by (simp add: u32_of_def)

lemma b64_quad:
  fixes a b c
  defines "n \<equiv> ord_of a * 65536 + ord_of b * 256 + ord_of c"
  shows "b64_char (of_nat n) 18 = b64_alphabet ! (n div 262144 mod 64)"
    and "b64_char (of_nat n) 12 = b64_alphabet ! (n div 4096 mod 64)"
    and "b64_char (of_nat n) 6 = b64_alphabet ! (n div 64 mod 64)"
    and "b64_char (of_nat n) 0 = b64_alphabet ! (n mod 64)"
  using b64_char_of_nat [OF b64_word_less [of a b c, folded n_def]] by simp_all

lemma base64_decode_quad:
  fixes a b c
  defines "n \<equiv> ord_of a * 65536 + ord_of b * 256 + ord_of c"
  shows "base64_decode ([b64_char (of_nat n) 18, b64_char (of_nat n) 12, b64_char (of_nat n) 6,
           b64_char (of_nat n) 0] @ r) = map_option ((@) [a, b, c]) (base64_decode r)"
proof -
  have b: "b64_bytes (n div 262144 mod 64) (n div 4096 mod 64) (n div 64 mod 64) (n mod 64) = [a, b, c]"
    unfolding n_def by (rule b64_bytes_word)
  show ?thesis
    unfolding b64_quad [of a b c, folded n_def]
    by (cases "base64_decode r") (simp_all add: b64_val_alphabet b64_not_pad b)
qed

lemma base64_decode_pad1:
  fixes a b
  defines "n \<equiv> ord_of a * 65536 + ord_of b * 256 + ord_of (chr_of 0)"
  shows "base64_decode [b64_char (of_nat n) 18, b64_char (of_nat n) 12, b64_char (of_nat n) 6,
           CHR ''=''] = Some [a, b]"
proof -
  have b: "b64_bytes (n div 262144 mod 64) (n div 4096 mod 64) (n div 64 mod 64) (n mod 64) =
      [a, b, chr_of 0]"
    unfolding n_def by (rule b64_bytes_word)
  have "n = 64 * (ord_of a * 1024 + ord_of b * 4)" unfolding n_def by simp
  then have "n mod 64 = 0" by simp
  with b show ?thesis
    unfolding b64_quad [of a b "chr_of 0", folded n_def]
    by (simp add: b64_val_alphabet b64_not_pad)
qed

lemma base64_decode_pad2:
  fixes a
  defines "n \<equiv> ord_of a * 65536 + ord_of (chr_of 0) * 256 + ord_of (chr_of 0)"
  shows "base64_decode [b64_char (of_nat n) 18, b64_char (of_nat n) 12, CHR ''='', CHR ''=''] = Some [a]"
proof -
  have b: "b64_bytes (n div 262144 mod 64) (n div 4096 mod 64) (n div 64 mod 64) (n mod 64) =
      [a, chr_of 0, chr_of 0]"
    unfolding n_def by (rule b64_bytes_word)
  have "n = 64 * (ord_of a * 1024)" unfolding n_def by simp
  then have "n mod 64 = 0" by simp
  moreover have "n div 64 mod 64 = 0" unfolding \<open>n = _\<close> by simp
  ultimately show ?thesis using b
    unfolding b64_quad [of a "chr_of 0" "chr_of 0", folded n_def]
    by (simp add: b64_val_alphabet)
qed

lemma length_base64_encode: "length (base64_encode s) = 4 * ((length s + 2) div 3)"
proof (induction s rule: base64_encode.induct)
  case (1 a b c r)
  have "(length (a # b # c # r) + 2) div 3 = (length r + 2) div 3 + 1"
    using div_add_self2 [of 3 "length r + 2"] by simp
  with 1 show ?case by (simp add: Let_def)
qed (simp_all add: Let_def)

text \<open>
  \<open>base64_encode\<close> is lossless for every byte string: the RFC 4648 decoder returns the
  input, padding included, and the text has four characters per started group of three bytes.
\<close>

theorem base64_roundtrip:
  "base64_decode (base64_encode s) = Some s \<and> length (base64_encode s) = 4 * ((length s + 2) div 3)"
proof
  show "base64_decode (base64_encode s) = Some s"
  proof (induction s rule: base64_encode.induct)
    case (1 a b c r)
    then show ?case
      by (simp only: base64_encode.simps Let_def or.assoc b64_word base64_decode_quad) simp
  next
    case (2 a)
    show ?case by (simp only: base64_encode.simps Let_def b64_word1 base64_decode_pad2)
  next
    case (3 a b)
    show ?case by (simp only: base64_encode.simps Let_def b64_word2 base64_decode_pad1)
  qed simp
qed (rule length_base64_encode)

subsection \<open>Hexadecimal and URI text\<close>

lemma nibbles_less: "ord_of c div 16 < 16" "ord_of c mod 16 < 16"
  using ord_of_less_256 [of c] by (simp_all add: div_less_iff_less_mult)

definition from_hex_pair :: "char \<Rightarrow> char \<Rightarrow> char option" where
  "from_hex_pair h l =
     do { i \<leftarrow> hex_val h; j \<leftarrow> hex_val l; Some (chr_of (i * 16 + j)) }"

lemma from_hex_pair_lower [simp]:
  "from_hex_pair (hex_digit (ord_of c div 16)) (hex_digit (ord_of c mod 16)) = Some c"
  by (simp add: from_hex_pair_def nibbles_less)

lemma from_hex_pair_upper [simp]:
  "from_hex_pair (hex_digit_upper (ord_of c div 16)) (hex_digit_upper (ord_of c mod 16)) = Some c"
  by (simp add: from_hex_pair_def nibbles_less)

fun hex_step :: "string \<Rightarrow> (char \<times> string) option" where
  "hex_step (h # l # r) = map_option (\<lambda>c. (c, r)) (from_hex_pair h l)"
| "hex_step _ = None"

interpretation hex: escape_code "\<lambda>c. [hex_digit (ord_of c div 16), hex_digit (ord_of c mod 16)]" hex_step
  by unfold_locales simp_all

text \<open>The decoder of percent-encoding (RFC 3986).\<close>

fun uri_step :: "string \<Rightarrow> (char \<times> string) option" where
  "uri_step (p # h # l # r) =
     (if p = CHR ''%'' then map_option (\<lambda>c. (c, r)) (from_hex_pair h l) else Some (p, h # l # r))"
| "uri_step (p # r) = (if p = CHR ''%'' then None else Some (p, r))"
| "uri_step [] = None"

lemma uri_step_other: "p \<noteq> CHR ''%'' \<Longrightarrow> uri_step (p # r) = Some (p, r)"
  by (cases r rule: remdups_adj.cases) auto

lemma not_percent: "unreserved c \<Longrightarrow> c \<noteq> CHR ''%''"
  by (auto simp: unreserved_def is_digit_def)

interpretation uri: escape_code "uri_encode_char e" uri_step for e
  by unfold_locales (auto simp: uri_encode_char_def uri_step_other dest: not_percent)

definition uri_decode :: "string \<Rightarrow> string option" where
  "uri_decode s = uri.dec_all (length s) s"

lemma length_concat_map_ge: "(\<And>c. f c \<noteq> []) \<Longrightarrow> length s \<le> length (concat (map f s))"
proof (induction s)
  case (Cons c s)
  then have "1 \<le> length (f c)" by (cases "f c") auto
  with Cons show ?case by simp
qed simp

lemma hex_upper_unreserved:
  assumes "n < 16"
  shows "unreserved (hex_digit_upper n)"
proof (cases "n < 10")
  case True
  then have "is_digit (hex_digit_upper n)" by (simp add: hex_digit_upper_def is_digit_chr_of)
  then show ?thesis unfolding unreserved_def by blast
next
  case False
  with assms have "ord_of (hex_digit_upper n) = 55 + n" by (simp add: hex_digit_upper_def)
  with assms False show ?thesis unfolding unreserved_def by simp
qed

lemma uri_encode_char_alphabet:
  "d \<in> set (uri_encode_char e c) \<Longrightarrow> unreserved d \<or> d = CHR ''%'' \<or> (d = CHR ''/'' \<and> \<not> e)"
  using hex_upper_unreserved [OF nibbles_less(1), of c] hex_upper_unreserved [OF nibbles_less(2), of c]
  by (auto simp: uri_encode_char_def split: if_splits)

text \<open>
  \<open>uri_encode\<close> is lossless (percent-decoding its result returns the input), and the
  result holds only characters that SigV4 leaves alone: unreserved ones, the percent sign, and
  the slash when slashes are kept.
\<close>

theorem uri_encode_roundtrip:
  "uri_decode (uri_encode s encode_slash) = Some s \<and>
   set (uri_encode s encode_slash) \<subseteq>
     {c. unreserved c \<or> c = CHR ''%'' \<or> (c = CHR ''/'' \<and> \<not> encode_slash)}"
proof
  have "length s \<le> length (uri_encode s encode_slash)"
    unfolding uri_encode_def by (rule length_concat_map_ge) (rule uri.enc_nonempty)
  then show "uri_decode (uri_encode s encode_slash) = Some s"
    unfolding uri_decode_def uri_encode_def by (rule uri.dec_all_enc)
  show "set (uri_encode s encode_slash) \<subseteq>
     {c. unreserved c \<or> c = CHR ''%'' \<or> (c = CHR ''/'' \<and> \<not> encode_slash)}"
    by (auto simp: uri_encode_def dest: uri_encode_char_alphabet)
qed

lemma to_hex_inj: "to_hex s = to_hex t \<Longrightarrow> s = t"
  unfolding to_hex_def by (rule hex.enc_inj)

lemma length_to_hex [simp]: "length (to_hex s) = 2 * length s"
  by (induction s) (simp_all add: to_hex_def)

subsection \<open>Splitting, joining, trimming, clipping\<close>

lemma split_Nil: "split [] c = [[]]"
  by (subst split.simps) simp

lemma split_no_sep: "c \<notin> set s \<Longrightarrow> split s c = [s]"
  by (subst split.simps) (simp add: find_sub_singleton_None [THEN iffD2])

lemma split_sep: "c \<notin> set s \<Longrightarrow> split (s @ c # t) c = s # split t c"
  by (subst split.simps) (simp add: find_sub_singleton_append)

lemma split_not_Nil [simp]: "split s c \<noteq> []"
  by (subst split.simps) (simp split: option.split)

lemma split_pieces: "p \<in> set (split s c) \<Longrightarrow> c \<notin> set p"
proof (induction s c rule: split.induct)
  case (1 s c)
  show ?case
  proof (cases "find_sub [c] s")
    case None
    with "1.prems" show ?thesis by (simp add: split.simps [of s] find_sub_singleton_None)
  next
    case (Some i)
    with "1.prems" have "p = take i s \<or> p \<in> set (split (drop (i + 1) s) c)"
      by (simp add: split.simps [of s])
    with "1.IH" [OF Some] find_sub_singleton_Some [OF Some] show ?thesis by blast
  qed
qed

lemma join_Cons: "ps \<noteq> [] \<Longrightarrow> join (p # ps) sep = p @ sep @ join ps sep"
  by (cases ps) simp_all

lemma join_split: "join (split s c) [c] = s"
proof (induction s c rule: split.induct)
  case (1 s c)
  show ?case
  proof (cases "find_sub [c] s")
    case None
    then show ?thesis by (simp add: split.simps [of s])
  next
    case (Some i)
    with "1.IH" have "join (split (drop (i + 1) s) c) [c] = drop (i + 1) s" by blast
    moreover have "take i s @ [c] @ drop (i + 1) s = s" using find_sub_split [OF Some] by simp
    ultimately show ?thesis using Some by (simp add: split.simps [of s] join_Cons)
  qed
qed

lemma split_join:
  "ps \<noteq> [] \<Longrightarrow> c \<notin> \<Union> (set ` set ps) \<Longrightarrow> split (join ps [c]) c = ps"
proof (induction ps)
  case (Cons p ps)
  show ?case
  proof (cases "ps = []")
    case True
    with Cons.prems show ?thesis by (simp add: split_no_sep)
  next
    case False
    with Cons show ?thesis by (simp add: join_Cons split_sep)
  qed
qed simp

text \<open>
  \<open>split\<close> cuts a string exactly at the separators: it returns at least one piece,
  no piece holds the separator, and joining the pieces with the separator gives the string back.
\<close>

theorem split_correct:
  "split s c \<noteq> [] \<and> c \<notin> \<Union> (set ` set (split s c)) \<and> join (split s c) [c] = s"
  using join_split [of s c] split_pieces [of _ s c] by auto

lemma length_clip_le [simp]: "length (clip s n suffix) \<le> n"
  by (simp add: clip_def)

lemma clip_id: "length s \<le> n \<Longrightarrow> clip s n suffix = s"
  by (simp add: clip_def)

lemma trim_Nil [simp]: "trim [] = []"
  by (simp add: trim_def)

lemma set_trim: "set (trim s) \<subseteq> set s"
  by (auto simp: trim_def dest!: set_dropWhileD)

lemma trim_ends:
  assumes "trim s \<noteq> []"
  shows "\<not> is_trimmed (hd (trim s))" and "\<not> is_trimmed (last (trim s))"
proof -
  let ?d = "dropWhile is_trimmed s"
  let ?e = "dropWhile is_trimmed (rev ?d)"
  have e: "?e \<noteq> []" using assms by (simp add: trim_def)
  then show "\<not> is_trimmed (last (trim s))"
    using hd_dropWhile [of is_trimmed "rev ?d"] by (simp add: trim_def last_rev)
  have "rev ?d = takeWhile is_trimmed (rev ?d) @ ?e" by simp
  then have d: "?d = rev ?e @ rev (takeWhile is_trimmed (rev ?d))"
    by (metis rev_append rev_rev_ident)
  then have "hd ?d = hd (rev ?e)" using e by (metis hd_append2 rev_is_Nil_conv)
  moreover from d e have "?d \<noteq> []" by (metis append_is_Nil_conv rev_is_Nil_conv)
  ultimately show "\<not> is_trimmed (hd (trim s))"
    using hd_dropWhile [of is_trimmed s] by (simp add: trim_def)
qed

lemma trim_id:
  assumes "s \<noteq> []" "\<not> is_trimmed (hd s)" "\<not> is_trimmed (last s)"
  shows "trim s = s"
proof -
  have "dropWhile is_trimmed s = s" using assms(1,2) by (cases s) auto
  moreover have "dropWhile is_trimmed (rev s) = rev s"
    using assms(1,3) by (cases "rev s") (auto simp: last_rev [symmetric] hd_rev)
  ultimately show ?thesis by (simp add: trim_def)
qed

lemma trim_idem [simp]: "trim (trim s) = trim s"
  using trim_ends [of s] trim_id [of "trim s"] by (cases "trim s = []") auto

subsection \<open>Counting days\<close>

text \<open>
  \<open>days_from_civil\<close> counts from 1 March in unsigned 32-bit words; for a valid date it
  agrees with the calendar.
\<close>

lemma era_floor: "(if 0 \<le> y then y else y - 399) sdiv 400 = (y::int) div 400"
proof (cases "0 \<le> y")
  case True
  then show ?thesis by (simp add: signed_divide_int_def sgn_if)
next
  case False
  define q r where "q = y div 400" and "r = y mod 400"
  have y: "y = 400 * q + r" and r: "0 \<le> r" "r < 400" by (simp_all add: q_def r_def)
  have "399 - y = 400 * (- q) + (399 - r)" by (simp add: y)
  then have "(399 - y) div 400 = - q" using r by (simp add: div_mult_self4 div_pos_pos_trivial)
  moreover have "\<bar>y - 399\<bar> = 399 - y" using False by simp
  ultimately show ?thesis using False by (simp add: signed_divide_int_def q_def)
qed

text \<open>Day of the year counted from 1 March, per month.\<close>

definition march_days :: "nat \<Rightarrow> int" where
  "march_days m = [306, 337, 0, 31, 61, 92, 122, 153, 184, 214, 245, 275] ! (m - 1)"

lemma months_cases:
  assumes "1 \<le> m" "m \<le> (12::nat)"
  obtains "m = 1" | "m = 2" | "m = 3" | "m = 4" | "m = 5" | "m = 6" | "m = 7" | "m = 8"
    | "m = 9" | "m = 10" | "m = 11" | "m = 12"
proof -
  have "m \<in> set [1..<13]" using assms by simp
  then have "m \<in> {1, 2, 3, 4, 5, 6, 7, 8, 9, 10, 11, 12}" by (simp add: upt_rec numeral_eq_Suc)
  then show thesis using that by blast
qed

lemma doy_word:
  assumes "1 \<le> m" "m \<le> 12"
  shows "(153 * (of_nat m + (if 2 < (of_nat m :: u32) then - 3 else 9)) + 2) div 5 =
    (of_int (march_days m) :: u32)"
  by (rule months_cases [OF assms]) (simp_all add: march_days_def)

lemma doe_word:
  fixes yoe doy :: int
  assumes "0 \<le> yoe" "yoe < 400" "0 \<le> doy" "doy < 1000"
  shows "uint ((of_int yoe :: u32) * 365 + of_int yoe div 4 - of_int yoe div 100 + of_int doy) =
    yoe * 365 + yoe div 4 - yoe div 100 + doy"
proof -
  have y: "uint (of_int yoe :: u32) = yoe" using assms by (simp add: uint_word_of_int_eq take_bit_int_eq_self)
  have d: "(of_int yoe :: u32) div 4 = of_int (yoe div 4)" "(of_int yoe :: u32) div 100 = of_int (yoe div 100)"
    by (simp_all add: word_div_def y)
  have "(of_int yoe :: u32) * 365 + of_int yoe div 4 - of_int yoe div 100 + of_int doy =
      of_int (yoe * 365 + yoe div 4 - yoe div 100 + doy)"
    unfolding d by simp
  moreover have "0 \<le> yoe div 4" "yoe div 100 \<le> yoe" "yoe div 4 \<le> yoe" "0 \<le> yoe div 100"
    using assms zdiv_mono2 [of yoe 1 4] zdiv_mono2 [of yoe 1 100] by (simp_all add: pos_imp_zdiv_nonneg_iff)
  then have "0 \<le> yoe * 365 + yoe div 4 - yoe div 100 + doy" "yoe * 365 + yoe div 4 - yoe div 100 + doy < 2 ^ 32"
    using assms by simp_all
  ultimately show ?thesis by (simp only: uint_word_of_int_eq) (simp add: take_bit_int_eq_self)
qed

lemma march_year_days:
  fixes y :: int
  shows "y div 400 * 146097 + (y mod 400 * 365 + y mod 400 div 4 - y mod 400 div 100) =
    days_to_year (y + 1) - 366"
proof -
  define e r where "e = y div 400" and "r = y mod 400"
  have y: "y = 400 * e + r" and r: "0 \<le> r" "r < 400" by (simp_all add: e_def r_def)
  have "y + 4 = 4 * (100 * e + 1) + r" and "y + 100 = 100 * (4 * e + 1) + r"
    and "y + 400 = 400 * (e + 1) + r" by (simp_all add: y)
  then have d: "(y + 4) div 4 = 100 * e + 1 + r div 4" "(y + 100) div 100 = 4 * e + 1 + r div 100"
    "(y + 400) div 400 = e + 1 + r div 400"
    by (simp_all only: div_mult_self4 zero_neq_numeral [symmetric] not_False_eq_True)
  have "y + 1 + 3 = y + 4" "y + 1 + 99 = y + 100" "y + 1 + 399 = y + 400" by simp_all
  then have "days_to_year (y + 1) = 365 * (y + 1) + (y + 4) div 4 - (y + 100) div 100 + (y + 400) div 400"
    by (simp only: days_to_year_def)
  also have "\<dots> = 365 * (y + 1) + (100 * e + 1 + r div 4) - (4 * e + 1 + r div 100) + (e + 1 + r div 400)"
    by (simp only: d)
  also have "r div 400 = 0" using r by simp
  finally show ?thesis unfolding e_def [symmetric] r_def [symmetric] by (simp add: y)
qed

lemma days_from_civil_correct:
  assumes "valid_date y m d"
  shows "days_from_civil y (of_nat m) (of_nat d) = day_number y m d"
proof -
  have m: "1 \<le> m" "m \<le> 12" using assms by (simp_all add: valid_date_def)
  have d: "1 \<le> d" "d \<le> 31"
  proof -
    show "1 \<le> d" using assms by (simp add: valid_date_def)
    have "days_to_month y (m + 1) \<le> days_to_month y m + 31"
      by (rule months_cases [OF m]) (simp_all add: days_to_month_def)
    then show "d \<le> 31" using assms by (simp add: valid_date_def)
  qed
  have le: "((of_nat m :: u32) \<le> 2) = (m \<le> 2)"
    by (rule months_cases [OF m]) simp_all
  define y' where "y' = (if m \<le> 2 then y - 1 else y)"
  have doy: "(153 * (of_nat m + (if 2 < (of_nat m :: u32) then - 3 else 9)) + 2) div 5 + of_nat d - 1 =
      (of_int (march_days m + int d - 1) :: u32)"
    unfolding doy_word [OF m] by simp
  have range: "0 \<le> march_days m + int d - 1" "march_days m + int d - 1 < 1000"
    using d by (rule_tac months_cases [OF m]; simp add: march_days_def)+
  have yoe: "y' - y' div 400 * 400 = y' mod 400" by (simp add: minus_div_mult_eq_mod)
  have "days_from_civil y (of_nat m) (of_nat d) =
      y' div 400 * 146097 + (y' mod 400 * 365 + y' mod 400 div 4 - y' mod 400 div 100 +
      (march_days m + int d - 1)) - 719468"
    unfolding days_from_civil_def Let_def le y'_def [symmetric] era_floor doy yoe
    by (subst doe_word) (use range in simp_all)
  also have "\<dots> = days_to_year (y' + 1) - 366 + (march_days m + int d - 1) - 719468"
    using march_year_days [of y'] by simp
  also have "\<dots> = day_number y m d"
  proof (cases "m \<le> 2")
    case True
    then have "y' + 1 = y" by (simp add: y'_def)
    moreover have "march_days m = int (days_to_month y m) + 306"
      using True m by (rule_tac months_cases [OF m]; simp add: march_days_def days_to_month_def)
    ultimately show ?thesis by (simp add: day_number_def)
  next
    case False
    then have "y' = y" by (simp add: y'_def)
    moreover have "march_days m + 59 + (if leap_year y then 1 else 0) = int (days_to_month y m)"
      using False m by (rule_tac months_cases [OF m]; simp add: march_days_def days_to_month_def)
    ultimately show ?thesis
      by (cases "leap_year y") (simp_all add: day_number_def days_to_year_Suc)
  qed
  finally show ?thesis .
qed

subsection \<open>Printed time stamps parse back\<close>

lemma gmtime_ranges:
  assumes "0 \<le> t" "t < 253402300800"
  shows "0 \<le> tm_year (gmtime t)" "tm_year (gmtime t) < 10 ^ 4" "tm_mon (gmtime t) < 10 ^ 2"
    "tm_mday (gmtime t) < 10 ^ 2" "tm_hour (gmtime t) < 10 ^ 2" "tm_min (gmtime t) < 10 ^ 2"
    "tm_sec (gmtime t) < 10 ^ 2"
proof -
  let ?g = "gmtime t"
  show "0 \<le> tm_year ?g" "tm_year ?g < 10 ^ 4"
    using gmtime_year_range [OF assms] by simp_all
  have v: "1 \<le> tm_mon ?g" "tm_mon ?g \<le> 12"
    "days_to_month (tm_year ?g) (tm_mon ?g) + tm_mday ?g \<le> days_to_month (tm_year ?g) (tm_mon ?g + 1)"
    using gmtime_spec(1) [of t] by (simp_all add: valid_date_def)
  then show "tm_mon ?g < 10 ^ 2" by simp
  have "days_to_month y (m + 1) \<le> days_to_month y m + 31" if "1 \<le> m" "m \<le> 12" for y m
    by (rule months_cases [OF that]) (simp_all add: days_to_month_def)
  from this [OF v(1,2), of "tm_year ?g"] v(3) show "tm_mday ?g < 10 ^ 2" by simp
  show "tm_hour ?g < 10 ^ 2" "tm_min ?g < 10 ^ 2" "tm_sec ?g < 10 ^ 2"
    using gmtime_spec(2-4) [of t] by simp_all
qed

lemma fmt_0d_no_NUL: "0 \<le> i \<Longrightarrow> CHR 0x00 \<notin> set (fmt_0d w i)"
  using fmt_0d_digits by (fastforce simp: is_digit_def)

text \<open>A run of digits ends at the first character that is not one.\<close>

lemma scan_d_stop:
  assumes "0 \<le> i" "i < 10 ^ k" "0 < k" "k \<le> w" "r = [] \<or> \<not> is_digit (hd r)"
  shows "scan_d w (fmt_0d k i @ r) = Some (i, r)"
proof -
  let ?f = "fmt_0d k i"
  have len: "length ?f = k" by (rule length_fmt_0d [OF assms(1-3)])
  have digits: "\<forall>d \<in> set ?f. is_digit d" using fmt_0d_digits assms(1) by blast
  obtain c t where ct: "?f = c # t" by (cases ?f) auto
  with digits have c: "is_digit c" by simp
  have "dropWhile is_space (?f @ r) = ?f @ r" using ct c by (simp add: digit_not_space)
  moreover have "take w (?f @ r) = ?f @ take (w - k) r" using len assms(4) by simp
  moreover have "take_sign (?f @ take (w - k) r) = (False, ?f @ take (w - k) r)"
    using ct c by (auto simp: is_digit_def)
  moreover have "takeWhile is_digit (?f @ take (w - k) r) = ?f"
  proof -
    have "takeWhile is_digit (take (w - k) r) = []"
      using assms(5) by (cases r; cases "w - k") auto
    then show ?thesis using digits by (subst takeWhile_append2) auto
  qed
  moreover have "drop (length (?f @ take (w - k) r) - length (?f @ take (w - k) r) + length ?f) (?f @ r) = r"
    by simp
  ultimately show ?thesis
    using assms(1)
    by (simp only: scan_d_def Let_def prod.case if_False fmt_0d_not_Nil digits_val_fmt_0d) simp
qed

lemma days_from_civil_gmtime:
  "days_from_civil (tm_year (gmtime t)) (of_nat (tm_mon (gmtime t))) (of_nat (tm_mday (gmtime t))) * 86400 +
   int (tm_hour (gmtime t)) * 3600 + int (tm_min (gmtime t)) * 60 + int (tm_sec (gmtime t)) = t"
  unfolding days_from_civil_correct [OF gmtime_spec(1)] by (rule gmtime_spec(5))

lemma parse_iso8601_fields:
  assumes "0 \<le> t" "t < 253402300800"
  defines "g \<equiv> gmtime t"
  shows "parse_iso8601 (fmt_0d 4 (tm_year g) @ ''-'' @ fmt_0d 2 (int (tm_mon g)) @ ''-'' @
         fmt_0d 2 (int (tm_mday g)) @ ''T'' @ fmt_0d 2 (int (tm_hour g)) @ '':'' @
         fmt_0d 2 (int (tm_min g)) @ '':'' @ fmt_0d 2 (int (tm_sec g)) @ r) = t"
proof -
  note range = gmtime_ranges [OF assms(1,2), folded g_def]
  let ?a = "fmt_0d 4 (tm_year g) @ ''-'' @ fmt_0d 2 (int (tm_mon g)) @ ''-'' @
         fmt_0d 2 (int (tm_mday g)) @ ''T'' @ fmt_0d 2 (int (tm_hour g)) @ '':'' @
         fmt_0d 2 (int (tm_min g)) @ '':'' @ fmt_0d 2 (int (tm_sec g))"
  have "CHR 0x00 \<notin> set ?a" using range(1) by (simp add: fmt_0d_no_NUL)
  then have "cstr (?a @ r) = ?a @ cstr r" unfolding cstr_def by (subst takeWhile_append2) auto
  then have c: "cstr (fmt_0d 4 (tm_year g) @ ''-'' @ fmt_0d 2 (int (tm_mon g)) @ ''-'' @
         fmt_0d 2 (int (tm_mday g)) @ ''T'' @ fmt_0d 2 (int (tm_hour g)) @ '':'' @
         fmt_0d 2 (int (tm_min g)) @ '':'' @ fmt_0d 2 (int (tm_sec g)) @ r) =
       fmt_0d 4 (tm_year g) @ ''-'' @ fmt_0d 2 (int (tm_mon g)) @ ''-'' @
         fmt_0d 2 (int (tm_mday g)) @ ''T'' @ fmt_0d 2 (int (tm_hour g)) @ '':'' @
         fmt_0d 2 (int (tm_min g)) @ '':'' @ fmt_0d 2 (int (tm_sec g)) @ cstr r"
    by simp
  have two: "scan_d 2 (fmt_0d 2 (int n) @ u) = Some (int n, u)" if "n < 10 ^ 2" for n u
    by (rule scan_d_fixed) (use that in simp_all)
  have four: "scan_d 4 (fmt_0d 4 (tm_year g) @ u) = Some (tm_year g, u)" for u
    by (rule scan_d_fixed) (use range in simp_all)
  have "parse_iso8601 (fmt_0d 4 (tm_year g) @ ''-'' @ fmt_0d 2 (int (tm_mon g)) @ ''-'' @
         fmt_0d 2 (int (tm_mday g)) @ ''T'' @ fmt_0d 2 (int (tm_hour g)) @ '':'' @
         fmt_0d 2 (int (tm_min g)) @ '':'' @ fmt_0d 2 (int (tm_sec g)) @ r) =
     days_from_civil (tm_year g) (of_int (int (tm_mon g))) (of_int (int (tm_mday g))) * 86400 +
     int (tm_hour g) * 3600 + int (tm_min g) * 60 + int (tm_sec g)"
    unfolding parse_iso8601_def c
    by (simp add: four two [OF range(3)] two [OF range(4)] two [OF range(5)] two [OF range(6)]
        two [OF range(7)])
  also have "\<dots> = t" unfolding of_int_of_nat_eq g_def by (rule days_from_civil_gmtime)
  finally show ?thesis .
qed

text \<open>
  Every time stamp of the years 1970 to 9999 survives printing and parsing: the
  \<open>CaptureTime\<close> format and the millisecond reply format both parse back to the second
  they print (\<open>parse_iso8601\<close> reads credential expiries in this format).
\<close>

theorem iso8601_roundtrip:
  assumes "0 \<le> t" and "t < 253402300800"
  shows "parse_iso8601 (iso8601_seconds t) = t \<and>
         (0 \<le> ms \<and> ms < 1000 \<longrightarrow> parse_iso8601 (iso8601 (1000 * t + ms)) = t)"
proof (intro conjI impI)
  show "parse_iso8601 (iso8601_seconds t) = t"
    unfolding iso8601_seconds_def Let_def by (rule parse_iso8601_fields [OF assms])
  assume "0 \<le> ms \<and> ms < 1000"
  then have "(1000 * t + ms) sdiv 1000 = t"
    using assms by (simp add: signed_divide_int_def sgn_if)
  then show "parse_iso8601 (iso8601 (1000 * t + ms)) = t"
    unfolding iso8601_def Let_def using parse_iso8601_fields [OF assms] by simp
qed

theorem iso8601_roundtrip_witness:
  "parse_iso8601 (iso8601_seconds 1787229296) = 1787229296 \<and>
   parse_iso8601 (iso8601 1787229296789) = 1787229296"
  using iso8601_roundtrip [of 1787229296 789] by simp

end
