(* ===== verification/Json.thy ===== *)
theory Json
  imports Double Util
begin

text \<open>
  The JSON reader and writer of \<open>src/src/json.cpp\<close>. A \<open>json::Value\<close> is a
  \<open>json\<close>; objects are \<open>std::map\<close>s, so their members are kept sorted by key. The
  parser is a recursive descent over the unread suffix of the text; an error carries the message
  and the number of bytes left, from which the offset in the message is computed.

  The lemmas show that the parser terminates on every input with the fuel \<open>json_parse\<close>
  gives it, that strings survive escaping whatever their bytes, and that a value whose numbers
  are integers below \<open>10^15\<close> is read back unchanged from its text.
\<close>

subsection \<open>Values and accessors\<close>

datatype json =
    VNull
  | VBool bool
  | VNumber double bool
  | VString string
  | VObj "(string \<times> json) list"
  | VArr "json list"

definition find_key :: "json \<Rightarrow> string \<Rightarrow> json option" where
  "find_key v key = (case v of VObj m \<Rightarrow> map_of m key | _ \<Rightarrow> None)"

definition str_or :: "json \<Rightarrow> string \<Rightarrow> string" where
  "str_or v fallback = (case v of VString s \<Rightarrow> s | _ \<Rightarrow> fallback)"

definition num_or :: "json \<Rightarrow> double \<Rightarrow> double" where
  "num_or v fallback =
     (case v of
        VNumber d _ \<Rightarrow> d
      | VString s \<Rightarrow>
          (if s \<noteq> [] then let (d, rest) = strtod (cstr s) in if rest = [] then d else fallback
           else fallback)
      | _ \<Rightarrow> fallback)"

definition bl_or :: "json \<Rightarrow> bool \<Rightarrow> bool" where
  "bl_or v fallback =
     (case v of
        VBool b \<Rightarrow> b
      | VString s \<Rightarrow> (if s = ''true'' then True else if s = ''false'' then False else fallback)
      | _ \<Rightarrow> fallback)"

definition str_at :: "json \<Rightarrow> string \<Rightarrow> string \<Rightarrow> string" where
  "str_at v key fallback =
     (case find_key v key of Some w \<Rightarrow> str_or w fallback | None \<Rightarrow> fallback)"

definition num_at :: "json \<Rightarrow> string \<Rightarrow> double \<Rightarrow> double" where
  "num_at v key fallback =
     (case find_key v key of Some w \<Rightarrow> num_or w fallback | None \<Rightarrow> fallback)"

text \<open>\<open>str_at(key)\<close> with its default argument, and the constructor \<open>num(n)\<close>.\<close>

abbreviation str_of :: "json \<Rightarrow> string \<Rightarrow> string" where
  "str_of v key \<equiv> str_at v key []"

definition num_int :: "int \<Rightarrow> json" where
  "num_int n = VNumber (double_of_int n) True"

definition is_obj :: "json \<Rightarrow> bool" where
  "is_obj v = (case v of VObj _ \<Rightarrow> True | _ \<Rightarrow> False)"

definition is_arr :: "json \<Rightarrow> bool" where
  "is_arr v = (case v of VArr _ \<Rightarrow> True | _ \<Rightarrow> False)"

definition arr_of :: "json \<Rightarrow> json list" where
  "arr_of v = (case v of VArr vs \<Rightarrow> vs | _ \<Rightarrow> [])"

text \<open>Building an object: \<open>v.object[k] = w\<close> for each pair in turn.\<close>

definition mk_obj :: "(string \<times> json) list \<Rightarrow> json" where
  "mk_obj kvs = VObj (fold (\<lambda>(k, w). smap_put k w) kvs [])"

subsection \<open>The parser\<close>

datatype perr = PErr string nat | POut

type_synonym 'a pres = "perr + 'a \<times> string"

definition quoted :: "string \<Rightarrow> string" where
  "quoted s = CHR 0x27 # s @ [CHR 0x27]"

definition is_ws :: "char \<Rightarrow> bool" where
  "is_ws c \<longleftrightarrow> c \<in> {CHR '' '', CHR 0x09, CHR 0x0A, CHR 0x0D}"

definition ws :: "string \<Rightarrow> string" where
  "ws s = dropWhile is_ws s"

definition next_is :: "char \<Rightarrow> string \<Rightarrow> bool" where
  "next_is c s \<longleftrightarrow> s \<noteq> [] \<and> hd s = c"

text \<open>One code point as UTF-8; \<open>static_cast<char>\<close> keeps the low byte.\<close>

definition utf8 :: "u32 \<Rightarrow> string" where
  "utf8 cp =
     (if cp < 0x80 then [char_of_byte cp]
      else if cp < 0x800 then
        [char_of_byte (0xC0 OR drop_bit 6 cp), char_of_byte (0x80 OR (cp AND 0x3F))]
      else if cp < 0x10000 then
        [char_of_byte (0xE0 OR drop_bit 12 cp), char_of_byte (0x80 OR (drop_bit 6 cp AND 0x3F)),
         char_of_byte (0x80 OR (cp AND 0x3F))]
      else
        [char_of_byte (0xF0 OR drop_bit 18 cp), char_of_byte (0x80 OR (drop_bit 12 cp AND 0x3F)),
         char_of_byte (0x80 OR (drop_bit 6 cp AND 0x3F)), char_of_byte (0x80 OR (cp AND 0x3F))])"

fun hex4_loop :: "nat \<Rightarrow> u32 \<Rightarrow> string \<Rightarrow> perr + u32" where
  "hex4_loop (Suc n) out (c # r) =
     (case hex_val c of
        Some d \<Rightarrow> hex4_loop n (push_bit 4 out OR of_nat d) r
      | None \<Rightarrow> Inl (PErr (''bad hex digit in '' @ [CHR 0x5C] @ ''u escape'') (length r)))"
| "hex4_loop _ out _ = Inr out"

definition hex4 :: "string \<Rightarrow> perr + u32" where
  "hex4 s =
     (if length s < 4 then Inl (PErr (''truncated '' @ [CHR 0x5C] @ ''u escape'') (length s))
      else hex4_loop 4 0 s)"

definition simple_escape :: "char \<Rightarrow> char option" where
  "simple_escape e =
     (if e = CHR 0x22 then Some (CHR 0x22)
      else if e = CHR 0x5C then Some (CHR 0x5C)
      else if e = CHR ''/'' then Some (CHR ''/'')
      else if e = CHR ''b'' then Some (CHR 0x08)
      else if e = CHR ''f'' then Some (CHR 0x0C)
      else if e = CHR ''n'' then Some (CHR 0x0A)
      else if e = CHR ''r'' then Some (CHR 0x0D)
      else if e = CHR ''t'' then Some (CHR 0x09)
      else None)"

fun prepend :: "string \<Rightarrow> string pres \<Rightarrow> string pres" where
  "prepend x (Inr (s, r)) = Inr (x @ s, r)"
| "prepend x (Inl e) = Inl e"

text \<open>
  One escape sequence, after its backslash. A high surrogate followed by another escape of a
  code unit consumes both; when the second is no low surrogate, both are emitted, the second
  one first.
\<close>

definition p_escape :: "string \<Rightarrow> string pres" where
  "p_escape r =
     (case r of
        [] \<Rightarrow> Inl (PErr ''unterminated escape'' 0)
      | e # r1 \<Rightarrow>
          (case simple_escape e of
             Some x \<Rightarrow> Inr ([x], r1)
           | None \<Rightarrow>
               if e \<noteq> CHR ''u'' then Inl (PErr ''unknown escape'' (length r1))
               else case hex4 r1 of
                 Inl er \<Rightarrow> Inl er
               | Inr cp \<Rightarrow>
                   let r2 = drop 4 r1
                   in if 0xD800 \<le> cp \<and> cp \<le> 0xDBFF \<and> take 2 r2 = [CHR 0x5C, CHR ''u'']
                      then case hex4 (drop 2 r2) of
                             Inl er \<Rightarrow> Inl er
                           | Inr lo \<Rightarrow>
                               if 0xDC00 \<le> lo \<and> lo \<le> 0xDFFF
                               then Inr (utf8 (0x10000 + push_bit 10 (cp - 0xD800) + (lo - 0xDC00)),
                                         drop 6 r2)
                               else Inr (utf8 lo @ utf8 cp, drop 6 r2)
                      else Inr (utf8 cp, r2)))"

lemma p_escape_shrinks: "p_escape r = Inr (x, r') \<Longrightarrow> length r' < length r"
  by (cases r) (auto simp: p_escape_def Let_def split: option.splits if_splits sum.splits)

text \<open>The loop of \<open>string_\<close>, after the opening quote.\<close>

function (sequential) p_chars :: "string \<Rightarrow> string pres" where
  "p_chars [] = Inl (PErr ''unterminated string'' 0)"
| "p_chars (c # r) =
     (if c = CHR 0x22 then Inr ([], r)
      else if c \<noteq> CHR 0x5C then prepend [c] (p_chars r)
      else case p_escape r of
        Inl e \<Rightarrow> Inl e
      | Inr (x, r') \<Rightarrow> prepend x (p_chars r'))"
  by pat_completeness auto
termination
  by (relation "measure length") (auto dest: p_escape_shrinks)

definition p_string :: "string \<Rightarrow> string pres" where
  "p_string s =
     (if next_is CHR 0x22 s then p_chars (tl s) else Inl (PErr ''expected string'' (length s)))"

definition drop_sign :: "string \<Rightarrow> string" where
  "drop_sign s = (if next_is CHR ''-'' s \<or> next_is CHR ''+'' s then tl s else s)"

definition p_number :: "string \<Rightarrow> json pres" where
  "p_number s =
     (let r0 = drop_sign s;
          any = takeWhile is_digit r0 \<noteq> [];
          r1 = dropWhile is_digit r0;
          dot = next_is CHR ''.'' r1;
          r2 = (if dot then dropWhile is_digit (tl r1) else r1);
          ex = next_is CHR ''e'' r2 \<or> next_is CHR ''E'' r2;
          r3 = (if ex then dropWhile is_digit (drop_sign (tl r2)) else r2)
      in if \<not> any then Inl (PErr ''invalid value'' (length r3))
         else Inr (VNumber (fst (strtod (take (length s - length r3) s))) (\<not> dot \<and> \<not> ex), r3))"

fun p_value :: "nat \<Rightarrow> string \<Rightarrow> json pres"
  and p_members :: "nat \<Rightarrow> (string \<times> json) list \<Rightarrow> string \<Rightarrow> json pres"
  and p_elems :: "nat \<Rightarrow> json list \<Rightarrow> string \<Rightarrow> json pres" where
  "p_value 0 s0 = Inl POut"
| "p_value (Suc n) s0 =
     (let s = ws s0
      in if s = [] then Inl (PErr ''unexpected end of input'' 0)
         else if next_is CHR ''{'' s
         then let r = ws (tl s)
              in if next_is CHR ''}'' r then Inr (VObj [], tl r) else p_members n [] r
         else if next_is CHR ''['' s
         then let r = ws (tl s)
              in if next_is CHR '']'' r then Inr (VArr [], tl r) else p_elems n [] r
         else if next_is CHR 0x22 s
         then case p_string s of Inl e \<Rightarrow> Inl e | Inr (t, r) \<Rightarrow> Inr (VString t, r)
         else if take 4 s = ''true'' then Inr (VBool True, drop 4 s)
         else if take 5 s = ''false'' then Inr (VBool False, drop 5 s)
         else if take 4 s = ''null'' then Inr (VNull, drop 4 s)
         else p_number s)"
| "p_members 0 m s0 = Inl POut"
| "p_members (Suc n) m s0 =
     (case p_string (ws s0) of
        Inl e \<Rightarrow> Inl e
      | Inr (key, r0) \<Rightarrow>
          let r = ws r0
          in if \<not> next_is CHR '':'' r then Inl (PErr (''expected '' @ quoted '':'') (length r))
             else case p_value n (tl r) of
               Inl e \<Rightarrow> Inl e
             | Inr (v, r1) \<Rightarrow>
                 let m' = smap_put key v m; r2 = ws r1
                 in if next_is CHR '','' r2 then p_members n m' (tl r2)
                    else if next_is CHR ''}'' r2 then Inr (VObj m', tl r2)
                    else Inl (PErr (''expected '' @ quoted '','' @ '' or '' @ quoted ''}'') (length r2)))"
| "p_elems 0 vs s0 = Inl POut"
| "p_elems (Suc n) vs s0 =
     (case p_value n s0 of
        Inl e \<Rightarrow> Inl e
      | Inr (v, r1) \<Rightarrow>
          let vs' = vs @ [v]; r2 = ws r1
          in if next_is CHR '','' r2 then p_elems n vs' (tl r2)
             else if next_is CHR '']'' r2 then Inr (VArr vs', tl r2)
             else Inl (PErr (''expected '' @ quoted '','' @ '' or '' @ quoted '']'') (length r2)))"

text \<open>
  The recursion of \<open>value\<close> consumes a byte at least every second call, so this fuel is
  enough (\<open>p_value_fuel\<close> below). A failure is the error text; the value is then Null.
\<close>

definition json_parse :: "string \<Rightarrow> string + json" where
  "json_parse text =
     (case p_value (2 * length text + 1) text of
        Inl (PErr msg left) \<Rightarrow> Inl (msg @ '' at offset '' @ show_nat (length text - left))
      | Inl POut \<Rightarrow> Inl []
      | Inr (v, r) \<Rightarrow>
          if ws r = [] then Inr v else Inl ''trailing data after JSON value'')"

text \<open>What a caller holds after \<open>parse(text, &err)\<close>: the value and the error text.\<close>

definition parsed :: "string \<Rightarrow> json \<times> string" where
  "parsed text = (case json_parse text of Inl e \<Rightarrow> (VNull, e) | Inr v \<Rightarrow> (v, []))"

subsection \<open>The serializer\<close>

definition escape_char :: "char \<Rightarrow> string" where
  "escape_char c =
     (if c = CHR 0x22 then [CHR 0x5C, CHR 0x22]
      else if c = CHR 0x5C then [CHR 0x5C, CHR 0x5C]
      else if c = CHR 0x08 then [CHR 0x5C, CHR ''b'']
      else if c = CHR 0x0C then [CHR 0x5C, CHR ''f'']
      else if c = CHR 0x0A then [CHR 0x5C, CHR ''n'']
      else if c = CHR 0x0D then [CHR 0x5C, CHR ''r'']
      else if c = CHR 0x09 then [CHR 0x5C, CHR ''t'']
      else if ord_of c < 32
      then [CHR 0x5C, CHR ''u'', CHR ''0'', CHR ''0'',
            hex_digit (ord_of c div 16), hex_digit (ord_of c mod 16)]
      else [c])"

definition json_escape :: "string \<Rightarrow> string" where
  "json_escape s = CHR 0x22 # concat (map escape_char s) @ [CHR 0x22]"

definition dump_number :: "double \<Rightarrow> bool \<Rightarrow> string" where
  "dump_number d integral =
     (if integral \<and> small_integral d then show_int (double_to_int64 d) else fmt_g17 d)"

fun json_dump :: "json \<Rightarrow> string" where
  "json_dump VNull = ''null''"
| "json_dump (VBool b) = (if b then ''true'' else ''false'')"
| "json_dump (VNumber d i) = dump_number d i"
| "json_dump (VString s) = json_escape s"
| "json_dump (VObj m) =
     ''{'' @ join (map (\<lambda>(k, v). json_escape k @ '':'' @ json_dump v) m) '','' @ ''}''"
| "json_dump (VArr vs) = ''['' @ join (map json_dump vs) '','' @ '']''"

subsection \<open>The parser consumes its input and needs only bounded fuel\<close>

lemma length_ws: "length (ws s) \<le> length s"
  by (simp add: ws_def length_dropWhile_le)

lemma length_tl_next_is: "next_is c s \<Longrightarrow> Suc (length (tl s)) = length s"
  by (cases s) (simp_all add: next_is_def)

lemma prepend_Inr:
  "prepend x p = Inr (t, r) \<longleftrightarrow> (\<exists>t'. p = Inr (t', r) \<and> t = x @ t')"
  by (cases p) auto

lemma prepend_Inl [simp]: "prepend x p = Inl e \<longleftrightarrow> p = Inl e"
  by (cases p) auto

lemma hex4_loop_no_POut: "hex4_loop n out s \<noteq> Inl POut"
  by (induction n out s rule: hex4_loop.induct) (simp_all split: option.splits)

lemma hex4_no_POut [simp]: "hex4 s \<noteq> Inl POut"
  by (simp add: hex4_def hex4_loop_no_POut)

lemma p_escape_no_POut [simp]: "p_escape r \<noteq> Inl POut"
proof -
  have "Inl POut \<noteq> hex4 s" for s using hex4_no_POut [of s] by metis
  then show ?thesis
    by (auto simp: p_escape_def Let_def split: list.split option.split sum.split)
qed

lemma p_chars_shrinks: "p_chars s = Inr (t, r) \<Longrightarrow> length r < length s"
proof (induction s arbitrary: t r rule: p_chars.induct)
  case (2 c s)
  show ?case
  proof (cases "c = CHR 0x22 \<or> c \<noteq> CHR 0x5C")
    case True
    with 2 show ?thesis by (auto simp: prepend_Inr split: if_splits)
  next
    case False
    with "2.prems" obtain x s1 where e: "p_escape s = Inr (x, s1)" by (auto split: sum.splits)
    with "2.prems" False obtain t' where "p_chars s1 = Inr (t', r)" by (auto simp: prepend_Inr)
    with "2.IH"(2) False e have "length r < length s1" by blast
    with p_escape_shrinks [OF e] show ?thesis by simp
  qed
qed simp

lemma p_chars_no_POut: "p_chars s \<noteq> Inl POut"
proof (induction s rule: p_chars.induct)
  case (2 c s)
  show ?case
  proof (cases "c = CHR 0x22 \<or> c \<noteq> CHR 0x5C")
    case True
    with 2 show ?thesis by auto
  next
    case False
    with 2 show ?thesis by (cases "p_escape s") auto
  qed
qed simp

lemma p_string_shrinks: "p_string s = Inr (t, r) \<Longrightarrow> length r < length s"
  using p_chars_shrinks [of "tl s" t r] length_tl_next_is
  by (fastforce simp: p_string_def split: if_splits)

lemma p_string_no_POut [simp]: "p_string s \<noteq> Inl POut"
  by (simp add: p_string_def p_chars_no_POut)

lemma length_drop_sign: "length (drop_sign s) \<le> length s"
  by (simp add: drop_sign_def)

lemma p_number_shrinks: "p_number s = Inr (v, r) \<Longrightarrow> length r < length s"
proof -
  assume p: "p_number s = Inr (v, r)"
  define r0 r1 where "r0 = drop_sign s" and "r1 = dropWhile is_digit r0"
  define r2 where "r2 = (if next_is CHR ''.'' r1 then dropWhile is_digit (tl r1) else r1)"
  have any: "takeWhile is_digit r0 \<noteq> []"
    and r: "r = (if next_is CHR ''e'' r2 \<or> next_is CHR ''E'' r2
                 then dropWhile is_digit (drop_sign (tl r2)) else r2)"
    using p by (auto simp: p_number_def Let_def r0_def r1_def r2_def split: if_splits)
  have "length r1 < length r0" using any length_append [of "takeWhile is_digit r0" r1]
    by (simp add: r1_def)
  moreover have "length r2 \<le> length r1"
    using length_dropWhile_le [of is_digit "tl r1"] by (auto simp: r2_def)
  moreover have "length r \<le> length r2"
    using length_dropWhile_le [of is_digit "drop_sign (tl r2)"] length_drop_sign [of "tl r2"]
    by (auto simp: r)
  moreover have "length r0 \<le> length s" by (simp add: r0_def length_drop_sign)
  ultimately show ?thesis by simp
qed

lemma p_number_no_POut [simp]: "p_number s \<noteq> Inl POut"
  by (simp add: p_number_def Let_def)

lemma p_value_shrinks:
  "(\<forall>s v r. p_value n s = Inr (v, r) \<longrightarrow> length r < length s) \<and>
   (\<forall>m s v r. p_members n m s = Inr (v, r) \<longrightarrow> length r < length s) \<and>
   (\<forall>vs s v r. p_elems n vs s = Inr (v, r) \<longrightarrow> length r < length s)"
proof (induction n)
  case (Suc n)
  then have IHv: "p_value n s = Inr (v, r) \<Longrightarrow> length r < length s"
    and IHm: "p_members n m s = Inr (v, r) \<Longrightarrow> length r < length s"
    and IHe: "p_elems n vs s = Inr (v, r) \<Longrightarrow> length r < length s" for m vs s v r
    by blast+
  have "length r < length s0" if pv: "p_value (Suc n) s0 = Inr (v, r)" for s0 v r
  proof -
    define s where "s = ws s0"
    have ne: "s \<noteq> []" using pv by (auto simp: s_def)
    have len: "length s \<le> length s0" by (simp add: s_def length_ws)
    have pos: "0 < length s0" using ne len by (cases s) auto
    have tlw: "length (ws (tl s)) < length s0" and tlw': "length (tl (ws (tl s))) < length s0"
      using length_ws [of "tl s"] len pos unfolding length_tl by linarith+
    show ?thesis
      using pv ne len pos tlw tlw' unfolding p_value.simps s_def [symmetric] Let_def
      by (simp split: if_splits sum.splits prod.splits)
        (auto dest!: p_number_shrinks p_string_shrinks IHm IHe)
  qed
  moreover have "length r < length s0" if "p_members (Suc n) m s0 = Inr (v, r)" for m s0 v r
  proof -
    from that obtain key r0 where k: "p_string (ws s0) = Inr (key, r0)"
      by (auto split: sum.splits)
    from that k obtain w r1 where w: "p_value n (tl (ws r0)) = Inr (w, r1)"
      by (auto simp: Let_def split: sum.splits if_splits)
    have "length r0 < length s0" using p_string_shrinks [OF k] length_ws [of s0] by simp
    moreover have "length r1 \<le> length r0" using IHv [OF w] length_ws [of r0] by simp
    moreover have "length r \<le> length r1"
      using that k w length_ws [of r1] by (auto simp: Let_def split: if_splits dest!: IHm)
    ultimately show ?thesis by simp
  qed
  moreover have "length r < length s0" if "p_elems (Suc n) vs s0 = Inr (v, r)" for vs s0 v r
  proof -
    from that obtain w r1 where w: "p_value n s0 = Inr (w, r1)"
      by (auto simp: Let_def split: sum.splits)
    have "length r \<le> length r1"
      using that w length_ws [of r1] by (auto simp: Let_def split: if_splits dest!: IHe)
    with IHv [OF w] show ?thesis by simp
  qed
  ultimately show ?case by blast
qed simp

lemma p_value_less: "p_value n s = Inr (v, r) \<Longrightarrow> length r < length s"
  using p_value_shrinks [of n] by blast

lemma p_value_fuel:
  "(\<forall>s. 2 * length s + 1 \<le> n \<longrightarrow> p_value n s \<noteq> Inl POut) \<and>
   (\<forall>m s. 2 * length s + 2 \<le> n \<longrightarrow> p_members n m s \<noteq> Inl POut) \<and>
   (\<forall>vs s. 2 * length s + 2 \<le> n \<longrightarrow> p_elems n vs s \<noteq> Inl POut)"
proof (induction n)
  case (Suc n)
  then have IHv: "2 * length s + 1 \<le> n \<Longrightarrow> p_value n s \<noteq> Inl POut"
    and IHm: "2 * length s + 2 \<le> n \<Longrightarrow> p_members n m s \<noteq> Inl POut"
    and IHe: "2 * length s + 2 \<le> n \<Longrightarrow> p_elems n vs s \<noteq> Inl POut" for m vs s
    by blast+
  have "p_value (Suc n) s0 \<noteq> Inl POut" if n: "2 * length s0 + 1 \<le> Suc n" for s0
  proof (cases "ws s0 = []")
    case False
    then have "0 < length (ws s0)" by simp
    with n length_ws [of "tl (ws s0)"] length_ws [of s0]
    have "2 * length (ws (tl (ws s0))) + 2 \<le> n" unfolding length_tl by linarith
    with False show ?thesis
      by (auto simp: Let_def IHm IHe split: sum.splits)
  qed simp
  moreover have "p_members (Suc n) m s0 \<noteq> Inl POut" if n: "2 * length s0 + 2 \<le> Suc n" for m s0
  proof (cases "p_string (ws s0)")
    case (Inr a)
    obtain key r0 where k: "p_string (ws s0) = Inr (key, r0)" using Inr by (cases a) auto
    have r0: "length r0 < length s0" using p_string_shrinks [OF k] length_ws [of s0] by simp
    then have v: "p_value n (tl (ws r0)) \<noteq> Inl POut"
      using n length_ws [of r0] by (intro IHv) simp
    have "p_members n m' (tl (ws r1)) \<noteq> Inl POut" if "p_value n (tl (ws r0)) = Inr (w, r1)" for m' w r1
      using p_value_less [OF that] r0 n length_ws [of r0] length_ws [of r1] by (intro IHm) simp
    with k v show ?thesis by (auto simp: Let_def split: sum.splits)
  qed auto
  moreover have "p_elems (Suc n) vs s0 \<noteq> Inl POut" if n: "2 * length s0 + 2 \<le> Suc n" for vs s0
  proof -
    have "p_value n s0 \<noteq> Inl POut" using n by (intro IHv) simp
    moreover have "p_elems n vs' (tl (ws r1)) \<noteq> Inl POut" if "p_value n s0 = Inr (w, r1)" for vs' w r1
      using p_value_less [OF that] n length_ws [of r1] by (intro IHe) simp
    ultimately show ?thesis by (auto simp: Let_def split: sum.splits)
  qed
  ultimately show ?case by blast
qed simp

text \<open>
  The JSON parser decides every input. It never runs out of fuel, so its result is a
  value, a syntax error with an offset inside the text, or the trailing-data error.
\<close>

theorem json_parse_total:
  "(\<exists>v. json_parse text = Inr v) \<or>
   (\<exists>msg off. json_parse text = Inl (msg @ '' at offset '' @ show_nat off) \<and> off \<le> length text) \<or>
   json_parse text = Inl ''trailing data after JSON value''"
proof (cases "p_value (2 * length text + 1) text")
  case (Inl e)
  have "e \<noteq> POut" using p_value_fuel [of "2 * length text + 1"] Inl by auto
  then obtain msg left where "e = PErr msg left" by (cases e) auto
  with Inl have "json_parse text = Inl (msg @ '' at offset '' @ show_nat (length text - left))"
    by (simp add: json_parse_def)
  then show ?thesis using diff_le_self by blast
next
  case (Inr a)
  then show ?thesis by (cases a) (auto simp: json_parse_def)
qed

subsection \<open>Strings survive escaping\<close>

lemma utf8_ascii: "n < 128 \<Longrightarrow> utf8 (of_nat n) = [chr_of n]"
proof -
  assume n: "n < 128"
  then have u: "unat (of_nat n :: u32) = n" by (simp add: unat_of_nat)
  with n have "(of_nat n :: u32) < 0x80" by (simp add: word_less_nat_alt)
  with u show ?thesis by (simp add: utf8_def char_of_byte_def)
qed

lemma hex_pair_word:
  "n < 32 \<Longrightarrow> push_bit 4 (of_nat (n div 16)) OR of_nat (n mod 16) = (of_nat n :: u32)"
proof -
  assume "n < 32"
  moreover have "list_all (\<lambda>n. push_bit 4 (of_nat (n div 16)) OR of_nat (n mod 16) = (of_nat n :: u32))
      [0..<32]" by code_simp
  ultimately show ?thesis by (simp only: list_all_iff) auto
qed

lemma hex4_control:
  "n < 32 \<Longrightarrow>
   hex4 (CHR ''0'' # CHR ''0'' # hex_digit (n div 16) # hex_digit (n mod 16) # r) = Inr (of_nat n)"
proof -
  assume n: "n < 32"
  then have d: "hex_val (hex_digit (n div 16)) = Some (n div 16)"
    "hex_val (hex_digit (n mod 16)) = Some (n mod 16)" by simp_all
  have z: "hex_val CHR ''0'' = Some 0" by (simp add: hex_val_def)
  have 0: "push_bit 4 (push_bit 4 (0 :: u32) OR of_nat 0) OR of_nat 0 = 0" by simp
  have 4: "4 = Suc (Suc (Suc (Suc 0)))" by simp
  have "hex4_loop (Suc (Suc (Suc (Suc 0)))) 0
      (CHR ''0'' # CHR ''0'' # hex_digit (n div 16) # hex_digit (n mod 16) # r) =
    Inr (push_bit 4 (push_bit 4 0 OR of_nat (n div 16)) OR of_nat (n mod 16))"
    by (simp only: hex4_loop.simps z d option.case 0)
  moreover have "push_bit 4 (push_bit 4 0 OR of_nat (n div 16)) OR of_nat (n mod 16) = (of_nat n :: u32)"
    using hex_pair_word [OF n] by simp
  ultimately show ?thesis unfolding hex4_def 4 [symmetric] by simp
qed

lemma p_chars_escape: "p_chars (escape_char c @ r) = prepend [c] (p_chars r)"
proof (cases "c \<in> {CHR 0x22, CHR 0x5C, CHR 0x08, CHR 0x0C, CHR 0x0A, CHR 0x0D, CHR 0x09}")
  case True
  then show ?thesis
    by (auto simp: escape_char_def p_escape_def simple_escape_def)
next
  case simple: False
  show ?thesis
  proof (cases "ord_of c < 32")
    case False
    with simple show ?thesis by (simp add: escape_char_def)
  next
    case True
    define n where "n = ord_of c"
    have n: "n < 32" and c: "chr_of n = c" using True by (simp_all add: n_def)
    have "unat (of_nat n :: u32) = n" using n by (simp add: unat_of_nat)
    with n have hi: "\<not> (0xD800 :: u32) \<le> of_nat n" by (simp add: word_le_nat_alt)
    have e: "escape_char c @ r =
        CHR 0x5C # CHR ''u'' # CHR ''0'' # CHR ''0'' # hex_digit (n div 16) # hex_digit (n mod 16) # r"
      using simple True by (simp add: escape_char_def n_def)
    have "p_escape (CHR ''u'' # CHR ''0'' # CHR ''0'' # hex_digit (n div 16) # hex_digit (n mod 16) # r)
        = Inr ([c], r)"
      using n hi utf8_ascii [of n] c
      by (simp add: p_escape_def simple_escape_def hex4_control Let_def)
    then show ?thesis unfolding e by simp
  qed
qed

lemma p_chars_escapes:
  "p_chars (concat (map escape_char s) @ CHR 0x22 # r) = Inr (s, r)"
  by (induction s) (simp_all only: list.map concat.simps append.simps append_assoc p_chars_escape, simp_all)

lemma p_string_escape: "p_string (json_escape s @ r) = Inr (s, r)"
  by (simp add: p_string_def json_escape_def next_is_def p_chars_escapes)

subsection \<open>Integers survive printing\<close>

definition number_end :: "string \<Rightarrow> bool" where
  "number_end r \<longleftrightarrow>
     (r = [] \<or> \<not> is_digit (hd r) \<and> hd r \<noteq> CHR ''.'' \<and> hd r \<noteq> CHR ''e'' \<and> hd r \<noteq> CHR ''E'')"

lemma takeWhile_digits:
  assumes "\<forall>c \<in> set ds. is_digit c" and "number_end r"
  shows "takeWhile is_digit (ds @ r) = ds" and "dropWhile is_digit (ds @ r) = r"
  using assms by (induction ds) (cases r; simp add: number_end_def)+

lemma p_number_show_int:
  assumes "number_end r"
  shows "p_number (show_int i @ r) = Inr (VNumber (double_of_int i) True, r)"
proof -
  obtain ds where ds: "\<forall>c \<in> set ds. is_digit c" "ds \<noteq> []" and
    i: "show_int i = (if i < 0 then CHR ''-'' # ds else ds)"
    by (auto simp: show_int_def intro: that [of "show_nat (nat \<bar>i\<bar>)"] dest: show_nat_digits)
  have hd: "is_digit (hd ds)" using ds by (cases ds) auto
  then have hd': "hd ds \<noteq> CHR ''-'' \<and> hd ds \<noteq> CHR ''+''" by (auto simp: is_digit_def)
  have dsn: "drop_sign (show_int i @ r) = ds @ r"
    using ds hd' by (cases ds) (auto simp: drop_sign_def next_is_def i)
  have "\<not> next_is CHR ''.'' r" "\<not> next_is CHR ''e'' r" "\<not> next_is CHR ''E'' r"
    using assms by (auto simp: number_end_def next_is_def)
  then show ?thesis
    unfolding p_number_def Let_def dsn takeWhile_digits [OF ds(1) assms]
    using ds(2) strtod_show_int [of i] by simp
qed

subsection \<open>The values that are read back unchanged\<close>

text \<open>
  Numbers must be integers of magnitude below \<open>10^15\<close> that are flagged integral (the only
  ones the agent builds), and objects must be sorted maps, as every \<open>std::map\<close> is.
\<close>

definition safe_number :: "double \<Rightarrow> bool \<Rightarrow> bool" where
  "safe_number d integral \<longleftrightarrow>
     integral \<and> small_integral d \<and> d = double_of_int (double_to_int64 d)"

fun json_safe :: "json \<Rightarrow> bool" where
  "json_safe (VNumber d i) = safe_number d i"
| "json_safe (VObj m) = (smap_ok m \<and> (\<forall>(k, v) \<in> set m. json_safe v))"
| "json_safe (VArr vs) = (\<forall>v \<in> set vs. json_safe v)"
| "json_safe VNull = True"
| "json_safe (VBool b) = True"
| "json_safe (VString s) = True"

lemma safe_num_int: "\<bar>n\<bar> < 10 ^ 15 \<Longrightarrow> json_safe (num_int n)"
  by (simp add: num_int_def safe_number_def small_integral_of_int double_to_int64_of_int)

lemma dump_safe_number: "safe_number d i \<Longrightarrow> dump_number d i = show_int (double_to_int64 d)"
  by (simp add: safe_number_def dump_number_def)

lemma show_int_head:
  "\<exists>c r. show_int i = c # r \<and> (is_digit c \<or> c = CHR ''-'')"
  using show_nat_Cons [of "nat \<bar>i\<bar>"] by (auto simp: show_int_def)

lemma dump_head:
  assumes "json_safe v"
  shows "\<exists>c r. json_dump v = c # r \<and> \<not> is_ws c \<and> c \<noteq> CHR '']''"
proof (cases v)
  case (VNumber d i)
  with assms show ?thesis
    using show_int_head [of "double_to_int64 d"]
    by (auto simp: dump_safe_number is_ws_def is_digit_def)
qed (auto simp: json_escape_def is_ws_def)

lemma ws_dump: "json_safe v \<Longrightarrow> ws (json_dump v @ r) = json_dump v @ r"
  using dump_head [of v] by (auto simp: ws_def)

lemma ws_stop: "\<not> is_ws c \<Longrightarrow> ws (c # r) = c # r"
  by (simp add: ws_def)

lemma ws_escape [simp]: "ws (json_escape s @ r) = json_escape s @ r"
  by (simp add: json_escape_def ws_def is_ws_def)

subsection \<open>Reading back what was written\<close>

definition dump_member :: "string \<times> json \<Rightarrow> string" where
  "dump_member kv = json_escape (fst kv) @ '':'' @ json_dump (snd kv)"

lemma json_dump_obj:
  "json_dump (VObj m) = ''{'' @ join (map dump_member m) '','' @ ''}''"
proof -
  have "(\<lambda>(k, v). json_escape k @ '':'' @ json_dump v) = dump_member"
    by (rule ext) (auto simp: dump_member_def)
  then show ?thesis by (simp only: json_dump.simps)
qed

lemma length_dump_member:
  "length (dump_member kv) = length (json_escape (fst kv)) + 1 + length (json_dump (snd kv))"
  by (simp add: dump_member_def)

lemma number_end_sep:
  "c \<in> {CHR '','', CHR ''}'', CHR '']''} \<Longrightarrow> number_end (c # r)"
  by (auto simp: number_end_def is_digit_def)

lemma number_end_Nil: "number_end []"
  by (simp add: number_end_def)

lemma number_end_ws: "is_ws c \<Longrightarrow> number_end (c # r)"
  by (auto simp: number_end_def is_ws_def is_digit_def)

lemma p_elems_dump:
  assumes "\<And>v n r. v \<in> set vs \<Longrightarrow> number_end r \<Longrightarrow> 2 * length (json_dump v) + 1 \<le> n \<Longrightarrow>
             p_value n (json_dump v @ r) = Inr (v, r)"
    and "vs \<noteq> []"
    and "2 * length (join (map json_dump vs) '','') + 2 \<le> n"
  shows "p_elems n us (join (map json_dump vs) '','' @ CHR '']'' # r) = Inr (VArr (us @ vs), r)"
  using assms
proof (induction vs arbitrary: n us)
  case (Cons v vs)
  obtain k where n: "n = Suc k" using Cons.prems(3) by (cases n) auto
  show ?case
  proof (cases "vs = []")
    case True
    have "p_value k (json_dump v @ CHR '']'' # r) = Inr (v, CHR '']'' # r)"
      using Cons.prems True n by (intro Cons.prems(1) number_end_sep) auto
    with True n show ?thesis by (simp add: Let_def ws_stop is_ws_def next_is_def)
  next
    case False
    let ?t = "join (map json_dump vs) '','' @ CHR '']'' # r"
    have j: "join (map json_dump (v # vs)) '','' = json_dump v @ '','' @ join (map json_dump vs) '',''"
      using False by (simp add: join_Cons)
    have "p_value k (json_dump v @ CHR '','' # ?t) = Inr (v, CHR '','' # ?t)"
      using Cons.prems(3) n unfolding j by (intro Cons.prems(1) number_end_sep) auto
    moreover have "p_elems k (us @ [v]) ?t = Inr (VArr ((us @ [v]) @ vs), r)"
      using Cons.prems(3) n unfolding j by (intro Cons.IH Cons.prems(1) False) auto
    ultimately show ?thesis
      unfolding j n by (simp add: Let_def ws_stop is_ws_def next_is_def)
  qed
qed simp

lemma p_members_dump:
  assumes "\<And>v n r. v \<in> snd ` set m \<Longrightarrow> number_end r \<Longrightarrow> 2 * length (json_dump v) + 1 \<le> n \<Longrightarrow>
             p_value n (json_dump v @ r) = Inr (v, r)"
    and "m \<noteq> []"
    and "smap_ok (m0 @ m)"
    and "2 * length (join (map dump_member m) '','') + 2 \<le> n"
  shows "p_members n m0 (join (map dump_member m) '','' @ CHR ''}'' # r) = Inr (VObj (m0 @ m), r)"
  using assms
proof (induction m arbitrary: n m0)
  case (Cons kv m)
  obtain k v where kv: "kv = (k, v)" by (cases kv)
  obtain l where n: "n = Suc l" using Cons.prems(4) by (cases n) auto
  have put: "smap_put k v m0 = m0 @ [(k, v)]"
    using Cons.prems(3) by (intro smap_put_snoc) (auto simp: smap_ok_def sorted_wrt_append kv)
  have str: "p_string (ws (dump_member (k, v) @ t)) = Inr (k, CHR '':'' # json_dump v @ t)" for t
    by (simp add: dump_member_def p_string_escape)
  have colon: "ws (CHR '':'' # t) = CHR '':'' # t" for t by (rule ws_stop) (simp add: is_ws_def)
  show ?case
  proof (cases "m = []")
    case True
    have "p_value l (json_dump v @ CHR ''}'' # r) = Inr (v, CHR ''}'' # r)"
      using Cons.prems True n kv
      by (intro Cons.prems(1) number_end_sep) (auto simp: length_dump_member)
    with True n show ?thesis
      by (simp add: kv str colon put Let_def next_is_def ws_stop is_ws_def)
  next
    case False
    let ?t = "join (map dump_member m) '','' @ CHR ''}'' # r"
    have j: "join (map dump_member (kv # m)) '','' =
        dump_member (k, v) @ '','' @ join (map dump_member m) '',''"
      using False by (simp add: join_Cons kv)
    have "p_value l (json_dump v @ CHR '','' # ?t) = Inr (v, CHR '','' # ?t)"
      using Cons.prems(4) n kv unfolding j
      by (intro Cons.prems(1) number_end_sep) (auto simp: length_dump_member)
    moreover have "p_members l (m0 @ [(k, v)]) ?t = Inr (VObj ((m0 @ [(k, v)]) @ m), r)"
      using Cons.prems(3,4) n kv unfolding j
      by (intro Cons.IH Cons.prems(1) False) (auto simp: length_dump_member)
    ultimately show ?thesis
      unfolding j n by (simp add: str colon put Let_def next_is_def ws_stop is_ws_def kv)
  qed
qed simp

lemma p_value_dump:
  assumes "json_safe v" and "number_end r" and "2 * length (json_dump v) + 1 \<le> n"
  shows "p_value n (json_dump v @ r) = Inr (v, r)"
  using assms
proof (induction v arbitrary: n r rule: json_safe.induct)
  case (1 d i)
  obtain k where n: "n = Suc k" using 1 by (cases n) auto
  define z where "z = double_to_int64 d"
  have d: "json_dump (VNumber d i) = show_int z" "VNumber d i = VNumber (double_of_int z) True"
    using 1 by (auto simp: dump_safe_number z_def safe_number_def)
  obtain c t where c: "show_int z = c # t" "is_digit c \<or> c = CHR ''-''"
    using show_int_head by blast
  then have w: "ws (show_int z @ r) = show_int z @ r" by (auto simp: ws_def is_ws_def is_digit_def)
  have "\<not> next_is CHR ''{'' (show_int z @ r) \<and> \<not> next_is CHR ''['' (show_int z @ r) \<and>
      \<not> next_is CHR 0x22 (show_int z @ r) \<and> take 4 (show_int z @ r) \<noteq> ''true'' \<and>
      take 5 (show_int z @ r) \<noteq> ''false'' \<and> take 4 (show_int z @ r) \<noteq> ''null'' \<and> show_int z @ r \<noteq> []"
    using c by (auto simp: next_is_def is_digit_def)
  then have "p_value (Suc k) (show_int z @ r) = p_number (show_int z @ r)"
    by (simp only: p_value.simps w Let_def if_False)
  with 1 d n show ?case by (simp only: p_number_show_int)
next
  case (2 m)
  obtain k where n: "n = Suc k" using 2 by (cases n) auto
  have w: "ws (CHR ''{'' # t) = CHR ''{'' # t" "ws (CHR ''}'' # t) = CHR ''}'' # t" for t
    by (simp_all add: ws_stop is_ws_def)
  show ?case
  proof (cases "m = []")
    case True
    with n show ?thesis by (simp add: w Let_def next_is_def)
  next
    case False
    let ?b = "join (map dump_member m) '',''"
    obtain t where t: "?b = CHR 0x22 # t"
    proof -
      obtain kv ms where "m = kv # ms" using False by (cases m) auto
      then show ?thesis
        by (cases ms) (auto simp: dump_member_def json_escape_def intro: that)
    qed
    have "p_members k [] (?b @ CHR ''}'' # r) = Inr (VObj ([] @ m), r)"
    proof (rule p_members_dump)
      fix v n r
      assume "v \<in> snd ` set m" "number_end r" "2 * length (json_dump v) + 1 \<le> n"
      with 2 show "p_value n (json_dump v @ r) = Inr (v, r)" by fastforce
    qed (use 2 n False in \<open>auto simp: json_dump_obj simp del: json_dump.simps\<close>)
    moreover have "ws (?b @ CHR ''}'' # r) = ?b @ CHR ''}'' # r"
      unfolding t by (simp add: ws_stop is_ws_def)
    moreover have "\<not> next_is CHR ''}'' (?b @ CHR ''}'' # r)" unfolding t by (simp add: next_is_def)
    ultimately show ?thesis
      unfolding json_dump_obj n by (simp add: w Let_def next_is_def)
  qed
next
  case (3 vs)
  obtain k where n: "n = Suc k" using 3 by (cases n) auto
  have w: "ws (CHR ''['' # t) = CHR ''['' # t" "ws (CHR '']'' # t) = CHR '']'' # t" for t
    by (simp_all add: ws_stop is_ws_def)
  show ?case
  proof (cases "vs = []")
    case True
    with n show ?thesis by (simp add: w Let_def next_is_def)
  next
    case False
    let ?b = "join (map json_dump vs) '',''"
    obtain c t where t: "?b = c # t" "\<not> is_ws c" "c \<noteq> CHR '']''"
    proof -
      obtain v us where vs: "vs = v # us" using False by (cases vs) auto
      with 3 dump_head [of v] obtain c t where "json_dump v = c # t" "\<not> is_ws c" "c \<noteq> CHR '']''"
        by auto
      with vs show ?thesis by (cases us) (auto intro: that)
    qed
    have "p_elems k [] (?b @ CHR '']'' # r) = Inr (VArr ([] @ vs), r)"
      using 3 n False by (intro p_elems_dump) auto
    moreover have "ws (?b @ CHR '']'' # r) = ?b @ CHR '']'' # r"
      unfolding t(1) using t(2) by (simp add: ws_stop)
    moreover have "\<not> next_is CHR '']'' (?b @ CHR '']'' # r)"
      unfolding t(1) using t(3) by (simp add: next_is_def)
    ultimately show ?thesis
      using n by (simp add: w Let_def next_is_def)
  qed
next
  case 4
  then obtain k where n: "n = Suc k" by (cases n) auto
  then show ?case by (simp add: Let_def ws_stop is_ws_def next_is_def)
next
  case (5 b)
  then obtain k where n: "n = Suc k" by (cases n) auto
  then show ?case by (simp add: Let_def ws_stop is_ws_def next_is_def)
next
  case (6 s)
  then obtain k where n: "n = Suc k" by (cases n) auto
  have q: "\<exists>t. json_escape s @ r = CHR 0x22 # t" by (simp add: json_escape_def)
  then have "\<not> next_is CHR ''{'' (json_escape s @ r)" "\<not> next_is CHR ''['' (json_escape s @ r)"
    "next_is CHR 0x22 (json_escape s @ r)" "json_escape s @ r \<noteq> []"
    by (auto simp: next_is_def)
  then show ?case
    unfolding n json_dump.simps p_value.simps Let_def ws_escape
    by (simp add: p_string_escape)
qed

lemma json_parse_dump_pad:
  assumes "json_safe v" and "\<forall>c \<in> set pad. is_ws c"
  shows "json_parse (json_dump v @ pad) = Inr v"
proof -
  have "number_end pad" using assms(2) by (cases pad) (auto simp: number_end_ws number_end_Nil)
  then have "p_value (2 * length (json_dump v @ pad) + 1) (json_dump v @ pad) = Inr (v, pad)"
    using assms(1) by (intro p_value_dump) auto
  moreover have "ws pad = []" using assms(2) by (auto simp: ws_def dropWhile_eq_Nil_conv)
  ultimately show ?thesis by (simp add: json_parse_def)
qed

lemma json_parse_dump: "json_safe v \<Longrightarrow> json_parse (json_dump v) = Inr v"
  using json_parse_dump_pad [of v "[]"] by simp

text \<open>Objects built member by member.\<close>

lemma smap_ok_puts: "smap_ok m \<Longrightarrow> smap_ok (fold (\<lambda>(k, w). smap_put k w) kvs m)"
  by (induction kvs arbitrary: m) (auto simp: smap_simps)

lemma map_of_puts:
  "map_of (fold (\<lambda>(k, w). smap_put k w) kvs m) k =
     (case map_of (rev kvs) k of Some w \<Rightarrow> Some w | None \<Rightarrow> map_of m k)"
  by (induction kvs arbitrary: m) (auto simp: map_add_def split: option.splits)

lemma smap_put_value: "e \<in> set (smap_put k w m) \<Longrightarrow> e = (k, w) \<or> e \<in> set m"
  by (induction k w m rule: smap_put.induct) (auto split: if_splits)

lemma puts_value:
  "e \<in> set (fold (\<lambda>(k, w). smap_put k w) kvs m) \<Longrightarrow> e \<in> set kvs \<or> e \<in> set m"
  by (induction kvs arbitrary: m) (auto dest: smap_put_value)

subsection \<open>What the parser returns is well formed\<close>

text \<open>
  A value as the C++ type can hold it: the members of an object are a \<open>std::map\<close>, in the order
  of their keys and each key once, in the value and in every value inside it.
\<close>

fun json_wf :: "json \<Rightarrow> bool" where
  "json_wf (VObj m) = (smap_ok m \<and> (\<forall>(k, v) \<in> set m. json_wf v))"
| "json_wf (VArr vs) = (\<forall>v \<in> set vs. json_wf v)"
| "json_wf _ = True"

lemma p_value_wf:
  "(\<forall>s v r. p_value n s = Inr (v, r) \<longrightarrow> json_wf v) \<and>
   (\<forall>m s v r. json_wf (VObj m) \<longrightarrow> p_members n m s = Inr (v, r) \<longrightarrow> json_wf v) \<and>
   (\<forall>vs s v r. json_wf (VArr vs) \<longrightarrow> p_elems n vs s = Inr (v, r) \<longrightarrow> json_wf v)"
proof (induction n)
  case (Suc n)
  then have IHv: "p_value n s = Inr (v, r) \<Longrightarrow> json_wf v"
    and IHm: "p_members n m s = Inr (v, r) \<Longrightarrow> json_wf (VObj m) \<Longrightarrow> json_wf v"
    and IHe: "p_elems n vs s = Inr (v, r) \<Longrightarrow> json_wf (VArr vs) \<Longrightarrow> json_wf v" for m vs s v r
    by blast+
  have "json_wf v" if "p_value (Suc n) s = Inr (v, r)" for s v r
  proof -
    have "json_wf w" if "p_number t = Inr (w, q)" for t w q
      using that by (auto simp: p_number_def Let_def split: if_splits)
    with that show ?thesis unfolding p_value.simps Let_def
      by (auto dest: IHm IHe split: if_splits sum.splits)
  qed
  moreover have "json_wf v" if m: "json_wf (VObj m)" and p: "p_members (Suc n) m s = Inr (v, r)" for m s v r
  proof -
    obtain key r0 where k: "p_string (ws s) = Inr (key, r0)" using p by (auto split: sum.splits)
    then obtain w r1 where w: "p_value n (tl (ws r0)) = Inr (w, r1)"
      using p by (auto simp: Let_def split: sum.splits if_splits)
    have "json_wf (VObj (smap_put key w m))"
      using m IHv [OF w] by (auto simp: smap_put_ok dest!: smap_put_value)
    with p k w show ?thesis by (auto simp: Let_def dest: IHm split: if_splits)
  qed
  moreover have "json_wf v" if vs: "json_wf (VArr vs)" and p: "p_elems (Suc n) vs s = Inr (v, r)" for vs s v r
  proof -
    obtain w r1 where w: "p_value n s = Inr (w, r1)" using p by (auto split: sum.splits)
    have "json_wf (VArr (vs @ [w]))" using vs IHv [OF w] by auto
    with p w show ?thesis by (auto simp: Let_def dest: IHe split: if_splits)
  qed
  ultimately show ?case by blast
qed simp


lemma json_safe_mk_obj: "(\<And>k w. (k, w) \<in> set kvs \<Longrightarrow> json_safe w) \<Longrightarrow> json_safe (mk_obj kvs)"
  using smap_ok_puts [of "[]" kvs] by (auto simp: mk_obj_def dest: puts_value)

lemma find_key_mk_obj: "find_key (mk_obj kvs) k = map_of (rev kvs) k"
  by (simp add: find_key_def mk_obj_def map_of_puts split: option.split)

text \<open>
  C11: what \<open>dump\<close> writes, \<open>parse\<close> reads back unchanged, for every value whose
  numbers are integers below \<open>10^15\<close> in magnitude: any string bytes, any nesting. The text
  survives being followed by white space.
\<close>

theorem json_roundtrip:
  assumes "json_safe v" and "\<forall>c \<in> set pad. is_ws c"
  shows "json_parse (json_dump v @ pad) = Inr v"
  by (rule json_parse_dump_pad [OF assms])

theorem json_roundtrip_witness:
  "json_parse (json_dump (VObj [(''a'', VArr [num_int 3, VString [CHR 0x0A, CHR 0x22]])]) @ '' '') =
   Inr (VObj [(''a'', VArr [num_int 3, VString [CHR 0x0A, CHR 0x22]])])"
  by (rule json_roundtrip) (auto simp: safe_num_int is_ws_def smap_simps)

text \<open>
  A malformed surrogate pair is reordered. For every high surrogate followed by an escape
  that is no low surrogate, the escape decoder emits the second code unit before the first,
  although the text has them in the other order.
\<close>

theorem escape_swaps_lone_surrogate:
  assumes "hex4 (a @ b) = Inr hi" and "length a = 4" and "0xD800 \<le> hi" and "hi \<le> 0xDBFF"
    and "b = [CHR 0x5C, CHR ''u''] @ c" and "hex4 c = Inr lo" and "lo < 0xDC00 \<or> 0xDFFF < lo"
  shows "p_escape (CHR ''u'' # a @ b) = Inr (utf8 lo @ utf8 hi, drop 4 c)"
proof -
  have d: "drop 4 (a @ b) = b" "take 2 b = [CHR 0x5C, CHR ''u'']" "drop 2 b = c" "drop 6 b = drop 4 c"
    using assms by simp_all
  have e: "simple_escape CHR ''u'' = None" by (simp add: simple_escape_def)
  have lo: "(0xDC00 \<le> lo \<and> lo \<le> 0xDFFF) = False" using assms(7) by auto
  have hi: "(0xD800 \<le> hi \<and> hi \<le> 0xDBFF) = True" using assms(3,4) by simp
  show ?thesis
    by (simp only: p_escape_def list.case e option.case assms(1) sum.case Let_def d assms(6) lo hi
        simp_thms if_True if_False)
qed

theorem escape_swaps_lone_surrogate_witness:
  "p_escape (''ud800'' @ [CHR 0x5C] @ ''u0041!'') =
   Inr ([chr_of 0x41, chr_of 0xED, chr_of 0xA0, chr_of 0x80], ''!'')"
proof -
  have "p_escape (CHR ''u'' # ''d800'' @ [CHR 0x5C, CHR ''u''] @ ''0041!'') =
      Inr (utf8 0x41 @ utf8 0xD800, drop 4 ''0041!'')"
    by (rule escape_swaps_lone_surrogate [where hi = "0xD800" and c = "''0041!''" and lo = "0x41"]) code_simp+
  then show ?thesis by (simp add: utf8_def char_of_byte_def)
qed

end
