(* ===== verification/Mgs.thy ===== *)
theory Mgs
  imports Util
begin

text \<open>
  The binary frames of the Message Gateway Service, \<open>src/src/mgs.cpp\<close>: an
  \<open>AgentMessage\<close> is a 116-byte header of big-endian fields, a payload length and the
  payload. SHA-256 is mbedTLS and so a parameter.

  The lemmas show that a serialized message is read back field by field, that the swapped
  halves of a UUID come back as the same text, and for which inputs \<open>deserialize\<close>
  returns, refuses, or throws.
\<close>

subsection \<open>Message and payload types\<close>

definition msg_interactive_shell :: string where
  "msg_interactive_shell = ''interactive_shell''"
definition msg_agent_job :: string where
  "msg_agent_job = ''agent_job''"
definition msg_channel_closed :: string where
  "msg_channel_closed = ''channel_closed''"
definition msg_acknowledge :: string where
  "msg_acknowledge = ''acknowledge''"
definition msg_agent_session_state :: string where
  "msg_agent_session_state = ''agent_session_state''"
definition msg_input_stream_data :: string where
  "msg_input_stream_data = ''input_stream_data''"
definition msg_output_stream_data :: string where
  "msg_output_stream_data = ''output_stream_data''"

lemmas msg_type_defs =
  msg_interactive_shell_def msg_agent_job_def msg_channel_closed_def msg_acknowledge_def
  msg_agent_session_state_def msg_input_stream_data_def msg_output_stream_data_def

definition payload_output :: u32 where "payload_output = 1"
definition payload_size :: u32 where "payload_size = 3"
definition payload_handshake_request :: u32 where "payload_handshake_request = 5"
definition payload_handshake_response :: u32 where "payload_handshake_response = 6"
definition payload_handshake_complete :: u32 where "payload_handshake_complete = 7"
definition payload_stderr :: u32 where "payload_stderr = 11"
definition payload_exit_code :: u32 where "payload_exit_code = 12"

lemmas payload_defs =
  payload_output_def payload_size_def payload_handshake_request_def payload_handshake_response_def
  payload_handshake_complete_def payload_stderr_def payload_exit_code_def

text \<open>\<open>int64_t sequence\<close> is an integer of the signed 64-bit range.\<close>

record agent_message =
  am_message_type :: string
  am_schema_version :: u32
  am_created_ms :: u64
  am_sequence :: int
  am_flags :: u64
  am_message_id :: string
  am_payload_type :: u32
  am_payload :: string

subsection \<open>Big-endian fields\<close>

definition be_bytes :: "nat \<Rightarrow> 'a::len word \<Rightarrow> string" where
  "be_bytes k v = map (\<lambda>i. char_of_byte (drop_bit (8 * (k - 1 - i)) v AND 0xFF)) [0..<k]"

definition be_val :: "string \<Rightarrow> 'a::len word" where
  "be_val s = foldl (\<lambda>v c. push_bit 8 v OR of_nat (ord_of c)) 0 s"

text \<open>Writing \<open>s\<close> over the bytes of \<open>b\<close> that start at \<open>at\<close>.\<close>

definition put_at :: "string \<Rightarrow> nat \<Rightarrow> string \<Rightarrow> string" where
  "put_at b at s = take at b @ s @ drop (at + length s) b"

definition put_u32 :: "string \<Rightarrow> nat \<Rightarrow> u32 \<Rightarrow> string" where
  "put_u32 b at v = put_at b at (be_bytes 4 v)"

definition put_u64 :: "string \<Rightarrow> nat \<Rightarrow> u64 \<Rightarrow> string" where
  "put_u64 b at v = put_at b at (be_bytes 8 v)"

definition get_u32 :: "string \<Rightarrow> nat \<Rightarrow> u32" where
  "get_u32 b at = be_val (take 4 (drop at b))"

definition get_u64 :: "string \<Rightarrow> nat \<Rightarrow> u64" where
  "get_u64 b at = be_val (take 8 (drop at b))"

subsection \<open>UUIDs\<close>

fun uuid_bytes :: "nat \<Rightarrow> string \<Rightarrow> string option" where
  "uuid_bytes n (a # b # r) =
     (if 16 \<le> n then Some []
      else if a = CHR ''-'' then uuid_bytes n (b # r)
      else case (hex_val a, hex_val b) of
        (Some hi, Some lo) \<Rightarrow> map_option ((#) (chr_of (hi * 16 + lo))) (uuid_bytes (Suc n) r)
      | _ \<Rightarrow> None)"
| "uuid_bytes n _ = Some []"

definition uuid_to_wire :: "string \<Rightarrow> string option" where
  "uuid_to_wire text =
     (case uuid_bytes 0 text of
        None \<Rightarrow> None
      | Some bs \<Rightarrow> if length bs \<noteq> 16 then None else Some (drop 8 bs @ take 8 bs))"

definition hex2 :: "char \<Rightarrow> string" where
  "hex2 c = [hex_digit (ord_of c div 16), hex_digit (ord_of c mod 16)]"

definition uuid_from_wire :: "string \<Rightarrow> string" where
  "uuid_from_wire w =
     (let bs = take 8 (drop 8 w) @ take 8 w
      in concat (map (\<lambda>i. (if i \<in> {4, 6, 8, 10} then ''-'' else []) @ hex2 (bs ! i)) [0..<16]))"

subsection \<open>Frames\<close>

definition serialize :: "(string \<Rightarrow> string) \<Rightarrow> agent_message \<Rightarrow> string" where
  "serialize sha256 m =
     (let out = replicate (120 + length (am_payload m)) CHR 0x00;
          out = put_u32 out 0 116;
          out = put_at out 4
                  (map (\<lambda>i. if i < length (am_message_type m) then am_message_type m ! i else CHR '' '') [0..<32]);
          out = put_u32 out 36 (am_schema_version m);
          out = put_u64 out 40 (am_created_ms m);
          out = put_u64 out 48 (of_int (am_sequence m));
          out = put_u64 out 56 (am_flags m);
          out = put_at out 64
                  (case uuid_to_wire (am_message_id m) of None \<Rightarrow> replicate 16 CHR 0x00 | Some w \<Rightarrow> w);
          out = put_at out 80 (sha256 (am_payload m));
          out = put_u32 out 112 (am_payload_type m);
          out = put_u32 out 116 (of_nat (length (am_payload m)))
      in put_at out 120 (am_payload m))"

text \<open>
  The three ways \<open>deserialize\<close> ends: false with an error text, the exception of
  \<open>raw.substr\<close>, or true with the message. The bound check adds 4 in 32 bits.
\<close>

datatype des_result = Refused string | Threw_out_of_range | Got agent_message

fun rstrip_pad :: "string \<Rightarrow> string" where
  "rstrip_pad s = rev (dropWhile (\<lambda>c. c = CHR '' '' \<or> c = CHR 0x00) (rev s))"

declare rstrip_pad.simps [simp del]

definition deserialize :: "string \<Rightarrow> des_result" where
  "deserialize raw =
     (if length raw < 120
      then Refused (''message too short: '' @ show_nat (length raw) @ '' bytes'')
      else let header_len = get_u32 raw 0
           in if header_len \<noteq> 116 \<and>
                 (header_len < 116 \<or> length raw < unat (header_len + 4))
              then Refused (''unexpected header length '' @ show_nat (unat header_len))
              else let payload_at = unat header_len + 4
                   in if length raw < payload_at then Threw_out_of_range
                      else Got \<lparr>am_message_type = rstrip_pad (take 32 (drop 4 raw)),
                                am_schema_version = get_u32 raw 36,
                                am_created_ms = get_u64 raw 40,
                                am_sequence = sint (get_u64 raw 48),
                                am_flags = get_u64 raw 56,
                                am_message_id = uuid_from_wire (take 16 (drop 64 raw)),
                                am_payload_type = get_u32 raw 112,
                                am_payload = drop payload_at raw\<rparr>)"

definition mgs_endpoint :: "string \<Rightarrow> string" where
  "mgs_endpoint region = ''ssmmessages.'' @ region @ ''.amazonaws.com''"

subsection \<open>Fixed-width fields\<close>

text \<open>
  What \<open>serialize\<close> and \<open>deserialize\<close> share about a field: a fixed number of bytes and a
  reader that undoes the writer. A field is found again at the offset where it was written.
\<close>

locale field_code =
  fixes width :: nat and enc :: "'a \<Rightarrow> string" and dec :: "string \<Rightarrow> 'a"
  assumes width_enc: "length (enc x) = width"
    and dec_enc: "dec (enc x) = x"
begin

lemma read_field: "at = length pre \<Longrightarrow> dec (take width (drop at (pre @ enc x @ post))) = x"
  using width_enc dec_enc by simp

lemma enc_inj: "enc x = enc y \<longleftrightarrow> x = y"
  using dec_enc by metis

end

lemma length_be_bytes [simp]: "length (be_bytes k v) = k"
  by (simp add: be_bytes_def)

lemma be_bytes_Suc:
  "be_bytes (Suc k) v = be_bytes k (drop_bit 8 v) @ [char_of_byte (v AND 0xFF)]"
proof -
  have "8 * (Suc k - 1 - i) = 8 * (k - 1 - i) + 8" if "i < k" for i using that by simp
  then show ?thesis by (simp add: be_bytes_def drop_bit_drop_bit add.commute)
qed

lemma of_nat_ord_char_of_byte:
  "(of_nat (ord_of (char_of_byte (v AND 0xFF :: 'a::len word))) :: 'a word) = v AND 0xFF"
proof -
  have "v AND 0xFF = take_bit 8 v" by (simp add: take_bit_eq_mask mask_eq_exp_minus_1)
  then have "unat (v AND 0xFF) < 256"
    using take_bit_nat_less_exp [of 8 "unat v"] by (simp add: unsigned_take_bit_eq)
  then show ?thesis by (simp add: char_of_byte_def)
qed

lemma be_val_be_bytes: "be_val (be_bytes k v) = take_bit (8 * k) v"
proof (induction k arbitrary: v)
  case 0
  show ?case by (simp add: be_val_def be_bytes_def)
next
  case (Suc k)
  have "be_val (be_bytes (Suc k) v) = push_bit 8 (be_val (be_bytes k (drop_bit 8 v))) OR (v AND 0xFF)"
    unfolding be_bytes_Suc by (simp add: be_val_def of_nat_ord_char_of_byte)
  also have "\<dots> = push_bit 8 (take_bit (8 * k) (drop_bit 8 v)) OR take_bit 8 v"
    by (simp only: Suc.IH) (simp add: take_bit_eq_mask mask_eq_exp_minus_1)
  also have "\<dots> = take_bit (8 * Suc k) v"
    by (rule bit_eqI) (auto simp: bit_simps)
  finally show ?case .
qed

lemma be_val_be32 [simp]: "be_val (be_bytes 4 v) = (v :: u32)"
  by (simp add: be_val_be_bytes take_bit_word_eq_self)

lemma be_val_be64 [simp]: "be_val (be_bytes 8 v) = (v :: u64)"
  by (simp add: be_val_be_bytes take_bit_word_eq_self)

interpretation be32: field_code 4 "be_bytes 4 :: u32 \<Rightarrow> string" be_val
  by unfold_locales simp_all

interpretation be64: field_code 8 "be_bytes 8 :: u64 \<Rightarrow> string" be_val
  by unfold_locales simp_all

subsection \<open>UUIDs come back\<close>

lemma uuid_bytes_hex2:
  "n < 16 \<Longrightarrow> uuid_bytes n (hex2 c @ r) = map_option ((#) c) (uuid_bytes (Suc n) r)"
proof -
  assume "n < 16"
  have d: "ord_of c div 16 < 16" using ord_of_less_256 [of c] by (simp only: div_less_iff_less_mult)
  have "hex_digit (ord_of c div 16) \<noteq> CHR ''-''"
    using hex_val_hex_digit [OF d] by (auto simp: hex_val_def split: if_splits)
  with \<open>n < 16\<close> d show ?thesis
    by (simp add: hex2_def mult.commute [of "ord_of c div 16"])
qed

lemma uuid_bytes_dash: "n < 16 \<Longrightarrow> r \<noteq> [] \<Longrightarrow> uuid_bytes n (CHR ''-'' # r) = uuid_bytes n r"
  by (cases r) auto

lemma uuid_bytes_groups:
  assumes "length bs = 16" and "n \<le> 16"
  shows "uuid_bytes n (concat (map (\<lambda>i. (if i \<in> {4, 6, 8, 10} then ''-'' else []) @ hex2 (bs ! i)) [n..<16]))
         = Some (drop n bs)"
  using assms(2)
proof (induction n rule: inc_induct)
  case base
  then show ?case using assms by simp
next
  case (step n)
  let ?f = "\<lambda>i. (if i \<in> {4, 6, 8, 10} then ''-'' else []) @ hex2 (bs ! i)"
  have ne: "hex2 (bs ! n) @ t \<noteq> []" for t by (simp add: hex2_def)
  have "uuid_bytes n (?f n @ t) = map_option ((#) (bs ! n)) (uuid_bytes (Suc n) t)" for t
    using step(2) ne by (simp add: uuid_bytes_dash uuid_bytes_hex2)
  moreover have "[n..<16] = n # [Suc n..<16]" using step(2) by (simp add: upt_conv_Cons)
  moreover have "drop n bs = bs ! n # drop (Suc n) bs"
    using step(2) assms(1) by (simp add: Cons_nth_drop_Suc)
  ultimately show ?case using step(3) by simp
qed

text \<open>
  The UUID text of any 16 wire bytes converts back to exactly these bytes: the two halves
  are swapped once in each direction and no byte is lost.
\<close>

theorem uuid_roundtrip:
  assumes "length w = 16"
  shows "uuid_to_wire (uuid_from_wire w) = Some w"
proof -
  let ?bs = "take 8 (drop 8 w) @ take 8 w"
  have "length ?bs = 16" using assms by simp
  from uuid_bytes_groups [OF this, of 0]
  have "uuid_bytes 0 (uuid_from_wire w) = Some ?bs" by (simp only: uuid_from_wire_def Let_def) simp
  moreover have "drop 8 ?bs @ take 8 ?bs = w" using assms by simp
  ultimately show ?thesis using assms by (simp add: uuid_to_wire_def)
qed

theorem uuid_roundtrip_witness:
  "uuid_to_wire (uuid_from_wire ''0123456789abcdef'') = Some ''0123456789abcdef''"
  by (rule uuid_roundtrip) simp

subsection \<open>Serialized messages come back\<close>

lemma put_at_zeros:
  "at = length pre \<Longrightarrow>
   put_at (pre @ replicate n c) at s = pre @ s @ replicate (n - length s) c"
  by (simp add: put_at_def)

definition type_field :: "string \<Rightarrow> string" where
  "type_field t = map (\<lambda>i. if i < length t then t ! i else CHR '' '') [0..<32]"

definition uuid_field :: "string \<Rightarrow> string" where
  "uuid_field t = (case uuid_to_wire t of None \<Rightarrow> replicate 16 CHR 0x00 | Some w \<Rightarrow> w)"

lemma length_uuid_field [simp]: "length (uuid_field t) = 16"
  by (auto simp: uuid_field_def uuid_to_wire_def split: option.splits if_splits)

lemma length_type_field [simp]: "length (type_field t) = 32"
  by (simp add: type_field_def)

lemma serialize_layout:
  assumes "\<And>s. length (sha256 s) = 32"
  shows "serialize sha256 m =
    be_bytes 4 (116 :: u32) @ type_field (am_message_type m) @ be_bytes 4 (am_schema_version m) @
    be_bytes 8 (am_created_ms m) @ be_bytes 8 (of_int (am_sequence m) :: u64) @ be_bytes 8 (am_flags m) @
    uuid_field (am_message_id m) @ sha256 (am_payload m) @ be_bytes 4 (am_payload_type m) @
    be_bytes 4 (of_nat (length (am_payload m)) :: u32) @ am_payload m"
proof -
  have z: "put_at (replicate n c) 0 s = s @ replicate (n - length s) c" for n c s
    by (simp add: put_at_def)
  have z': "at = length pre \<Longrightarrow>
      put_at (pre @ replicate n c) at s = (pre @ s) @ replicate (n - length s) c" for at pre n c s
    by (simp add: put_at_zeros)
  have "serialize sha256 m =
    (((((((((be_bytes 4 (116 :: u32) @ type_field (am_message_type m)) @ be_bytes 4 (am_schema_version m)) @
    be_bytes 8 (am_created_ms m)) @ be_bytes 8 (of_int (am_sequence m) :: u64)) @ be_bytes 8 (am_flags m)) @
    uuid_field (am_message_id m)) @ sha256 (am_payload m)) @ be_bytes 4 (am_payload_type m)) @
    be_bytes 4 (of_nat (length (am_payload m)) :: u32)) @ am_payload m"
    unfolding serialize_def Let_def type_field_def [symmetric] uuid_field_def [symmetric]
      put_u32_def put_u64_def
    by (simp add: z z' assms del: append_assoc)
  then show ?thesis by simp
qed

lemma rstrip_type_field:
  assumes "length t \<le> 32" and "t = [] \<or> last t \<noteq> CHR '' '' \<and> last t \<noteq> CHR 0x00"
  shows "rstrip_pad (type_field t) = t"
proof -
  have tf: "type_field t = t @ replicate (32 - length t) CHR '' ''"
    by (rule nth_equalityI) (use assms(1) in \<open>auto simp: type_field_def nth_append\<close>)
  have dw: "P c \<Longrightarrow> dropWhile P (replicate n c @ r) = dropWhile P r" for P n c and r :: string
    by (induction n) auto
  show ?thesis
    using assms(2) unfolding tf rstrip_pad.simps
    by (cases t rule: rev_cases) (auto simp: dw dropWhile_eq_Nil_conv)
qed

text \<open>The messages the agent builds: a type that fits its field, a canonical UUID, an
  \<open>int64_t\<close> sequence number.\<close>

definition message_ok :: "agent_message \<Rightarrow> bool" where
  "message_ok m \<longleftrightarrow>
     length (am_message_type m) \<le> 32 \<and>
     (am_message_type m = [] \<or> last (am_message_type m) \<notin> {CHR '' '', CHR 0x00}) \<and>
     - (2 ^ 63) \<le> am_sequence m \<and> am_sequence m < 2 ^ 63 \<and>
     (case uuid_to_wire (am_message_id m) of None \<Rightarrow> False | Some w \<Rightarrow> uuid_from_wire w = am_message_id m)"

lemma sint_of_int64: "- (2 ^ 63) \<le> i \<Longrightarrow> i < 2 ^ 63 \<Longrightarrow> sint (of_int i :: u64) = i"
  by (simp add: signed_of_int signed_take_bit_int_eq_self)

text \<open>
  C15: every well-formed message survives the wire: \<open>deserialize\<close> recovers each
  field, the payload included, from what \<open>serialize\<close> wrote, with any 32-byte digest.
\<close>

theorem serialize_roundtrip:
  assumes "message_ok m" and "\<forall>s. length (sha256 s) = 32"
  shows "deserialize (serialize sha256 m) = Got m"
proof -
  have sha: "length (sha256 s) = 32" for s using assms(2) by simp
  note lay = serialize_layout [of sha256, OF sha, of m]
  let ?s = "serialize sha256 m"
  have "length ?s = 120 + length (am_payload m)" unfolding lay by (simp add: sha)
  moreover have "get_u32 ?s 0 = 116"
    unfolding get_u32_def lay by (rule be32.read_field [where pre = "[]", simplified append_Nil]) simp
  moreover have "rstrip_pad (take 32 (drop 4 ?s)) = am_message_type m"
    unfolding lay using assms(1) by (simp add: rstrip_type_field message_ok_def)
  moreover have "get_u32 ?s 36 = am_schema_version m"
    unfolding get_u32_def lay by simp
  moreover have "get_u64 ?s 40 = am_created_ms m"
    unfolding get_u64_def lay by simp
  moreover have "get_u64 ?s 48 = of_int (am_sequence m)"
    unfolding get_u64_def lay by simp
  moreover have "get_u64 ?s 56 = am_flags m"
    unfolding get_u64_def lay by simp
  moreover have "take 16 (drop 64 ?s) = uuid_field (am_message_id m)"
    unfolding lay by simp
  moreover have "uuid_from_wire (uuid_field (am_message_id m)) = am_message_id m"
    using assms(1) by (auto simp: message_ok_def uuid_field_def split: option.splits)
  moreover have "get_u32 ?s 112 = am_payload_type m"
    unfolding get_u32_def lay by (simp add: sha)
  moreover have "drop 120 ?s = am_payload m"
    unfolding lay by (simp add: sha)
  moreover have "sint (of_int (am_sequence m) :: u64) = am_sequence m"
    using assms(1) by (intro sint_of_int64) (simp_all add: message_ok_def)
  ultimately show ?thesis by (simp add: deserialize_def Let_def)
qed

theorem serialize_roundtrip_witness:
  "deserialize (serialize (\<lambda>_. replicate 32 CHR 0x00)
     \<lparr>am_message_type = ''acknowledge'', am_schema_version = 1, am_created_ms = 5, am_sequence = - 7, am_flags = 3,
      am_message_id = uuid_from_wire ''0123456789abcdef'', am_payload_type = 0, am_payload = ''{}''\<rparr>) =
   Got \<lparr>am_message_type = ''acknowledge'', am_schema_version = 1, am_created_ms = 5, am_sequence = - 7, am_flags = 3,
      am_message_id = uuid_from_wire ''0123456789abcdef'', am_payload_type = 0, am_payload = ''{}''\<rparr>"
  by (rule serialize_roundtrip) (simp_all add: message_ok_def, code_simp)

text \<open>
  C34: \<open>deserialize\<close> escapes by an exception exactly when the declared header length is
  one of the four largest 32-bit values: then \<open>header_len + 4\<close> wraps, the length check
  passes, and \<open>substr\<close> starts past the end.
\<close>

theorem deserialize_throws_iff:
  assumes "length raw < 2 ^ 32"
  shows "deserialize raw = Threw_out_of_range \<longleftrightarrow> 120 \<le> length raw \<and> 0xFFFFFFFC \<le> get_u32 raw 0"
proof -
  define h where "h = get_u32 raw 0"
  define n where "n = unat h"
  have n: "n < 2 ^ 32" unfolding n_def using unsigned_less [of h] by simp
  have h4: "unat (h + 4) = (n + 4) mod 2 ^ 32"
    unfolding n_def by (simp add: unat_word_ariths)
  have m: "(n + 4) mod 2 ^ 32 = (if n < 4294967292 then n + 4 else n - 4294967292)"
    using n by (auto simp: mod_if)
  have le: "0xFFFFFFFC \<le> h \<longleftrightarrow> 4294967292 \<le> n" by (simp add: word_le_nat_alt n_def)
  have lt: "h < 116 \<longleftrightarrow> n < 116" by (simp add: word_less_nat_alt n_def)
  have eq: "h = 116 \<longleftrightarrow> n = 116" unfolding n_def by (simp add: word_unat_eq_iff)
  show ?thesis
    unfolding deserialize_def h_def [symmetric] Let_def n_def [symmetric] le lt eq h4 m
    using n assms by auto
qed

theorem deserialize_throws_iff_witness:
  "deserialize (replicate 4 (chr_of 255) @ replicate 116 CHR 0x00) = Threw_out_of_range"
proof -
  let ?raw = "replicate 4 (chr_of 255) @ replicate 116 CHR 0x00"
  have "be_val (replicate 4 (chr_of 255)) = (0xFFFFFFFF :: u32)" by code_simp
  then have "get_u32 ?raw 0 = 0xFFFFFFFF" by (simp add: get_u32_def)
  then show ?thesis using deserialize_throws_iff [of ?raw] by simp
qed

end
