(* ===== verification/Http.thy ===== *)
theory Http
  imports Util
begin

text \<open>
  The HTTP client of \<open>src/src/http.cpp\<close>, from the request line to the decoded body. What
  the operating system, the name resolver and mbedTLS answer during one exchange is a
  \<open>peer\<close>: the outcome of each connection attempt, of the handshake and of each write, and
  the results of the successive reads. A read returns at most as many bytes as the buffer holds.

  The lemmas show that every loop ends, that a response of known length is delivered whole or
  reported as an error, and that a chunked body is decoded to the bytes the server sent however
  the network cuts the stream into reads.
\<close>

subsection \<open>Requests, responses and the peer\<close>

record request =
  req_method :: string
  req_tls :: bool
  req_host :: string
  req_port :: nat
  req_path :: string
  req_headers :: "(string \<times> string) list"
  req_body :: string
  req_timeout_ms :: int
  req_body_path :: string
  req_sink_path :: string

text \<open>The initializers of \<open>struct Request\<close>.\<close>

definition new_request :: request where
  "new_request = \<lparr>req_method = ''GET'', req_tls = True, req_host = [], req_port = 0,
     req_path = ''/'', req_headers = [], req_body = [], req_timeout_ms = 25000,
     req_body_path = [], req_sink_path = []\<rparr>"

text \<open>\<open>resp_sink\<close> holds the bytes written to the sink file.\<close>

record response =
  resp_status :: int
  resp_headers :: "(string, string) smap"
  resp_body :: string
  resp_sink_bytes :: nat
  resp_sink :: string
  resp_error :: string

definition new_response :: response where
  "new_response = \<lparr>resp_status = 0, resp_headers = [], resp_body = [], resp_sink_bytes = 0,
     resp_sink = [], resp_error = []\<rparr>"

definition resp_ok :: "response \<Rightarrow> bool" where
  "resp_ok r \<longleftrightarrow> resp_error r = [] \<and> 200 \<le> resp_status r \<and> resp_status r < 300"

datatype read_result = Data string | Eof | Timeout | ReadErr string

datatype addr_try = SocketErr string | ConnectErr string | Connected

record peer =
  gai_error :: "string option"
  addrs :: "addr_try list"
  seed_error :: "string option"
  tls_error :: "(string \<times> string) option"
  write_error :: "nat \<Rightarrow> string option"
  reads :: "read_result list"
  stat_error :: "string option"
  open_error :: "string option"
  file_size :: nat
  file_data :: string
  file_read_error :: "string option"
  sink_open_error :: "string option"
  sink_write_error :: "nat \<Rightarrow> string option"
  sink_flush_error :: "string option"

subsection \<open>Connecting\<close>

fun try_addrs :: "string \<Rightarrow> addr_try list \<Rightarrow> string option" where
  "try_addrs prev [] = Some (if prev = [] then ''connect failed'' else prev)"
| "try_addrs prev (Connected # as) = None"
| "try_addrs prev (SocketErr e # as) = try_addrs (''socket: '' @ e) as"
| "try_addrs prev (ConnectErr e # as) = try_addrs (''connect: '' @ e) as"

definition socket_connect :: "peer \<Rightarrow> string \<Rightarrow> string option" where
  "socket_connect p host =
     (case gai_error p of
        Some e \<Rightarrow> Some (''getaddrinfo('' @ host @ ''): '' @ e)
      | None \<Rightarrow> try_addrs [] (addrs p))"

text \<open>
  No connection is made without trust anchors; verification itself is mbedTLS. A failure names
  the call that failed and the library's text.
\<close>

definition tls_handshake :: "peer \<Rightarrow> string \<Rightarrow> string option" where
  "tls_handshake p pem =
     (case seed_error p of
        Some e \<Rightarrow> Some (''ctr_drbg_seed: '' @ e)
      | None \<Rightarrow> if pem = [] then Some ''no CA bundle configured'' else map_option (\<lambda>(call, e). call @ '': '' @ e) (tls_error p))"

subsection \<open>Reading\<close>

fun read_step :: "nat \<Rightarrow> read_result list \<Rightarrow> read_result \<times> read_result list" where
  "read_step k [] = (Eof, [])"
| "read_step k (Data s # rs) =
     (if s = [] then (Eof, rs)
      else if length s \<le> k then (Data s, rs)
      else (Data (take k s), Data (drop k s) # rs))"
| "read_step k (Eof # rs) = (Eof, rs)"
| "read_step k (Timeout # rs) = (Timeout, rs)"
| "read_step k (ReadErr e # rs) = (ReadErr e, rs)"

fun rsize :: "read_result list \<Rightarrow> nat" where
  "rsize [] = 0"
| "rsize (Data s # rs) = Suc (length s) + rsize rs"
| "rsize (_ # rs) = Suc (rsize rs)"

lemma read_step_Data:
  "read_step k rs = (Data s, rs') \<Longrightarrow> 0 < k \<Longrightarrow> s \<noteq> [] \<and> rsize rs' + length s \<le> rsize rs \<and> length s \<le> k"
  by (induction k rs rule: read_step.induct) (auto split: if_splits)

lemma read_step_less: "(Data s, rs') = read_step k rs \<Longrightarrow> 0 < k \<Longrightarrow> rsize rs' < rsize rs"
  using read_step_Data [of k rs s rs'] by (cases s) auto

definition read_failure :: "read_result \<Rightarrow> string" where
  "read_failure r = (case r of ReadErr e \<Rightarrow> (if e = [] then ''read timeout'' else e) | _ \<Rightarrow> ''read timeout'')"

definition crlf :: string where
  "crlf = [CHR 0x0D, CHR 0x0A]"

text \<open>The loop of \<open>read_headers\<close>: the error, or everything read so far.\<close>

function read_head :: "read_result list \<Rightarrow> string \<Rightarrow> (string \<times> string) + (string \<times> read_result list)" where
  "read_head rs buf =
     (if find_sub (crlf @ crlf) buf \<noteq> None then Inr (buf, rs)
      else case read_step 4096 rs of
        (Data s, rs') \<Rightarrow>
          (if 262144 < length (buf @ s) then Inl (''header block too large'', buf @ s)
           else read_head rs' (buf @ s))
      | (Eof, _) \<Rightarrow> Inl (''connection closed before headers completed'', buf)
      | (r, _) \<Rightarrow> Inl (read_failure r, buf))"
  by pat_completeness auto
termination
  by (relation "measure (\<lambda>(rs, buf). rsize rs)") (auto dest: read_step_less)

declare read_head.simps [simp del]

definition header_line :: "string \<Rightarrow> (string, string) smap \<Rightarrow> (string, string) smap" where
  "header_line l hs =
     (let line = (if l \<noteq> [] \<and> last l = CHR 0x0D then butlast l else l)
      in if line = [] then hs
         else case find_sub '':'' line of
           None \<Rightarrow> hs
         | Some colon \<Rightarrow> smap_put (lower (trim (take colon line))) (trim (drop (colon + 1) line)) hs)"

text \<open>The status line and the header lines; the error of a malformed status line.\<close>

definition parse_head :: "string \<Rightarrow> response \<Rightarrow> bool \<times> response" where
  "parse_head head resp =
     (case split head CHR 0x0A of
        [] \<Rightarrow> (False, resp\<lparr>resp_error := ''empty response''\<rparr>)
      | s # lines \<Rightarrow>
          (case find_sub '' '' s of
             None \<Rightarrow> (False, resp\<lparr>resp_error := ''malformed status line''\<rparr>)
           | Some sp \<Rightarrow>
               (True, resp\<lparr>resp_status := atoi (drop (sp + 1) s),
                           resp_headers := fold header_line lines (resp_headers resp)\<rparr>)))"

definition read_headers ::
    "read_result list \<Rightarrow> response \<Rightarrow> (bool \<times> response) \<times> string \<times> read_result list" where
  "read_headers rs resp =
     (case read_head rs [] of
        Inl (e, buf) \<Rightarrow> ((False, resp\<lparr>resp_error := e\<rparr>), buf, [])
      | Inr (buf, rs') \<Rightarrow>
          let e = the (find_sub (crlf @ crlf) buf)
          in (parse_head (take e buf) resp, drop (e + 4) buf, rs'))"

subsection \<open>The body\<close>

datatype sink = SinkBody | SinkFile | SinkFailed

definition open_sink :: "peer \<Rightarrow> string \<Rightarrow> response \<Rightarrow> sink \<times> response" where
  "open_sink p path resp =
     (if path = [] then (SinkBody, resp)
      else case sink_open_error p of
        Some e \<Rightarrow> (SinkFailed, resp\<lparr>resp_error := ''open('' @ path @ ''): '' @ e\<rparr>)
      | None \<Rightarrow> (SinkFile, resp))"

definition sink_append :: "peer \<Rightarrow> string \<Rightarrow> sink \<times> response \<Rightarrow> bool \<times> sink \<times> response" where
  "sink_append p data sr =
     (case sr of
        (SinkFailed, resp) \<Rightarrow> (False, SinkFailed, resp)
      | (SinkFile, resp) \<Rightarrow>
          (case sink_write_error p (resp_sink_bytes resp) of
             Some e \<Rightarrow> (False, SinkFailed, resp\<lparr>resp_error := ''short write to body file: '' @ e\<rparr>)
           | None \<Rightarrow> (True, SinkFile, resp\<lparr>resp_sink := resp_sink resp @ data,
                                          resp_sink_bytes := resp_sink_bytes resp + length data\<rparr>))
      | (SinkBody, resp) \<Rightarrow>
          (True, SinkBody, resp\<lparr>resp_body := resp_body resp @ data,
                                resp_sink_bytes := resp_sink_bytes resp + length data\<rparr>))"

definition sink_finish :: "peer \<Rightarrow> sink \<times> response \<Rightarrow> bool \<times> response" where
  "sink_finish p sr =
     (case sr of
        (SinkFailed, resp) \<Rightarrow> (False, resp)
      | (SinkFile, resp) \<Rightarrow>
          (case sink_flush_error p of
             Some e \<Rightarrow> (False, resp\<lparr>resp_error := ''flush body file: '' @ e\<rparr>)
           | None \<Rightarrow> (True, resp))
      | (SinkBody, resp) \<Rightarrow> (True, resp))"

text \<open>\<open>fill(want)\<close>: true, or false with the error it records (none at end of file).\<close>

function fill :: "nat \<Rightarrow> string \<Rightarrow> read_result list \<Rightarrow> (string option) \<times> string \<times> read_result list" where
  "fill want pending rs =
     (if want \<le> length pending then (None, pending, rs)
      else case read_step 65536 rs of
        (Data s, rs') \<Rightarrow> fill want (pending @ s) rs'
      | (Eof, rs') \<Rightarrow> (Some [], pending, rs')
      | (r, rs') \<Rightarrow> (Some (read_failure r), pending, rs'))"
  by pat_completeness auto
termination
  by (relation "measure (\<lambda>(want, pending, rs). rsize rs)") (auto dest: read_step_less)

declare fill.simps [simp del]

text \<open>What is recorded after a failed \<open>fill\<close>: its own error, else the given one.\<close>

definition fill_error :: "string \<Rightarrow> string \<Rightarrow> response \<Rightarrow> response" where
  "fill_error e dflt resp =
     (let err = (if e = [] then resp_error resp else e)
      in resp\<lparr>resp_error := (if err = [] then dflt else err)\<rparr>)"

text \<open>\<open>remaining\<close> bytes into the sink, from what is pending and then from the wire.\<close>

function drain ::
    "peer \<Rightarrow> string \<Rightarrow> nat \<Rightarrow> string \<Rightarrow> read_result list \<Rightarrow> sink \<times> response \<Rightarrow>
     bool \<times> string \<times> read_result list \<times> sink \<times> response" where
  "drain p dflt remaining pending rs sr =
     (if remaining = 0 then (True, pending, rs, sr)
      else let (f, pending', rs') = (if pending = [] then fill 1 pending rs else (None, pending, rs))
           in case f of
             Some e \<Rightarrow> (False, pending', rs', fst sr, fill_error e dflt (snd sr))
           | None \<Rightarrow>
               let n = min remaining (length pending');
                   (ok, sr') = sink_append p (take n pending') sr
               in if \<not> ok then (False, pending', rs', sr')
                  else drain p dflt (remaining - n) (drop n pending') rs' sr')"
  by pat_completeness auto

lemma fill_None: "fill want pending rs = (None, pending', rs') \<Longrightarrow> want \<le> length pending'"
proof (induction want pending rs rule: fill.induct)
  case (1 want pending rs)
  show ?case
  proof (cases "want \<le> length pending")
    case False
    with 1 show ?thesis
      by (auto simp: fill.simps [of want pending] split: read_result.splits prod.splits)
  qed (use 1 in \<open>simp add: fill.simps\<close>)
qed

lemma fill_shrinks:
  "fill want pending rs = (f, pending', rs') \<Longrightarrow>
   rsize rs' + length pending' \<le> rsize rs + length pending"
proof (induction want pending rs rule: fill.induct)
  case (1 want pending rs)
  show ?case
  proof (cases "want \<le> length pending")
    case True
    with 1 show ?thesis by (simp add: fill.simps)
  next
    case False
    obtain r rs1 where r: "read_step 65536 rs = (r, rs1)" by (cases "read_step 65536 rs")
    have mono: "rsize rs1 \<le> rsize rs" using r
      by (induction "65536 :: nat" rs rule: read_step.induct) (auto split: if_splits)
    show ?thesis
    proof (cases r)
      case (Data s)
      with r read_step_Data [of 65536 rs s rs1] have "rsize rs1 + length s \<le> rsize rs" by simp
      with 1 False r Data show ?thesis by (fastforce simp: fill.simps [of want pending])
    qed (use 1 False r mono in \<open>simp_all add: fill.simps [of want pending]\<close>)
  qed
qed

termination drain
proof (relation "measure (\<lambda>(p, d, remaining, pending, rs, sr). remaining)", goal_cases)
  case (2 p dflt remaining pending rs sr x f y pending' rs' n z ok sr')
  then have "1 \<le> length pending'"
    using fill_None [of 1 pending rs pending' rs'] by (cases "pending = []") (auto simp: Suc_le_eq)
  with 2 show ?case by simp
qed simp

declare drain.simps [simp del]

function find_crlf :: "string \<Rightarrow> read_result list \<Rightarrow> (string + nat) \<times> string \<times> read_result list" where
  "find_crlf pending rs =
     (case find_sub crlf pending of
        Some nl \<Rightarrow> (Inr nl, pending, rs)
      | None \<Rightarrow>
          (case fill (length pending + 1) pending rs of
             (Some e, pending', rs') \<Rightarrow> (Inl e, pending', rs')
           | (None, pending', rs') \<Rightarrow> find_crlf pending' rs'))"
  by pat_completeness auto
termination
proof (relation "measure (\<lambda>(pending, rs). rsize rs)", goal_cases)
  case (2 pending rs x y pending' rs')
  then have f: "fill (length pending + 1) pending rs = (None, pending', rs')" by simp
  have "length pending + 1 \<le> length pending'" by (rule fill_None [OF f])
  moreover have "rsize rs' + length pending' \<le> rsize rs + length pending"
    by (rule fill_shrinks [OF f])
  ultimately show ?case by simp
qed simp

declare find_crlf.simps [simp del]

lemma find_crlf_Inr:
  "find_crlf pending rs = (Inr nl, pending', rs') \<Longrightarrow>
   find_sub crlf pending' = Some nl \<and> nl + 2 \<le> length pending' \<and>
   rsize rs' + length pending' \<le> rsize rs + length pending"
proof (induction pending rs rule: find_crlf.induct)
  case (1 pending rs)
  show ?case
  proof (cases "find_sub crlf pending")
    case (Some k)
    with 1 find_sub_Some [OF Some] show ?thesis by (simp add: find_crlf.simps [of pending] crlf_def)
  next
    case None
    obtain f p1 rs1 where f: "fill (length pending + 1) pending rs = (f, p1, rs1)"
      by (cases "fill (length pending + 1) pending rs")
    with 1 None have "f = None" "find_crlf p1 rs1 = (Inr nl, pending', rs')"
      by (auto simp: find_crlf.simps [of pending] split: option.splits)
    with 1 None f fill_shrinks [OF f] show ?thesis by fastforce
  qed
qed

lemma drain_shrinks:
  "drain p dflt remaining pending rs sr = (ok, pending', rs', sr') \<Longrightarrow>
   rsize rs' + length pending' \<le> rsize rs + length pending"
proof (induction p dflt remaining pending rs sr arbitrary: ok pending' rs' sr' rule: drain.induct)
  case (1 p dflt remaining pending rs sr)
  show ?case
  proof (cases "remaining = 0")
    case True
    with 1 show ?thesis by (simp add: drain.simps)
  next
    case False
    obtain f p1 rs1 where f: "(if pending = [] then fill 1 pending rs else (None, pending, rs)) = (f, p1, rs1)"
      by (cases "if pending = [] then fill 1 pending rs else (None, pending, rs)")
    have le: "rsize rs1 + length p1 \<le> rsize rs + length pending"
      using f fill_shrinks [of 1 pending rs f p1 rs1] by (auto split: if_splits)
    define n where "n = min remaining (length p1)"
    obtain ok1 sr1 where a: "sink_append p (take n p1) sr = (ok1, sr1)"
      by (cases "sink_append p (take n p1) sr")
    show ?thesis
    proof (cases "f = None \<and> ok1")
      case True
      then have d: "drain p dflt (remaining - n) (drop n p1) rs1 sr1 = (ok, pending', rs', sr')"
        using "1.prems" False f a
        by (simp add: drain.simps [of _ _ remaining] Let_def n_def)
      have "rsize rs' + length pending' \<le> rsize rs1 + length (drop n p1)"
        by (rule "1.IH" [OF False f [symmetric] refl refl _ n_def a [symmetric] refl])
          (use True d in auto)
      with le show ?thesis by simp
    next
      case False
      then show ?thesis
        using "1.prems" \<open>remaining \<noteq> 0\<close> f a le
        by (auto simp: drain.simps [of _ _ remaining] Let_def n_def split: option.splits)
    qed
  qed
qed

text \<open>One chunk per round: the size line, the data, the line end after it.\<close>

function chunked_body ::
    "peer \<Rightarrow> string \<Rightarrow> read_result list \<Rightarrow> sink \<times> response \<Rightarrow> bool \<times> response" where
  "chunked_body p pending rs sr =
     (case find_crlf pending rs of
        (Inl e, _, _) \<Rightarrow> (False, fill_error e ''truncated chunked body'' (snd sr))
      | (Inr nl, p1, rs1) \<Rightarrow>
          let size = strtoul_16 (take nl p1); p2 = drop (nl + 2) p1
          in if size = 0 then sink_finish p sr
             else case drain p ''truncated chunk'' size p2 rs1 sr of
               (False, _, _, sr') \<Rightarrow> (False, snd sr')
             | (True, p3, rs3, sr3) \<Rightarrow>
                 (case fill 2 p3 rs3 of
                    (Some e, _, _) \<Rightarrow> (False, fill_error e ''truncated chunk'' (snd sr3))
                  | (None, p4, rs4) \<Rightarrow> chunked_body p (drop 2 p4) rs4 sr3))"
  by pat_completeness auto
termination
proof (relation "measure (\<lambda>(p, pending, rs, sr). rsize rs + length pending)", goal_cases)
  case (2 p pending rs sr x y nl p1 rs1 size p2 ok a p3 b rs3 sr3 f c p4 rs4)
  then have "find_crlf pending rs = (Inr nl, p1, rs1)"
    and d: "drain p ''truncated chunk'' size p2 rs1 sr = (True, p3, rs3, sr3)"
    and f: "fill 2 p3 rs3 = (None, p4, rs4)" and p2: "p2 = drop (nl + 2) p1"
    by simp_all
  from find_crlf_Inr [OF this(1)]
  have "nl + 2 \<le> length p1" "rsize rs1 + length p1 \<le> rsize rs + length pending" by auto
  moreover have "length p2 = length p1 - (nl + 2)" by (simp add: p2)
  ultimately have "rsize rs1 + length p2 + 2 \<le> rsize rs + length pending" by linarith
  with drain_shrinks [OF d] fill_shrinks [OF f] show ?case by simp
qed simp

declare chunked_body.simps [simp del]

definition length_body ::
    "peer \<Rightarrow> nat \<Rightarrow> string \<Rightarrow> read_result list \<Rightarrow> sink \<times> response \<Rightarrow> bool \<times> response" where
  "length_body p want pending rs sr =
     (case drain p ''truncated body'' want pending rs sr of
        (False, _, _, sr') \<Rightarrow> (False, snd sr')
      | (True, _, _, sr') \<Rightarrow> sink_finish p sr')"

function eof_body :: "peer \<Rightarrow> read_result list \<Rightarrow> sink \<times> response \<Rightarrow> bool \<times> response" where
  "eof_body p rs sr =
     (case read_step 65536 rs of
        (Data s, rs') \<Rightarrow>
          (case sink_append p s sr of
             (False, sr') \<Rightarrow> (False, snd sr')
           | (True, sr') \<Rightarrow> eof_body p rs' sr')
      | (Eof, _) \<Rightarrow> sink_finish p sr
      | (r, _) \<Rightarrow> (False, (snd sr)\<lparr>resp_error := read_failure r\<rparr>))"
  by pat_completeness auto
termination
  by (relation "measure (\<lambda>(p, rs, sr). rsize rs)") (auto dest: read_step_less)

declare eof_body.simps [simp del]

definition is_chunked :: "response \<Rightarrow> bool" where
  "is_chunked resp =
     (case map_of (resp_headers resp) ''transfer-encoding'' of
        None \<Rightarrow> False
      | Some v \<Rightarrow> find_sub ''chunked'' (lower v) \<noteq> None)"

definition read_body ::
    "peer \<Rightarrow> string \<Rightarrow> read_result list \<Rightarrow> sink \<times> response \<Rightarrow> bool \<times> response" where
  "read_body p pending rs sr =
     (if fst sr = SinkFailed then (False, snd sr)
      else if is_chunked (snd sr) then chunked_body p pending rs sr
      else case map_of (resp_headers (snd sr)) ''content-length'' of
        Some v \<Rightarrow> length_body p (strtoul_10 v) pending rs sr
      | None \<Rightarrow>
          if pending = [] then eof_body p rs sr
          else case sink_append p pending sr of
            (False, sr') \<Rightarrow> (False, snd sr')
          | (True, sr') \<Rightarrow> eof_body p rs sr')"

subsection \<open>\<open>perform\<close>\<close>

text \<open>The bytes sent before a streamed file body; \<open>body_len\<close> is the announced length.\<close>

definition request_wire :: "request \<Rightarrow> nat \<Rightarrow> string" where
  "request_wire req body_len =
     req_method req @ '' '' @ req_path req @ '' HTTP/1.1'' @ crlf @
     ''Host: '' @ req_host req @ crlf @
     ''Connection: close'' @ crlf @
     concat (map (\<lambda>(k, v). k @ '': '' @ v @ crlf) (req_headers req)) @
     (if \<not> (\<exists>h \<in> set (req_headers req). lower (fst h) = ''content-length'') \<and>
         (0 < body_len \<or> req_method req = ''POST'' \<or> req_method req = ''PUT'')
      then ''Content-Length: '' @ show_nat body_len @ crlf else []) @
     crlf @ (if req_body_path req = [] then req_body req else [])"

text \<open>The file body is written in pieces of 64 KiB; the first failing write stops it.\<close>

fun write_pieces :: "(nat \<Rightarrow> string option) \<Rightarrow> nat \<Rightarrow> nat \<Rightarrow> string option" where
  "write_pieces we i 0 = None"
| "write_pieces we i (Suc n) = (case we i of Some e \<Rightarrow> Some e | None \<Rightarrow> write_pieces we (Suc i) n)"

definition send_request :: "peer \<Rightarrow> request \<Rightarrow> string option" where
  "send_request p req =
     (let prefixed = map_option (\<lambda>e. (if req_tls req then ''ssl_write: '' else ''send: '') @ e) in
      case write_error p 0 of
        Some e \<Rightarrow> prefixed (Some e)
      | None \<Rightarrow>
          if req_body_path req = [] then None
          else case write_pieces (write_error p) 1 ((length (file_data p) + 65535) div 65536) of
            Some e \<Rightarrow> prefixed (Some e)
          | None \<Rightarrow> map_option (\<lambda>e. ''read('' @ req_body_path req @ ''): '' @ e) (file_read_error p))"

definition http_perform :: "string \<Rightarrow> peer \<Rightarrow> request \<Rightarrow> response" where
  "http_perform pem p req =
     (let resp = new_response in
      case socket_connect p (req_host req) of
        Some e \<Rightarrow> resp\<lparr>resp_error := e\<rparr>
      | None \<Rightarrow>
      (case (if req_tls req then tls_handshake p pem else None) of
         Some e \<Rightarrow> resp\<lparr>resp_error := e\<rparr>
       | None \<Rightarrow>
      (case (if req_body_path req = [] then None
             else case stat_error p of
               Some e \<Rightarrow> Some (''body file '' @ req_body_path req @ '': '' @ e)
             | None \<Rightarrow> map_option (\<lambda>e. ''open('' @ req_body_path req @ ''): '' @ e) (open_error p)) of
         Some e \<Rightarrow> resp\<lparr>resp_error := e\<rparr>
       | None \<Rightarrow>
      (case send_request p req of
         Some e \<Rightarrow> resp\<lparr>resp_error := e\<rparr>
       | None \<Rightarrow>
           let ((ok, resp1), pending, rs) = read_headers (reads p) resp
           in if \<not> ok then resp1
              else let stream_ok = 200 \<le> resp_status resp1 \<and> resp_status resp1 < 300;
                       sr = open_sink p (if stream_ok then req_sink_path req else []) resp1
                   in snd (read_body p pending rs sr)))))"

text \<open>The announced body length: the size of the file, or of the body in memory.\<close>

definition body_length :: "peer \<Rightarrow> request \<Rightarrow> nat" where
  "body_length p req = (if req_body_path req = [] then length (req_body req) else file_size p)"

definition sent_bytes :: "peer \<Rightarrow> request \<Rightarrow> string" where
  "sent_bytes p req =
     request_wire req (body_length p req) @ (if req_body_path req = [] then [] else file_data p)"

subsection \<open>The bytes on their way\<close>

text \<open>What the peer still delivers before its stream ends or fails.\<close>

fun avail :: "read_result list \<Rightarrow> string" where
  "avail (Data s # rs) = (if s = [] then [] else s @ avail rs)"
| "avail _ = []"

lemma read_step_avail:
  "avail rs \<noteq> [] \<Longrightarrow> 0 < k \<Longrightarrow>
   \<exists>s rs'. read_step k rs = (Data s, rs') \<and> avail rs = s @ avail rs'"
  by (induction k rs rule: read_step.induct) auto

lemma fill_avail:
  "want \<le> length (pending @ avail rs) \<Longrightarrow>
   \<exists>p' rs'. fill want pending rs = (None, p', rs') \<and> p' @ avail rs' = pending @ avail rs \<and>
            want \<le> length p'"
proof (induction want pending rs rule: fill.induct)
  case (1 want pending rs)
  show ?case
  proof (cases "want \<le> length pending")
    case True
    then show ?thesis by (simp add: fill.simps)
  next
    case False
    with "1.prems" have "avail rs \<noteq> []" by auto
    then obtain s rs' where r: "read_step 65536 rs = (Data s, rs')" "avail rs = s @ avail rs'"
      using read_step_avail [of rs 65536] by auto
    from "1.IH" [OF False r(1) [symmetric] refl] "1.prems" r
    show ?thesis by (simp add: fill.simps [of want pending] False)
  qed
qed

lemma drain_avail:
  "n \<le> length (pending @ avail rs) \<Longrightarrow>
   \<exists>p' rs'. drain p dflt n pending rs (SinkBody, resp) =
     (True, p', rs', SinkBody,
      resp\<lparr>resp_body := resp_body resp @ take n (pending @ avail rs),
           resp_sink_bytes := resp_sink_bytes resp + n\<rparr>) \<and>
     p' @ avail rs' = drop n (pending @ avail rs)"
proof (induction n arbitrary: pending rs resp rule: less_induct)
  case (less n)
  show ?case
  proof (cases "n = 0")
    case True
    then show ?thesis by (simp add: drain.simps)
  next
    case False
    obtain p1 rs1 where f: "(if pending = [] then fill 1 pending rs else (None, pending, rs)) = (None, p1, rs1)"
      and p1: "p1 @ avail rs1 = pending @ avail rs" "p1 \<noteq> []"
      using fill_avail [of 1 pending rs] less.prems False by (cases "pending = []") fastforce+
    define k where "k = min n (length p1)"
    have k: "0 < k" "k \<le> n" "k \<le> length p1" using False p1 by (auto simp: k_def)
    let ?r = "resp\<lparr>resp_body := resp_body resp @ take k p1,
                   resp_sink_bytes := resp_sink_bytes resp + k\<rparr>"
    have d: "drain p dflt n pending rs (SinkBody, resp) =
        drain p dflt (n - k) (drop k p1) rs1 (SinkBody, ?r)"
      using False f k by (simp add: drain.simps [of _ _ n] sink_append_def Let_def k_def [symmetric])
    have c: "drop k p1 @ avail rs1 = drop k (pending @ avail rs)"
      using k p1 by (metis append_eq_append_conv_if drop_append diff_is_0_eq' drop0)
    have "n - k \<le> length (drop k p1 @ avail rs1)" using less.prems k unfolding c by simp
    with less.IH [of "n - k" "drop k p1" rs1 ?r] k
    obtain p' rs' where "drain p dflt (n - k) (drop k p1) rs1 (SinkBody, ?r) =
        (True, p', rs', SinkBody, ?r\<lparr>resp_body := resp_body ?r @ take (n - k) (drop k p1 @ avail rs1),
           resp_sink_bytes := resp_sink_bytes ?r + (n - k)\<rparr>)"
      "p' @ avail rs' = drop (n - k) (drop k p1 @ avail rs1)" by auto
    moreover have "take k p1 @ take (n - k) (drop k p1 @ avail rs1) = take n (pending @ avail rs)"
    proof -
      have "take k p1 = take k (pending @ avail rs)" using k p1 by (metis take_append diff_is_0_eq' take0 append_Nil2)
      then show ?thesis unfolding c using k by (metis take_add le_add_diff_inverse)
    qed
    moreover have "drop (n - k) (drop k p1 @ avail rs1) = drop n (pending @ avail rs)"
      unfolding c drop_drop using k(2) by (simp only: le_add_diff_inverse2)
    ultimately show ?thesis unfolding d using k by simp
  qed
qed

lemma prefix_take: "p @ a = l @ r \<Longrightarrow> length l \<le> length p \<Longrightarrow> take (length l) p = l"
  by (metis append_eq_conv_conj append_take_drop_id take_append diff_is_0_eq take0 append_Nil2)

text \<open>A line end is found at the same place in every prefix that holds it.\<close>

lemma find_crlf_prefix:
  assumes "find_sub crlf p' = Some k" and "p' @ t = line @ crlf @ rest" and "CHR 0x0D \<notin> set line"
  shows "k = length line"
proof -
  from find_sub_Some [OF assms(1)]
  have k: "k + 2 \<le> length p'" "take 2 (drop k p') = crlf"
    by (simp_all add: crlf_def numeral_2_eq_2)
  have nth: "(line @ crlf @ rest) ! i = p' ! i" if "i < length p'" for i
    using that assms(2) by (metis nth_append)
  have "p' ! k = CHR 0x0D" using k by (metis crlf_def hd_drop_conv_nth hd_take list.sel(1) add_leD1
      less_le_trans zero_less_numeral add_less_cancel_left le_less_trans less_add_same_cancel1)
  then have "\<not> k < length line" using nth [of k] k assms(3) by (auto simp: nth_append in_set_conv_nth)
  moreover have "\<not> length line < k"
  proof
    assume lt: "length line < k"
    have "take 2 (drop (length line) p') = crlf"
    proof (rule nth_equalityI)
      show "length (take 2 (drop (length line) p')) = length crlf" using k lt by (simp add: crlf_def)
      fix i assume "i < length (take 2 (drop (length line) p'))"
      then have i: "i = 0 \<or> i = 1" "length line + i < length p'" using k lt by auto
      have "(line @ crlf @ rest) ! (length line + i) = crlf ! i" using i(1) by (auto simp: crlf_def)
      with nth [OF i(2)] i show "take 2 (drop (length line) p') ! i = crlf ! i" by auto
    qed
    with find_sub_first [OF assms(1) lt] show False by (simp add: crlf_def numeral_2_eq_2)
  qed
  ultimately show ?thesis by simp
qed

lemma find_crlf_avail:
  assumes "pending @ avail rs = line @ crlf @ rest" and "CHR 0x0D \<notin> set line"
  shows "\<exists>p' rs'. find_crlf pending rs = (Inr (length line), p', rs') \<and>
                  p' @ avail rs' = line @ crlf @ rest \<and> length line + 2 \<le> length p'"
  using assms
proof (induction pending rs rule: find_crlf.induct)
  case (1 pending rs)
  show ?case
  proof (cases "find_sub crlf pending")
    case (Some k)
    with find_crlf_prefix [OF Some "1.prems"] find_sub_Some [OF Some] "1.prems"
    show ?thesis by (simp add: find_crlf.simps crlf_def)
  next
    case None
    have "length pending < length (pending @ avail rs)"
    proof (rule ccontr)
      assume "\<not> ?thesis"
      then have "avail rs = []" by simp
      with "1.prems" have "pending = line @ crlf @ rest" by simp
      with None show False
        by (auto simp: find_sub_None crlf_def dest!: spec [of _ "length line"])
    qed
    then obtain p1 rs1 where f: "fill (length pending + 1) pending rs = (None, p1, rs1)"
      "p1 @ avail rs1 = pending @ avail rs"
      using fill_avail [of "length pending + 1" pending rs] by (fastforce simp: Suc_le_eq)
    from "1.IH" [OF None f(1) [symmetric] refl refl] f "1.prems"
    show ?thesis by (simp add: find_crlf.simps [of pending] None)
  qed
qed

subsection \<open>Chunked bodies\<close>

text \<open>A chunk: its size line (extensions included) and its data.\<close>

definition chunk_ok :: "string \<times> string \<Rightarrow> bool" where
  "chunk_ok c \<longleftrightarrow> CHR 0x0D \<notin> set (fst c) \<and> strtoul_16 (fst c) = length (snd c) \<and> snd c \<noteq> []"

definition chunked_wire :: "(string \<times> string) list \<Rightarrow> string \<Rightarrow> string" where
  "chunked_wire cs end =
     concat (map (\<lambda>(l, d). l @ crlf @ d @ crlf) cs) @ ''0'' @ crlf @ end"

lemma chunked_body_avail:
  assumes "\<forall>c \<in> set cs. chunk_ok c" and "pending @ avail rs = chunked_wire cs trailer"
  shows "chunked_body p pending rs (SinkBody, resp) =
    (True, resp\<lparr>resp_body := resp_body resp @ concat (map snd cs),
                resp_sink_bytes := resp_sink_bytes resp + length (concat (map snd cs))\<rparr>)"
  using assms
proof (induction cs arbitrary: pending rs resp)
  case Nil
  then have "pending @ avail rs = ''0'' @ crlf @ trailer" by (simp add: chunked_wire_def)
  moreover have cr: "CHR 0x0D \<notin> set ''0''" by simp
  ultimately obtain p1 rs1 where f: "find_crlf pending rs = (Inr (length ''0''), p1, rs1)"
      "p1 @ avail rs1 = ''0'' @ crlf @ trailer" "length ''0'' + 2 \<le> length p1"
    using find_crlf_avail [OF _ cr] by blast
  have tk: "take (length ''0'') p1 = ''0''" by (rule prefix_take [OF f(2)]) (use f(3) in simp)
  have "strtoul_16 ''0'' = 0"
    by (simp add: strtoul_16_def cstr_def is_space_def hex_val_def hex_digits_val_def
        unsigned_result_def)
  then show ?case
    unfolding chunked_body.simps [of _ pending] f(1) using tk by (simp add: sink_finish_def Let_def)
next
  case (Cons c cs)
  obtain l d where c: "c = (l, d)" by (cases c)
  from Cons.prems have l: "CHR 0x0D \<notin> set l" "strtoul_16 l = length d" "d \<noteq> []"
    by (auto simp: c chunk_ok_def)
  let ?tail = "crlf @ chunked_wire cs trailer"
  have "pending @ avail rs = l @ crlf @ d @ ?tail"
    using Cons.prems by (simp add: chunked_wire_def c)
  with find_crlf_avail [OF _ l(1)] obtain p1 rs1 where
    f: "find_crlf pending rs = (Inr (length l), p1, rs1)"
      "p1 @ avail rs1 = l @ crlf @ d @ ?tail" "length l + 2 \<le> length p1" by blast
  have tk: "take (length l) p1 = l" by (rule prefix_take [OF f(2)]) (use f(3) in simp)
  have dr: "drop (length l + 2) p1 @ avail rs1 = d @ ?tail"
  proof -
    have "drop (length l + 2) p1 @ avail rs1 = drop (length l + 2) (p1 @ avail rs1)" using f(3) by simp
    also have "\<dots> = d @ ?tail" unfolding f(2) by (simp add: crlf_def)
    finally show ?thesis .
  qed
  let ?r = "resp\<lparr>resp_body := resp_body resp @ d, resp_sink_bytes := resp_sink_bytes resp + length d\<rparr>"
  obtain p3 rs3 where
    d: "drain p ''truncated chunk'' (length d) (drop (length l + 2) p1) rs1 (SinkBody, resp) =
        (True, p3, rs3, SinkBody, ?r)"
      "p3 @ avail rs3 = ?tail"
    using drain_avail [of "length d" "drop (length l + 2) p1" rs1 p "''truncated chunk''" resp]
    unfolding dr by auto
  obtain p4 rs4 where e: "fill 2 p3 rs3 = (None, p4, rs4)" "p4 @ avail rs4 = ?tail" "2 \<le> length p4"
    using fill_avail [of 2 p3 rs3] d(2) by (auto simp: crlf_def)
  have "drop 2 p4 @ avail rs4 = drop 2 (p4 @ avail rs4)" using e(3) by simp
  also have "\<dots> = chunked_wire cs trailer" unfolding e(2) by (simp add: crlf_def)
  finally have "chunked_body p (drop 2 p4) rs4 (SinkBody, ?r) =
    (True, ?r\<lparr>resp_body := resp_body ?r @ concat (map snd cs),
              resp_sink_bytes := resp_sink_bytes ?r + length (concat (map snd cs))\<rparr>)"
    using Cons.prems by (intro Cons.IH) auto
  then show ?case
    using f(1) d(1) e(1) l by (simp add: chunked_body.simps [of _ pending] tk Let_def c)
qed

text \<open>
  C19: a chunked body is delivered exactly: whatever the sizes of the reads that carry it,
  \<open>read_body\<close> succeeds and appends the concatenation of the chunks' data, and nothing of
  the size lines, the line ends or the trailer.
\<close>

theorem chunked_body_decoded:
  assumes "is_chunked resp" and "\<forall>c \<in> set cs. chunk_ok c"
    and "pending @ avail rs = chunked_wire cs trailer"
  shows "read_body p pending rs (SinkBody, resp) =
    (True, resp\<lparr>resp_body := resp_body resp @ concat (map snd cs),
                resp_sink_bytes := resp_sink_bytes resp + length (concat (map snd cs))\<rparr>)"
  using assms(1) chunked_body_avail [OF assms(2,3)] by (simp add: read_body_def)

definition sample_peer :: "string \<Rightarrow> peer" where
  "sample_peer text = \<lparr>gai_error = None, addrs = [Connected], seed_error = None, tls_error = None,
     write_error = (\<lambda>_. None), reads = [Data text], stat_error = None, open_error = None,
     file_size = 0, file_data = [], file_read_error = None, sink_open_error = None,
     sink_write_error = (\<lambda>_. None), sink_flush_error = None\<rparr>"

theorem chunked_body_decoded_witness:
  "read_body (sample_peer []) (''3'' @ [CHR 0x0D]) [Data ([CHR 0x0A] @ ''ab''), Data (''c'' @ crlf @ ''0'' @ crlf @ crlf)]
     (SinkBody, new_response\<lparr>resp_headers := [(''transfer-encoding'', ''chunked'')]\<rparr>) =
   (True, new_response\<lparr>resp_headers := [(''transfer-encoding'', ''chunked'')],
            resp_body := [] @ concat (map snd [(''3'', ''abc'')]),
            resp_sink_bytes := 0 + length (concat (map snd [(''3'', ''abc'')]))\<rparr>)"
proof -
  have "is_chunked (new_response\<lparr>resp_headers := [(''transfer-encoding'', ''chunked'')]\<rparr>)"
    by code_simp
  moreover have "\<forall>c \<in> set [(''3'', ''abc'')]. chunk_ok c"
    by (simp add: chunk_ok_def strtoul_16_def cstr_def is_space_def hex_val_def hex_digits_val_def
        unsigned_result_def)
  moreover have "(''3'' @ [CHR 0x0D]) @
      avail [Data ([CHR 0x0A] @ ''ab''), Data (''c'' @ crlf @ ''0'' @ crlf @ crlf)] =
      chunked_wire [(''3'', ''abc'')] crlf"
    by (simp add: chunked_wire_def crlf_def)
  ultimately show ?thesis
    using chunked_body_decoded
      [of "new_response\<lparr>resp_headers := [(''transfer-encoding'', ''chunked'')]\<rparr>" "[(''3'', ''abc'')]"
          "''3'' @ [CHR 0x0D]" _ _ "sample_peer []"]
    by (simp add: new_response_def)
qed

subsection \<open>Bodies of known length\<close>

lemma sink_append_ok:
  "sink_append p s sr = (True, sr') \<Longrightarrow>
   resp_sink_bytes (snd sr') = resp_sink_bytes (snd sr) + length s \<and>
   resp_error (snd sr') = resp_error (snd sr) \<and> resp_headers (snd sr') = resp_headers (snd sr) \<and>
   resp_status (snd sr') = resp_status (snd sr) \<and> fst sr' = fst sr \<and>
   (fst sr = SinkBody \<longrightarrow> resp_body (snd sr') = resp_body (snd sr) @ s) \<and>
   (fst sr = SinkFile \<longrightarrow> resp_sink (snd sr') = resp_sink (snd sr) @ s)"
  by (cases sr; cases "fst sr") (auto simp: sink_append_def split: option.splits)

lemma sink_append_headers:
  "sink_append p s sr = (ok, sr') \<Longrightarrow> resp_headers (snd sr') = resp_headers (snd sr)"
  by (cases sr; cases "fst sr") (auto simp: sink_append_def split: option.splits)

lemma sink_append_failed:
  "sink_append p s sr = (False, sr') \<Longrightarrow> fst sr \<noteq> SinkFailed \<Longrightarrow> resp_error (snd sr') \<noteq> []"
  by (cases sr; cases "fst sr") (auto simp: sink_append_def split: option.splits)

lemma fill_error_facts [simp]:
  "dflt \<noteq> [] \<Longrightarrow> resp_error (fill_error e dflt r) \<noteq> []"
  "resp_headers (fill_error e dflt r) = resp_headers r"
  by (simp_all add: fill_error_def Let_def)

lemma drain_headers:
  "drain p dflt n pending rs sr = (ok, pending', rs', sr') \<Longrightarrow>
   resp_headers (snd sr') = resp_headers (snd sr)"
proof (induction p dflt n pending rs sr arbitrary: ok pending' rs' sr' rule: drain.induct)
  case (1 p dflt n pending rs sr)
  show ?case
  proof (cases "n = 0")
    case True
    with 1 show ?thesis by (auto simp: drain.simps)
  next
    case n: False
    obtain f p1 rs1 where f: "(if pending = [] then fill 1 pending rs else (None, pending, rs)) = (f, p1, rs1)"
      by (cases "if pending = [] then fill 1 pending rs else (None, pending, rs)")
    define k where "k = min n (length p1)"
    obtain ok1 sr1 where a: "sink_append p (take k p1) sr = (ok1, sr1)"
      by (cases "sink_append p (take k p1) sr")
    note h = sink_append_headers [OF a]
    show ?thesis
    proof (cases "f = None \<and> ok1")
      case True
      then have d: "drain p dflt (n - k) (drop k p1) rs1 sr1 = (ok, pending', rs', sr')"
        using "1.prems" n f a by (simp add: drain.simps [of _ _ n] Let_def k_def)
      from "1.IH" [OF n f [symmetric] refl refl _ k_def a [symmetric] refl _ d] True h
      show ?thesis by auto
    next
      case False
      with "1.prems" n f a h show ?thesis
        by (auto simp: drain.simps [of _ _ n] Let_def k_def split: option.splits)
    qed
  qed
qed

lemma drain_facts:
  "drain p dflt n pending rs sr = (ok, pending', rs', sr') \<Longrightarrow> fst sr \<noteq> SinkFailed \<Longrightarrow> dflt \<noteq> [] \<Longrightarrow>
   (ok \<longrightarrow> resp_sink_bytes (snd sr') = resp_sink_bytes (snd sr) + n \<and>
      length (resp_body (snd sr')) + length (resp_sink (snd sr')) =
      length (resp_body (snd sr)) + length (resp_sink (snd sr)) + n) \<and>
   (\<not> ok \<longrightarrow> resp_error (snd sr') \<noteq> [])"
proof (induction p dflt n pending rs sr arbitrary: ok pending' rs' sr' rule: drain.induct)
  case (1 p dflt n pending rs sr)
  show ?case
  proof (cases "n = 0")
    case True
    with 1 show ?thesis by (auto simp: drain.simps)
  next
    case n: False
    obtain f p1 rs1 where f: "(if pending = [] then fill 1 pending rs else (None, pending, rs)) = (f, p1, rs1)"
      by (cases "if pending = [] then fill 1 pending rs else (None, pending, rs)")
    define k where "k = min n (length p1)"
    obtain ok1 sr1 where a: "sink_append p (take k p1) sr = (ok1, sr1)"
      by (cases "sink_append p (take k p1) sr")
    consider (err) e where "f = Some e" | (bad) "f = None" "\<not> ok1" | (good) "f = None" "ok1" by fastforce
    then show ?thesis
    proof cases
      case err
      with "1.prems" n f show ?thesis by (auto simp: drain.simps [of _ _ n] Let_def)
    next
      case bad
      with "1.prems" n f a sink_append_failed [of p "take k p1" sr sr1]
      show ?thesis by (auto simp: drain.simps [of _ _ n] Let_def k_def)
    next
      case good
      with a have sa: "sink_append p (take k p1) sr = (True, sr1)" by simp
      note s = sink_append_ok [OF sa]
      have len: "length (resp_body (snd sr1)) + length (resp_sink (snd sr1)) =
          length (resp_body (snd sr)) + length (resp_sink (snd sr)) + k"
        using sa "1.prems"(2)
        by (cases sr; cases "fst sr") (auto simp: sink_append_def k_def split: option.splits)
      have d: "drain p dflt (n - k) (drop k p1) rs1 sr1 = (ok, pending', rs', sr')"
        using "1.prems" n f a good by (simp add: drain.simps [of _ _ n] Let_def k_def)
      have ne: "fst sr1 \<noteq> SinkFailed" using s "1.prems" by auto
      have k: "length (take k p1) = k" "k \<le> n" by (simp_all add: k_def)
      from "1.IH" [OF n f [symmetric] refl refl good(1) k_def a [symmetric] refl _ d ne "1.prems"(3)] good s k len
      show ?thesis by auto
    qed
  qed
qed

lemma sink_finish_facts:
  "sink_finish p sr = (ok, r) \<Longrightarrow>
   resp_headers r = resp_headers (snd sr) \<and> resp_sink_bytes r = resp_sink_bytes (snd sr) \<and>
   resp_body r = resp_body (snd sr) \<and> resp_sink r = resp_sink (snd sr)"
  by (cases sr; cases "fst sr") (auto simp: sink_finish_def split: option.splits)

lemma chunked_body_headers:
  "resp_headers (snd (chunked_body p pending rs sr)) = resp_headers (snd sr)"
proof (induction p pending rs sr rule: chunked_body.induct)
  case (1 p pending rs sr)
  obtain c p1 rs1 where c: "find_crlf pending rs = (c, p1, rs1)" by (cases "find_crlf pending rs")
  show ?case
  proof (cases c)
    case (Inl e)
    with c show ?thesis by (simp add: chunked_body.simps [of _ pending])
  next
    case (Inr nl)
    show ?thesis
    proof (cases "strtoul_16 (take nl p1) = 0")
      case True
      obtain ok r where "sink_finish p sr = (ok, r)" by (cases "sink_finish p sr")
      with c Inr True sink_finish_facts [OF this] show ?thesis
        by (simp add: chunked_body.simps [of _ pending] Let_def)
    next
      case sz: False
      obtain ok p3 rs3 sr3 where d: "drain p ''truncated chunk'' (strtoul_16 (take nl p1))
          (drop (nl + 2) p1) rs1 sr = (ok, p3, rs3, sr3)"
        by (metis prod_cases4)
      note h = drain_headers [OF d]
      obtain f p4 rs4 where f: "fill 2 p3 rs3 = (f, p4, rs4)" by (cases "fill 2 p3 rs3")
      have IH: "ok \<Longrightarrow> f = None \<Longrightarrow>
          resp_headers (snd (chunked_body p (drop 2 p4) rs4 sr3)) = resp_headers (snd sr3)"
        using "1.IH" [OF c [symmetric] Inr refl refl refl sz d [symmetric] _ refl refl f [symmetric] _ refl]
        by simp
      have step: "chunked_body p pending rs sr =
          (if ok then (case f of Some e \<Rightarrow> (False, fill_error e ''truncated chunk'' (snd sr3))
                       | None \<Rightarrow> chunked_body p (drop 2 p4) rs4 sr3)
           else (False, snd sr3))"
        using c Inr sz d f by (simp add: chunked_body.simps [of _ pending] Let_def split: option.split)
      show ?thesis unfolding step using h IH by (simp split: option.split)
    qed
  qed
qed

lemma eof_body_headers: "resp_headers (snd (eof_body p rs sr)) = resp_headers (snd sr)"
proof (induction p rs sr rule: eof_body.induct)
  case (1 p rs sr)
  obtain r rs' where r: "read_step 65536 rs = (r, rs')" by (cases "read_step 65536 rs")
  show ?case
  proof (cases r)
    case (Data s)
    obtain ok sr' where a: "sink_append p s sr = (ok, sr')" by (cases "sink_append p s sr")
    show ?thesis
      using "1.IH" [OF r [symmetric] Data a [symmetric]] r Data a sink_append_headers [OF a]
      by (cases ok) (simp_all add: eof_body.simps [of _ rs])
  next
    case Eof
    obtain ok r' where "sink_finish p sr = (ok, r')" by (cases "sink_finish p sr")
    with r Eof sink_finish_facts [OF this] show ?thesis by (simp add: eof_body.simps [of _ rs])
  qed (use r in \<open>simp_all add: eof_body.simps [of _ rs]\<close>)
qed

lemma read_body_headers: "resp_headers (snd (read_body p pending rs sr)) = resp_headers (snd sr)"
proof -
  have l: "resp_headers (snd (length_body p n pending rs sr)) = resp_headers (snd sr)" for n
  proof -
    obtain ok p3 rs3 sr3 where d: "drain p ''truncated body'' n pending rs sr = (ok, p3, rs3, sr3)"
      by (metis prod_cases4)
    obtain ok' r where f: "sink_finish p sr3 = (ok', r)" by (cases "sink_finish p sr3")
    show ?thesis
      using d drain_headers [OF d] f sink_finish_facts [OF f] by (cases ok) (simp_all add: length_body_def)
  qed
  obtain ok sr' where a: "sink_append p pending sr = (ok, sr')" by (cases "sink_append p pending sr")
  show ?thesis
    using l a sink_append_headers [OF a]
    by (cases ok) (auto simp: read_body_def chunked_body_headers eof_body_headers split: option.split)
qed

lemma read_head_error: "read_head rs buf = Inl (e, buf') \<Longrightarrow> e \<noteq> []"
proof (induction rs buf rule: read_head.induct)
  case (1 rs buf)
  then show ?case
    by (auto simp: read_head.simps [of rs buf] read_failure_def
        split: if_splits prod.splits read_result.splits)
qed

lemma parse_head_facts:
  "parse_head h r = (ok, r') \<Longrightarrow>
   resp_body r' = resp_body r \<and> resp_sink r' = resp_sink r \<and> resp_sink_bytes r' = resp_sink_bytes r \<and>
   (\<not> ok \<longrightarrow> resp_error r' \<noteq> [])"
  by (auto simp: parse_head_def split: list.splits option.splits)

lemma read_headers_facts:
  "read_headers rs r = ((ok, r'), pending, rs') \<Longrightarrow>
   resp_body r' = resp_body r \<and> resp_sink r' = resp_sink r \<and> resp_sink_bytes r' = resp_sink_bytes r \<and>
   (\<not> ok \<longrightarrow> resp_error r' \<noteq> [])"
  by (auto simp: read_headers_def Let_def dest: read_head_error parse_head_facts
      split: sum.splits prod.splits)

lemma try_addrs_error: "try_addrs l as = Some e \<Longrightarrow> e \<noteq> []"
  by (induction l as rule: try_addrs.induct) (auto split: if_splits)

text \<open>
  C28: a body of announced length is never silently cut. When \<open>perform\<close> reports no error
  and the response carries \<open>Content-Length\<close> (and is not chunked), exactly that many bytes
  were delivered, to the body or to the sink file.
\<close>

theorem length_response_whole:
  assumes "r = http_perform pem p req" and "resp_error r = []" and "\<not> is_chunked r"
    and "map_of (resp_headers r) ''content-length'' = Some v"
  shows "resp_sink_bytes r = strtoul_10 v \<and>
         length (resp_body r) + length (resp_sink r) = strtoul_10 v"
proof -
  have c: "socket_connect p h = Some e \<Longrightarrow> e \<noteq> []" for h e
    by (auto simp: socket_connect_def dest: try_addrs_error split: option.splits)
  have t: "tls_handshake p pem = Some e \<Longrightarrow> e \<noteq> []" for e
    by (auto simp: tls_handshake_def split: option.splits if_splits)
  have w: "send_request p req = Some e \<Longrightarrow> e \<noteq> []" for e
    by (auto simp: send_request_def Let_def split: option.splits if_splits)
  obtain ok resp1 pending rs where h: "read_headers (reads p) new_response = ((ok, resp1), pending, rs)"
    by (metis prod.collapse)
  note hf = read_headers_facts [OF h]
  define path where "path = (if 200 \<le> resp_status resp1 \<and> resp_status resp1 < 300 then req_sink_path req else [])"
  obtain snk resp2 where o: "open_sink p path resp1 = (snk, resp2)" by (cases "open_sink p path resp1")
  have "ok \<and> r = snd (read_body p pending rs (snk, resp2))"
    using assms(1,2) c t w h hf o
    by (auto simp: http_perform_def Let_def path_def split: option.splits if_splits)
  then have r: "ok" "r = snd (read_body p pending rs (snk, resp2))" by auto
  have o2: "resp_headers resp2 = resp_headers resp1" "resp_body resp2 = []" "resp_sink resp2 = []"
    "resp_sink_bytes resp2 = 0" "snk = SinkFailed \<longrightarrow> resp_error resp2 \<noteq> []"
    using o hf by (auto simp: open_sink_def new_response_def split: if_splits option.splits)
  have hd: "resp_headers r = resp_headers resp2" using r(2) read_body_headers [of p pending rs] by simp
  then have "\<not> is_chunked resp2" "map_of (resp_headers resp2) ''content-length'' = Some v"
    using assms(3,4) by (simp_all add: is_chunked_def)
  moreover have "snk \<noteq> SinkFailed" using assms(2) r(2) o2 by (auto simp: read_body_def)
  ultimately have l: "r = snd (length_body p (strtoul_10 v) pending rs (snk, resp2))" and
    ns: "fst (snk, resp2) \<noteq> SinkFailed"
    using r(2) by (simp_all add: read_body_def)
  obtain ok3 p3 rs3 sr3 where d: "drain p ''truncated body'' (strtoul_10 v) pending rs (snk, resp2) =
      (ok3, p3, rs3, sr3)" by (metis prod_cases4)
  note df = drain_facts [OF d ns]
  have "ok3" using l d df assms(2) by (cases ok3) (auto simp: length_body_def)
  moreover obtain ok' r' where f: "sink_finish p sr3 = (ok', r')" by (cases "sink_finish p sr3")
  ultimately have "r = r'" using l d by (simp add: length_body_def)
  with df o2 sink_finish_facts [OF f] \<open>ok3\<close> show ?thesis by simp
qed

definition sample_reply :: string where
  "sample_reply = ''HTTP/1.1 200 OK'' @ crlf @ ''Content-Length: 2'' @ crlf @ crlf @ ''hi''"

lemma sample_reply_headers:
  "read_headers [Data sample_reply] new_response =
   ((True, new_response\<lparr>resp_status := 200, resp_headers := [(''content-length'', ''2'')]\<rparr>), ''hi'', [])"
proof -
  have f: "find_sub (crlf @ crlf) sample_reply = Some 34" by code_simp
  have l: "length sample_reply = 40" by code_simp
  have h: "read_head [Data sample_reply] [] = Inr (sample_reply, [])"
    by (simp add: read_head.simps [of _ sample_reply] read_head.simps [of _ "[]"] f l)
      (simp add: crlf_def sample_reply_def)
  have "take 34 sample_reply = ''HTTP/1.1 200 OK'' @ crlf @ ''Content-Length: 2''"
    and d: "drop 38 sample_reply = ''hi''" by code_simp+
  moreover have "parse_head (''HTTP/1.1 200 OK'' @ crlf @ ''Content-Length: 2'') new_response =
      (True, new_response\<lparr>resp_status := 200, resp_headers := [(''content-length'', ''2'')]\<rparr>)"
  proof -
    have s: "split (''HTTP/1.1 200 OK'' @ crlf @ ''Content-Length: 2'') CHR 0x0A =
        [''HTTP/1.1 200 OK'' @ [CHR 0x0D], ''Content-Length: 2'']"
      using split_sep [of "CHR 0x0A" "''HTTP/1.1 200 OK'' @ [CHR 0x0D]" "''Content-Length: 2''"]
      by (simp add: crlf_def split_no_sep)
    have "find_sub '' '' (''HTTP/1.1 200 OK'' @ [CHR 0x0D]) = Some 8" by code_simp
    moreover have "atoi (drop (8 + 1) (''HTTP/1.1 200 OK'' @ [CHR 0x0D])) = 200"
      by (simp add: atoi_def strtol_def cstr_def is_space_def is_digit_def digits_val_def
          digit_val_def clamp_long_def)
    moreover have "header_line ''Content-Length: 2'' [] = [(''content-length'', ''2'')]" by code_simp
    ultimately show ?thesis unfolding parse_head_def s by (simp add: new_response_def)
  qed
  ultimately show ?thesis by (simp add: read_headers_def h f d Let_def)
qed

theorem length_response_whole_witness:
  "resp_sink_bytes (http_perform [] (sample_peer sample_reply) (new_request\<lparr>req_tls := False\<rparr>)) = 2"
proof -
  define r where "r = http_perform [] (sample_peer sample_reply) (new_request\<lparr>req_tls := False\<rparr>)"
  have two: "strtoul_10 ''2'' = 2" 
    by (simp add: strtoul_10_def cstr_def is_space_def is_digit_def digits_val_def digit_val_def
        unsigned_result_def)
  have "r = new_response\<lparr>resp_status := 200, resp_headers := [(''content-length'', ''2'')],
      resp_body := ''hi'', resp_sink_bytes := 2\<rparr>"
    unfolding r_def
    by (simp add: http_perform_def sample_peer_def new_request_def socket_connect_def send_request_def
        sample_reply_headers Let_def open_sink_def read_body_def is_chunked_def length_body_def two
        drain.simps sink_append_def sink_finish_def)
      (simp add: new_response_def)
  then have "resp_error r = []" "\<not> is_chunked r" "map_of (resp_headers r) ''content-length'' = Some ''2''"
    by (simp_all add: new_response_def is_chunked_def)
  from length_response_whole [OF r_def this] two show ?thesis by (simp add: r_def)
qed

subsection \<open>A peer that answers one request\<close>

text \<open>For examples: \<open>200\<close> without headers, and a body that the end of the stream ends.\<close>

definition plain_head :: string where
  "plain_head = ''HTTP/1.1 200 OK'' @ crlf @ crlf"

definition plain_reply :: "string \<Rightarrow> peer" where
  "plain_reply body = (sample_peer [])\<lparr>reads := [Data plain_head, Data body]\<rparr>"

definition plain_response :: "string \<Rightarrow> string \<Rightarrow> response" where
  "plain_response sink_path body =
     (let r = new_response\<lparr>resp_status := 200, resp_sink_bytes := length body\<rparr> in
      if sink_path = [] then r\<lparr>resp_body := body\<rparr> else r\<lparr>resp_sink := body\<rparr>)"

lemma plain_reply_headers:
  "read_headers [Data plain_head, Data body] new_response =
   ((True, new_response\<lparr>resp_status := 200\<rparr>), [], [Data body])"
proof -
  have f: "find_sub (crlf @ crlf) plain_head = Some 15" by code_simp
  have l: "length plain_head = 19" by code_simp
  have h: "read_head [Data plain_head, Data body] [] = Inr (plain_head, [Data body])"
    by (simp add: read_head.simps [of _ plain_head] read_head.simps [of _ "[]"] f l)
      (simp add: crlf_def plain_head_def)
  have t: "take 15 plain_head = ''HTTP/1.1 200 OK''" by code_simp
  have "parse_head ''HTTP/1.1 200 OK'' new_response = (True, new_response\<lparr>resp_status := 200\<rparr>)"
  proof -
    have s: "split ''HTTP/1.1 200 OK'' CHR 0x0A = [''HTTP/1.1 200 OK'']"
      by (simp add: split_no_sep)
    have "find_sub '' '' ''HTTP/1.1 200 OK'' = Some 8" by code_simp
    moreover have "atoi (drop (8 + 1) ''HTTP/1.1 200 OK'') = 200"
      by (simp add: atoi_def strtol_def cstr_def is_space_def is_digit_def digits_val_def
          digit_val_def clamp_long_def)
    ultimately show ?thesis unfolding parse_head_def s by (simp add: new_response_def)
  qed
  then show ?thesis by (simp add: read_headers_def h f l t Let_def)
qed

lemma eof_body_one:
  assumes "length body \<le> 65536" and "sink_flush_error p = None" and "\<And>n. sink_write_error p n = None"
    and "sk \<noteq> SinkFailed"
  shows "snd (eof_body p [Data body] (sk, resp)) =
     (if sk = SinkBody then resp\<lparr>resp_body := resp_body resp @ body\<rparr> else resp\<lparr>resp_sink := resp_sink resp @ body\<rparr>)
       \<lparr>resp_sink_bytes := resp_sink_bytes resp + length body\<rparr>"
proof (cases "body = []")
  case True
  with assms show ?thesis
    by (subst eof_body.simps) (cases sk; simp add: sink_finish_def)
next
  case False
  with assms(1) have r: "read_step 65536 [Data body] = (Data body, [])" by simp
  have n: "snd (eof_body p [] (sk, x)) = x" for x
    using assms(2,4) by (subst eof_body.simps) (cases sk; simp add: sink_finish_def)
  show ?thesis
    using assms(3,4) n by (subst eof_body.simps) (cases sk; simp add: r sink_append_def del: read_step.simps)
qed

lemma plain_reply_perform:
  assumes "length body \<le> 65536" and "req_tls req \<longrightarrow> pem \<noteq> []" and "req_body_path req = []"
  shows "http_perform pem (plain_reply body) req = plain_response (req_sink_path req) body"
proof -
  let ?p = "plain_reply body" and ?r = "new_response\<lparr>resp_status := 200\<rparr>"
  have fields: "gai_error ?p = None" "addrs ?p = [Connected]" "seed_error ?p = None" "tls_error ?p = None"
    "write_error ?p n = None" "reads ?p = [Data plain_head, Data body]" "sink_open_error ?p = None"
    "sink_write_error ?p n = None" "sink_flush_error ?p = None" for n
    by (simp_all add: plain_reply_def sample_peer_def)
  have b: "snd (read_body ?p [] [Data body] (open_sink ?p (req_sink_path req) ?r)) =
      plain_response (req_sink_path req) body"
    using assms(1)
    by (simp add: read_body_def open_sink_def is_chunked_def eof_body_one fields new_response_def
        plain_response_def Let_def)
  show ?thesis
    using assms(2,3) b
    by (simp add: http_perform_def socket_connect_def send_request_def tls_handshake_def
        plain_reply_headers fields Let_def)
qed

end
