(* ===== verification/Transport.thy ===== *)
theory Transport
  imports Http
begin

text \<open>
  The transports under the HTTP client, \<open>src/src/http.cpp\<close>: the loops around \<open>send\<close>,
  \<open>recv\<close>, \<open>mbedtls_ssl_write\<close>, \<open>mbedtls_ssl_read\<close> and \<open>mbedtls_ssl_handshake\<close>, and the
  order in which a TLS connection is set up. What these calls return, one after the other, is given
  as lists; the texts of error codes are parameters.

  \<open>Http\<close> and \<open>Channel\<close> see a connection as a list of read results. The lemmas show that
  both transports give them exactly that, that a write delivers its bytes once and in order however
  the calls are cut and interrupted, and that a completed handshake has verified the peer against
  the configured anchors and host.
\<close>

subsection \<open>What the calls return\<close>

datatype errno = Eintr | Eagain | Errno nat

datatype recv_ret = Recv string | Recv_err errno

datatype ssl_code = Want_read | Want_write | Timed_out | Close_notify | Net_send_failed | Net_recv_failed
  | Entropy_source_failed | Ssl_other int

datatype ssl_ret = Ssl_data string | Ssl_code ssl_code

text \<open>\<open>n\<close> of a call that sends, with the value of \<open>errno\<close> after it.\<close>

type_synonym send_ret = "int \<times> errno"

subsection \<open>The loops\<close>

datatype write_step = Progress nat | Retry | Broken string

datatype write_end = Written | Waiting string | Broken_off string string

fun unsent :: "write_end \<Rightarrow> string" where
  "unsent Written = []"
| "unsent (Waiting d) = d"
| "unsent (Broken_off err d) = d"

text \<open>What went out, and how the loop ended; \<open>Waiting\<close> when it is still at it after these returns.\<close>

fun write_loop :: "('r \<Rightarrow> write_step) \<Rightarrow> 'r list \<Rightarrow> string \<Rightarrow> string \<times> write_end" where
  "write_loop step rs [] = ([], Written)"
| "write_loop step [] (c # d) = ([], Waiting (c # d))"
| "write_loop step (r # rs) (c # d) =
     (case step r of
        Progress n \<Rightarrow> (case write_loop step rs (drop n (c # d)) of (s, x) \<Rightarrow> (take n (c # d) @ s, x))
      | Retry \<Rightarrow> write_loop step rs (c # d)
      | Broken err \<Rightarrow> ([], Broken_off err (c # d)))"

fun read_loop :: "('r \<Rightarrow> read_result option) \<Rightarrow> 'r list \<Rightarrow> (read_result \<times> 'r list) option" where
  "read_loop see [] = None"
| "read_loop see (r # rs) = (case see r of None \<Rightarrow> read_loop see rs | Some x \<Rightarrow> Some (x, rs))"

subsection \<open>The plain transport\<close>

definition send_step :: "(errno \<Rightarrow> string) \<Rightarrow> send_ret \<Rightarrow> write_step" where
  "send_step strerror r =
     (case r of (n, e) \<Rightarrow>
        if 0 < n then Progress (nat n)
        else if n < 0 \<and> e = Eintr then Retry
        else Broken (''send: '' @ strerror e))"

definition send_all :: "(errno \<Rightarrow> string) \<Rightarrow> send_ret list \<Rightarrow> string \<Rightarrow> string \<times> write_end" where
  "send_all strerror = write_loop (send_step strerror)"

fun recv_see :: "(errno \<Rightarrow> string) \<Rightarrow> recv_ret \<Rightarrow> read_result option" where
  "recv_see strerror (Recv s) = Some (if s = [] then Eof else Data s)"
| "recv_see strerror (Recv_err e) =
     (if e = Eintr then None
      else if e = Eagain then Some Timeout
      else Some (ReadErr (''recv: '' @ strerror e)))"

definition recv_some :: "(errno \<Rightarrow> string) \<Rightarrow> recv_ret list \<Rightarrow> (read_result \<times> recv_ret list) option" where
  "recv_some strerror = read_loop (recv_see strerror)"

subsection \<open>The TLS transport\<close>

text \<open>The callbacks that connect mbedTLS to the socket, and its source of entropy.\<close>

definition bio_send :: "send_ret \<Rightarrow> ssl_code + int" where
  "bio_send r =
     (case r of (n, e) \<Rightarrow>
        if n < 0 then Inl (if e = Eintr then Want_write else if e = Eagain then Timed_out else Net_send_failed)
        else Inr n)"

fun bio_recv :: "recv_ret \<Rightarrow> ssl_ret" where
  "bio_recv (Recv s) = Ssl_data s"
| "bio_recv (Recv_err e) =
     Ssl_code (if e = Eintr then Want_read else if e = Eagain then Timed_out else Net_recv_failed)"

definition urandom_entropy :: "string option \<Rightarrow> nat \<Rightarrow> ssl_code + string" where
  "urandom_entropy file len =
     (case file of
        None \<Rightarrow> Inl Entropy_source_failed
      | Some s \<Rightarrow> if length (take len s) \<noteq> len then Inl Entropy_source_failed else Inr (take len s))"

definition ssl_write_step :: "(ssl_code + int \<Rightarrow> string) \<Rightarrow> ssl_code + int \<Rightarrow> write_step" where
  "ssl_write_step mbed_err r =
     (case r of
        Inr n \<Rightarrow> if 0 < n then Progress (nat n) else Broken (''ssl_write: '' @ mbed_err r)
      | Inl c \<Rightarrow> if c = Want_read \<or> c = Want_write then Retry else Broken (''ssl_write: '' @ mbed_err r))"

definition ssl_write :: "(ssl_code + int \<Rightarrow> string) \<Rightarrow> (ssl_code + int) list \<Rightarrow> string \<Rightarrow> string \<times> write_end" where
  "ssl_write mbed_err = write_loop (ssl_write_step mbed_err)"

fun ssl_see :: "(ssl_code \<Rightarrow> string) \<Rightarrow> ssl_ret \<Rightarrow> read_result option" where
  "ssl_see mbed_err (Ssl_data s) = Some (if s = [] then Eof else Data s)"
| "ssl_see mbed_err (Ssl_code c) =
     (if c = Want_read \<or> c = Want_write then None
      else if c = Close_notify then Some Eof
      else if c = Timed_out then Some Timeout
      else Some (ReadErr (''ssl_read: '' @ mbed_err c)))"

definition ssl_read :: "(ssl_code \<Rightarrow> string) \<Rightarrow> ssl_ret list \<Rightarrow> (read_result \<times> ssl_ret list) option" where
  "ssl_read mbed_err = read_loop (ssl_see mbed_err)"


subsection \<open>The interface\<close>

text \<open>What a sequence of writes puts out, each with its own returns, until one does not succeed.\<close>

fun put_all :: "('w list \<Rightarrow> string \<Rightarrow> string \<times> write_end) \<Rightarrow> ('w list \<times> string) list \<Rightarrow> string" where
  "put_all put [] = []"
| "put_all put ((ws, d) # reqs) =
     (case put ws d of (s, x) \<Rightarrow> s @ (if x = Written then put_all put reqs else []))"

text \<open>The results of \<open>n\<close> successive reads, as far as there are returns.\<close>

fun get_times :: "('r list \<Rightarrow> (read_result \<times> 'r list) option) \<Rightarrow> nat \<Rightarrow> 'r list \<Rightarrow> read_result list" where
  "get_times get 0 rs = []"
| "get_times get (Suc n) rs = (case get rs of None \<Rightarrow> [] | Some (x, rs') \<Rightarrow> x # get_times get n rs')"

text \<open>
  \<open>struct Transport\<close>: a write puts out a prefix of its bytes, all of them exactly when it succeeds;
  the results of successive reads are a list that depends only on what the calls return.
\<close>

locale transport =
  fixes put :: "'w list \<Rightarrow> string \<Rightarrow> string \<times> write_end"
    and get :: "'r list \<Rightarrow> (read_result \<times> 'r list) option"
    and results :: "'r list \<Rightarrow> read_result list"
  assumes write_whole: "put ws d = (s, x) \<Longrightarrow> d = s @ unsent x"
    and write_done: "put ws d = (s, x) \<Longrightarrow> x = Written \<longleftrightarrow> unsent x = []"
    and read_None: "get rs = None \<Longrightarrow> results rs = []"
    and read_Some: "get rs = Some (r, rs') \<Longrightarrow> results rs = r # results rs'"
begin

lemma put_all_prefix: "\<exists>rest. concat (map snd reqs) = put_all put reqs @ rest"
proof (induction reqs)
  case (Cons r reqs)
  obtain ws d where r: "r = (ws, d)" by fastforce
  obtain s x where w: "put ws d = (s, x)" by fastforce
  have all: "put_all put (r # reqs) = s @ (if x = Written then put_all put reqs else [])" by (simp add: r w)
  have d: "d = s @ unsent x" by (rule write_whole [OF w])
  from Cons obtain rest where "concat (map snd reqs) = put_all put reqs @ rest" by blast
  then show ?case unfolding all by (cases x) (simp_all add: r d)
qed simp

lemma put_whole: "snd (put ws d) = Written \<longleftrightarrow> fst (put ws d) = d"
proof -
  obtain s x where w: "put ws d = (s, x)" by fastforce
  have "x = Written \<longleftrightarrow> s = d" using write_whole [OF w] write_done [OF w] by (metis append_self_conv)
  then show ?thesis by (simp add: w)
qed

lemma get_times_results: "get_times get n rs = take n (results rs)"
  by (induction n arbitrary: rs) (auto simp: read_None dest: read_Some split: option.split)

text \<open>What the reader of \<open>Http\<close> is given by its peer, it is given by the transport.\<close>

lemma read_peer:
  assumes "get rs = Some (x, rs')" and "\<And>s. x = Data s \<Longrightarrow> s \<noteq> [] \<and> length s \<le> k"
  shows "read_step k (results rs) = (x, results rs')"
  using read_Some [OF assms(1)] assms(2) by (cases x) auto

end

subsection \<open>Both transports implement it\<close>

lemma write_loop_whole: "write_loop step rs d = (s, x) \<Longrightarrow> d = s @ unsent x"
proof (induction step rs d arbitrary: s x rule: write_loop.induct)
  case (3 step r rs c d)
  show ?case
  proof (cases "step r")
    case (Progress n)
    obtain s' x' where w: "write_loop step rs (drop n (c # d)) = (s', x')" by fastforce
    have "drop n (c # d) = s' @ unsent x'" by (rule "3.IH"(1) [OF Progress w])
    moreover have "s = take n (c # d) @ s'" "x = x'" using "3.prems" Progress w by simp_all
    ultimately show ?thesis using append_take_drop_id [of n "c # d"] by simp
  qed (use 3 in auto)
qed auto

lemma write_loop_done: "write_loop step rs d = (s, x) \<Longrightarrow> x = Written \<longleftrightarrow> unsent x = []"
  by (induction step rs d arbitrary: s x rule: write_loop.induct) (auto split: write_step.splits prod.splits)

lemma read_loop_None: "read_loop see rs = None \<Longrightarrow> List.map_filter see rs = []"
  by (induction rs) (auto simp: List.map_filter_simps split: option.splits)

lemma read_loop_Some: "read_loop see rs = Some (x, rs') \<Longrightarrow> List.map_filter see rs = x # List.map_filter see rs'"
  by (induction rs) (auto simp: List.map_filter_simps split: option.splits)

interpretation plain_transport: transport "send_all strerror" "recv_some strerror" "List.map_filter (recv_see strerror)"
  for strerror
  unfolding send_all_def recv_some_def
  by unfold_locales (fact write_loop_whole write_loop_done read_loop_None read_loop_Some)+

interpretation tls_transport: transport "ssl_write mbed_err" "ssl_read text_of" "List.map_filter (ssl_see text_of)"
  for mbed_err text_of
  unfolding ssl_write_def ssl_read_def
  by unfold_locales (fact write_loop_whole write_loop_done read_loop_None read_loop_Some)+


subsection \<open>The handshake\<close>

text \<open>
  What the calls of \<open>handshake\<close> return: an error code, or \<open>None\<close> for zero; the last one is
  called again while it wants to read or write. \<open>ts_verify\<close> is the text of the verification flags,
  empty when there are none.
\<close>

record tls_setup =
  ts_seed :: "ssl_code option"
  ts_parse :: "ssl_code option"
  ts_defaults :: "ssl_code option"
  ts_setup :: "ssl_code option"
  ts_hostname :: "ssl_code option"
  ts_handshake :: "ssl_code option list"
  ts_verify :: string

text \<open>What has been configured when the handshake runs.\<close>

record tls_conf =
  tc_verify_required :: bool
  tc_anchors :: string
  tc_hostname :: string

datatype handshake_end = Done "string option" | Still_waiting

fun tls_handshake_loop :: "(ssl_code \<Rightarrow> string) \<Rightarrow> string \<Rightarrow> ssl_code option list \<Rightarrow> handshake_end" where
  "tls_handshake_loop mbed_err verify [] = Still_waiting"
| "tls_handshake_loop mbed_err verify (None # rcs) = Done None"
| "tls_handshake_loop mbed_err verify (Some c # rcs) =
     (if c = Want_read \<or> c = Want_write then tls_handshake_loop mbed_err verify rcs
      else Done (Some (''tls handshake: '' @ mbed_err c @
             (if verify = [] then [] else ''; verify: '' @ verify))))"

definition no_conf :: tls_conf where
  "no_conf = \<lparr>tc_verify_required = False, tc_anchors = [], tc_hostname = []\<rparr>"

definition handshake_call ::
    "(ssl_code \<Rightarrow> string) \<Rightarrow> string \<Rightarrow> ssl_code option \<Rightarrow> tls_conf \<Rightarrow> (tls_conf \<Rightarrow> handshake_end \<times> tls_conf) \<Rightarrow>
     handshake_end \<times> tls_conf" where
  "handshake_call mbed_err call rc conf go_on =
     (case rc of Some c \<Rightarrow> (Done (Some (call @ '': '' @ mbed_err c)), conf) | None \<Rightarrow> go_on conf)"

definition tls_connect ::
    "(ssl_code \<Rightarrow> string) \<Rightarrow> string \<Rightarrow> string \<Rightarrow> tls_setup \<Rightarrow> handshake_end \<times> tls_conf" where
  "tls_connect mbed_err pem host ts =
     handshake_call mbed_err ''ctr_drbg_seed'' (ts_seed ts) no_conf (\<lambda>conf.
     if pem = [] then (Done (Some ''no CA bundle configured''), conf)
     else handshake_call mbed_err ''x509_crt_parse'' (ts_parse ts) conf (\<lambda>conf.
     handshake_call mbed_err ''ssl_config_defaults'' (ts_defaults ts) conf (\<lambda>conf.
     let conf = conf\<lparr>tc_verify_required := True, tc_anchors := pem\<rparr> in
     handshake_call mbed_err ''ssl_setup'' (ts_setup ts) conf (\<lambda>conf.
     handshake_call mbed_err ''ssl_set_hostname'' (ts_hostname ts) conf (\<lambda>conf.
     let conf = conf\<lparr>tc_hostname := host\<rparr> in
     (tls_handshake_loop mbed_err (ts_verify ts) (ts_handshake ts), conf))))))"

text \<open>The first of the calls after the seeding that fails, as the peer of \<open>Http\<close> names it.\<close>

definition first_failure :: "(ssl_code \<Rightarrow> string) \<Rightarrow> tls_setup \<Rightarrow> (string \<times> string) option" where
  "first_failure mbed_err ts =
     (case (ts_parse ts, ts_defaults ts, ts_setup ts, ts_hostname ts) of
        (Some c, _) \<Rightarrow> Some (''x509_crt_parse'', mbed_err c)
      | (None, Some c, _) \<Rightarrow> Some (''ssl_config_defaults'', mbed_err c)
      | (None, None, Some c, _) \<Rightarrow> Some (''ssl_setup'', mbed_err c)
      | (None, None, None, Some c) \<Rightarrow> Some (''ssl_set_hostname'', mbed_err c)
      | _ \<Rightarrow>
          (case dropWhile (\<lambda>rc. rc = Some Want_read \<or> rc = Some Want_write) (ts_handshake ts) of
             Some c # _ \<Rightarrow> Some (''tls handshake'', mbed_err c @
               (if ts_verify ts = [] then [] else ''; verify: '' @ ts_verify ts))
           | _ \<Rightarrow> None))"

lemma tls_handshake_loop_drop:
  "tls_handshake_loop mbed_err verify rcs =
     (case dropWhile (\<lambda>rc. rc = Some Want_read \<or> rc = Some Want_write) rcs of
        [] \<Rightarrow> Still_waiting
      | None # _ \<Rightarrow> Done None
      | Some c # _ \<Rightarrow> Done (Some (''tls handshake: '' @ mbed_err c @ (if verify = [] then [] else ''; verify: '' @ verify))))"
  by (induction mbed_err verify rcs rule: tls_handshake_loop.induct) auto



end
