(* ===== verification/Websocket.thy ===== *)
theory Websocket
  imports Http Mgs
begin

text \<open>
  The WebSocket frames of \<open>src/src/websocket.cpp\<close> (RFC 6455): building a masked client
  frame and taking one frame, of any kind, off the front of the receive buffer.

  The lemmas show that a frame is parsed back exactly, that a proper prefix of a frame asks for
  more bytes, and so that the receive loop returns the frames of a stream in order wherever the
  network cuts it.
\<close>

subsection \<open>Building and parsing frames\<close>

definition op_text :: byte where "op_text = 1"
definition op_binary :: byte where "op_binary = 2"
definition op_close :: byte where "op_close = 8"
definition op_ping :: byte where "op_ping = 9"
definition op_pong :: byte where "op_pong = 10"

lemmas op_defs = op_text_def op_binary_def op_close_def op_ping_def op_pong_def

definition max_frame_size :: nat where "max_frame_size = 1024 * 1024"

text \<open>\<open>s[i] ^ mask[i % 4]\<close> on every byte.\<close>

definition xor_mask :: "string \<Rightarrow> string \<Rightarrow> string" where
  "xor_mask key s =
     map (\<lambda>i. char_of_byte (byte_of (s ! i) XOR byte_of (key ! (i mod 4)))) [0..<length s]"

definition length_header :: "byte \<Rightarrow> nat \<Rightarrow> string" where
  "length_header mask_bit len =
     (let lw = (of_nat len :: u64)
      in if len < 126 then [char_of_byte (mask_bit OR of_nat len)]
         else if len \<le> 0xFFFF then
           [char_of_byte (mask_bit OR 126), char_of_byte (drop_bit 8 lw AND 0xFF),
            char_of_byte (lw AND 0xFF)]
         else char_of_byte (mask_bit OR 127) #
              map (\<lambda>k. char_of_byte (drop_bit (56 - 8 * k) lw AND 0xFF)) [0..<8])"

definition make_frame :: "byte \<Rightarrow> string \<Rightarrow> string \<Rightarrow> string" where
  "make_frame opcode payload key =
     char_of_byte (0x80 OR (opcode AND 0x0F)) # length_header 0x80 (length payload) @
     key @ xor_mask key payload"

text \<open>
  The outcomes 0, -1 and 1 of \<open>parse_frame\<close>; a frame carries its FIN bit, its opcode, its
  payload and the buffer from which it has been erased.
\<close>

datatype frame_result =
    NeedMore
  | BadFrame string
  | Frame bool byte string string

definition get_be :: "string \<Rightarrow> u64" where
  "get_be s = foldl (\<lambda>v c. push_bit 8 v OR of_nat (ord_of c)) 0 s"

definition parse_frame :: "string \<Rightarrow> frame_result" where
  "parse_frame buf =
     (if length buf < 2 then NeedMore
      else let b0 = byte_of (buf ! 0); b1 = byte_of (buf ! 1);
               fin = (b0 AND 0x80 \<noteq> 0)
           in if b0 AND 0x70 \<noteq> 0 then BadFrame ''reserved bits set (no extensions negotiated)''
              else let opcode = b0 AND 0x0F;
                       masked = (b1 AND 0x80 \<noteq> 0);
                       len7 = unat (b1 AND 0x7F);
                       hdr = (if len7 = 126 then 4 else if len7 = 127 then 10 else 2)
                   in if length buf < hdr then NeedMore
                      else let len = (if len7 = 126 \<or> len7 = 127
                                      then unat (get_be (take (hdr - 2) (drop 2 buf))) else len7)
                           in if max_frame_size < len
                              then BadFrame (''frame too large: '' @ show_nat len)
                              else if masked \<and> length buf < hdr + 4 then NeedMore
                              else let key = (if masked then take 4 (drop hdr buf) else replicate 4 CHR 0x00);
                                       at = (if masked then hdr + 4 else hdr)
                                   in if length buf < at + len then NeedMore
                                      else let data = take len (drop at buf)
                                           in Frame fin opcode
                                                (if masked then xor_mask key data else data)
                                                (drop (at + len) buf))"

definition accept_key_for :: "(string \<Rightarrow> string) \<Rightarrow> string \<Rightarrow> string" where
  "accept_key_for sha1 key = base64_encode (sha1 (key @ ''258EAFA5-E914-47DA-95CA-C5AB0DC85B11''))"

subsection \<open>Self-delimiting codes\<close>

text \<open>
  What the receive loops rely on: a decoder that finds exactly one encoded unit at the front of
  its buffer, asks for more on every proper prefix of one, and so returns the units in order
  wherever the stream is cut.
\<close>

locale framing =
  fixes enc :: "'u \<Rightarrow> 'b list"
    and dec :: "'b list \<Rightarrow> ('u \<times> 'b list) option"
    and good :: "'u \<Rightarrow> bool"
  assumes dec_enc: "good u \<Longrightarrow> dec (enc u @ r) = Some (u, r)"
    and dec_prefix: "good u \<Longrightarrow> length p < length (enc u) \<Longrightarrow> take (length p) (enc u) = p \<Longrightarrow> dec p = None"
    and dec_Nil: "dec [] = None"
    and enc_nonempty: "good u \<Longrightarrow> enc u \<noteq> []"
begin

text \<open>Take units off the buffer until it holds none.\<close>

fun units :: "nat \<Rightarrow> 'b list \<Rightarrow> 'u list \<times> 'b list" where
  "units 0 b = ([], b)"
| "units (Suc n) b =
     (case dec b of None \<Rightarrow> ([], b)
      | Some (u, r) \<Rightarrow> let (us, r') = units n r in (u # us, r'))"

text \<open>Feed the stream piece by piece, emptying the buffer after each piece.\<close>

fun feed :: "'b list \<Rightarrow> 'b list list \<Rightarrow> 'u list \<times> 'b list" where
  "feed b [] = ([], b)"
| "feed b (c # cs) =
     (let (us, r) = units (length (b @ c)) (b @ c); (vs, r') = feed r cs in (us @ vs, r'))"

lemma units_prefix:
  assumes "\<forall>u \<in> set us. good u" and "b @ t = concat (map enc us)" and "length b \<le> n"
  shows "\<exists>vs ws r. us = vs @ ws \<and> units n b = (vs, r) \<and> b = concat (map enc vs) @ r \<and>
           r @ t = concat (map enc ws) \<and> (ws = [] \<or> length r < length (enc (hd ws)))"
  using assms
proof (induction us arbitrary: b n)
  case Nil
  then show ?case by (cases n) (auto simp: dec_Nil)
next
  case (Cons u us)
  from Cons.prems(1) have gu: "good u" by simp
  show ?case
  proof (cases "length b < length (enc u)")
    case True
    have "take (length b) (enc u) = take (length b) (b @ t)" using True Cons.prems(2) by simp
    then have "dec b = None" using True dec_prefix [OF gu, of b] by simp
    then have "units n b = ([], b)" by (cases n) auto
    with True Cons.prems(2) show ?thesis
      by (intro exI [of _ "[]"] exI [of _ "u # us"] exI [of _ b]) auto
  next
    case False
    define b' where "b' = drop (length (enc u)) b"
    have "take (length (enc u)) (b @ t) = enc u" using Cons.prems(2) by simp
    then have b: "b = enc u @ b'" using False append_take_drop_id [of "length (enc u)" b]
      by (simp add: b'_def)
    obtain m where n: "n = Suc m" using Cons.prems(3) b enc_nonempty [OF gu] by (cases n) auto
    have "b' @ t = concat (map enc us)" using Cons.prems(2) unfolding b by simp
    moreover have "length b' \<le> m"
      using Cons.prems(3) enc_nonempty [OF gu] unfolding b n by (cases "enc u") auto
    ultimately obtain vs ws r where
      *: "us = vs @ ws" "units m b' = (vs, r)" "b' = concat (map enc vs) @ r"
        "r @ t = concat (map enc ws)" "ws = [] \<or> length r < length (enc (hd ws))"
      using Cons.IH [of b' m] Cons.prems(1) by auto
    then have "units n b = (u # vs, r)"
      unfolding n b using dec_enc [OF gu, of b'] by simp
    with * b show ?thesis by (intro exI [of _ "u # vs"] exI [of _ ws] exI [of _ r]) auto
  qed
qed

lemma feed_prefix:
  assumes "\<forall>u \<in> set us. good u" and "b @ concat cs = concat (map enc us)"
    and "us = [] \<or> length b < length (enc (hd us))"
  shows "feed b cs = (us, [])"
  using assms
proof (induction cs arbitrary: b us)
  case Nil
  have "us = []"
  proof (rule ccontr)
    assume "us \<noteq> []"
    then obtain u vs where "us = u # vs" by (cases us) auto
    with Nil show False by auto
  qed
  with Nil show ?case by simp
next
  case (Cons c cs)
  have "(b @ c) @ concat cs = concat (map enc us)" using Cons.prems(2) by simp
  from units_prefix [OF Cons.prems(1) this order_refl]
  obtain vs ws r where *: "us = vs @ ws" "units (length (b @ c)) (b @ c) = (vs, r)"
      "r @ concat cs = concat (map enc ws)" "ws = [] \<or> length r < length (enc (hd ws))" by blast
  then have "feed r cs = (ws, [])" using Cons.IH [of ws r] Cons.prems(1) by simp
  with * show ?case by simp
qed

lemma feed_stream:
  assumes "\<forall>u \<in> set us. good u" and "concat cs = concat (map enc us)"
  shows "feed [] cs = (us, [])"
proof (rule feed_prefix)
  show "us = [] \<or> length [] < length (enc (hd us))"
    using assms(1) enc_nonempty by (cases us) auto
qed (use assms in simp_all)

end

subsection \<open>Frames come back\<close>

text \<open>
  A frame on the wire, from either side: FIN bit, opcode, payload, and the masking key when the
  sender masks. \<open>key\<close> chooses it per frame.
\<close>

type_synonym ws_unit = "bool \<times> byte \<times> string"

definition wire_frame :: "(ws_unit \<Rightarrow> string option) \<Rightarrow> ws_unit \<Rightarrow> string" where
  "wire_frame key u =
     (case u of (fin, op, payload) \<Rightarrow>
        char_of_byte ((if fin then 0x80 else 0) OR op) #
        (case key u of
           None \<Rightarrow> length_header 0 (length payload) @ payload
         | Some k \<Rightarrow> length_header 0x80 (length payload) @ k @ xor_mask k payload))"

definition frame_good :: "(ws_unit \<Rightarrow> string option) \<Rightarrow> ws_unit \<Rightarrow> bool" where
  "frame_good key u \<longleftrightarrow>
     (case u of (fin, op, payload) \<Rightarrow> op AND 0x0F = op \<and> length payload \<le> max_frame_size) \<and>
     (case key u of None \<Rightarrow> True | Some k \<Rightarrow> length k = 4)"

definition frame_dec :: "string \<Rightarrow> (ws_unit \<times> string) option" where
  "frame_dec b = (case parse_frame b of Frame fin op p r \<Rightarrow> Some ((fin, op, p), r) | _ \<Rightarrow> None)"

lemma masked_word:
  fixes w x m :: "'a::len word"
  assumes "w AND m = w" and "x AND m = 0"
  shows "w AND x = 0" and "(x OR w) AND m = w" and "(x OR w) AND x = x"
proof -
  have "w AND x = (w AND m) AND x" by (simp only: assms(1))
  also have "\<dots> = w AND (x AND m)" by (simp only: and.assoc and.commute [of m x])
  also have "\<dots> = 0" by (simp add: assms(2))
  finally show *: "w AND x = 0" .
  show "(x OR w) AND m = w" using assms by (simp add: bit.conj_disj_distrib2)
  show "(x OR w) AND x = x" by (simp add: bit.conj_disj_distrib2 *)
qed

lemma seven_bits:
  assumes "w AND 0x7F = (w :: byte)" and "b = 0 \<or> b = 0x80"
  shows "(b OR w) AND 0x7F = w" and "(b OR w) AND 0x80 = b"
  using assms masked_word [of w "0x7F" "0x80"] by auto

lemma first_byte:
  assumes "op AND 0x0F = (op :: byte)" and "f = 0 \<or> f = 0x80"
  shows "(f OR op) AND 0x0F = op" and "(f OR op) AND 0x80 = f" and "(f OR op) AND 0x70 = 0"
proof -
  have "op AND 0x70 = 0" "op AND 0x80 = 0"
    using masked_word(1) [of op "0x0F" "0x70"] masked_word(1) [of op "0x0F" "0x80"] assms(1) by auto
  with assms show "(f OR op) AND 0x0F = op" "(f OR op) AND 0x80 = f" "(f OR op) AND 0x70 = 0"
    by (auto simp: bit.conj_disj_distrib2)
qed

lemma of_nat_seven_bits: "n < 128 \<Longrightarrow> (of_nat n :: byte) AND 0x7F = of_nat n"
proof -
  assume "n < 128"
  then have "take_bit 7 (of_nat n :: byte) = of_nat n"
    by (simp add: take_bit_of_nat take_bit_nat_eq_self)
  then show ?thesis by (simp add: take_bit_eq_mask mask_eq_exp_minus_1)
qed

lemma length_xor_mask [simp]: "length (xor_mask k s) = length s"
  by (simp add: xor_mask_def)

lemma xor_mask_twice [simp]: "xor_mask k (xor_mask k s) = s"
  by (rule nth_equalityI) (simp_all add: xor_mask_def xor.assoc)

text \<open>The header: its length, and what \<open>parse_frame\<close> reads from it.\<close>

definition header_size :: "nat \<Rightarrow> nat" where
  "header_size n = (if n < 126 then 1 else if n \<le> 0xFFFF then 3 else 9)"

lemma length_header_be:
  "length_header b n =
     (if n < 126 then [char_of_byte (b OR of_nat n)]
      else if n \<le> 0xFFFF then char_of_byte (b OR 126) # be_bytes 2 (of_nat n :: u64)
      else char_of_byte (b OR 127) # be_bytes 8 (of_nat n :: u64))"
proof -
  have "be_bytes 2 v = [char_of_byte (drop_bit 8 v AND 0xFF), char_of_byte (v AND 0xFF)]" for v :: u64
    by (simp add: be_bytes_def upt_rec)
  moreover have "be_bytes 8 v = map (\<lambda>k. char_of_byte (drop_bit (56 - 8 * k) v AND 0xFF)) [0..<8]" for v :: u64
    unfolding be_bytes_def by (rule map_cong) (auto simp: algebra_simps)
  ultimately show ?thesis by (simp add: length_header_def Let_def)
qed

lemma length_length_header [simp]: "length (length_header b n) = header_size n"
  by (simp add: length_header_be header_size_def)

lemma get_be_be_val: "get_be = be_val"
  by (rule ext) (simp add: get_be_def be_val_def)

lemma header_fields:
  assumes "b = 0 \<or> b = 0x80" and "n \<le> max_frame_size"
  defines "w \<equiv> byte_of (length_header b n ! 0)"
  shows "w AND 0x80 = b"
    and "unat (w AND 0x7F) = (if n < 126 then n else if n \<le> 0xFFFF then 126 else 127)"
    and "126 \<le> n \<Longrightarrow> unat (get_be (tl (length_header b n))) = n"
proof -
  have s: "(of_nat n :: byte) AND 0x7F = of_nat n" if "n < 126" using that by (intro of_nat_seven_bits) simp
  have k: "(126 :: byte) AND 0x7F = 126" "(127 :: byte) AND 0x7F = 127" by simp_all
  show "w AND 0x80 = b"
    using seven_bits(2) [OF s assms(1)] seven_bits(2) [OF k(1) assms(1)] seven_bits(2) [OF k(2) assms(1)]
    by (auto simp: w_def length_header_be)
  have u: "unat (of_nat n :: byte) = n" if "n < 126" using that by (simp add: unat_of_nat)
  show "unat (w AND 0x7F) = (if n < 126 then n else if n \<le> 0xFFFF then 126 else 127)"
    using seven_bits(1) [OF s assms(1)] seven_bits(1) [OF k(1) assms(1)] seven_bits(1) [OF k(2) assms(1)] u
    by (auto simp: w_def length_header_be)
  have n: "n < 2 ^ 64" using assms(2) by (simp add: max_frame_size_def)
  assume "126 \<le> n"
  then show "unat (get_be (tl (length_header b n))) = n"
    using n by (auto simp: length_header_be get_be_be_val be_val_be_bytes take_bit_of_nat
        unat_of_nat take_bit_nat_eq_self simp flip: take_bit_eq_mod)
qed

lemma nth_header: "(length_header b n @ t) ! 0 = length_header b n ! 0"
  by (simp add: length_header_def Let_def)

lemma prefix_take_drop:
  assumes "b @ t = w @ r" and "i + j \<le> length b"
  shows "take j (drop i b) = take j (drop i (w @ r))"
proof -
  have "take j (drop i (b @ t)) = take j (drop i b)" using assms(2) by simp
  then show ?thesis using assms(1) by simp
qed

lemma length_wire_frame:
  assumes "frame_good key (fin, op, p)"
  shows "length (wire_frame key (fin, op, p)) =
    1 + header_size (length p) + (if key (fin, op, p) = None then 0 else 4) + length p"
  using assms by (auto simp: wire_frame_def frame_good_def split: option.splits)

text \<open>What \<open>parse_frame\<close> does on any prefix of a stream that starts with a frame.\<close>

lemma parse_frame_prefix:
  assumes "frame_good key (fin, op, p)" and "b @ t = wire_frame key (fin, op, p) @ r"
  shows "parse_frame b =
    (if length b < length (wire_frame key (fin, op, p)) then NeedMore
     else Frame fin op p (drop (length (wire_frame key (fin, op, p))) b))"
proof (cases "length b < 2")
  case True
  with length_wire_frame [OF assms(1)] show ?thesis
    by (simp add: parse_frame_def header_size_def split: if_splits)
next
  case False
  define mb :: byte where "mb = (case key (fin, op, p) of None \<Rightarrow> 0 | Some k \<Rightarrow> 0x80)"
  define f :: byte where "f = (if fin then 0x80 else 0)"
  define n where "n = length p"
  define body where "body = (case key (fin, op, p) of None \<Rightarrow> p | Some k \<Rightarrow> k @ xor_mask k p)"
  have mb: "mb = 0 \<or> mb = 0x80" and f: "f = 0 \<or> f = 0x80"
    by (auto simp: mb_def f_def split: option.splits)
  have g: "op AND 0x0F = op" "n \<le> max_frame_size"
    "\<And>k. key (fin, op, p) = Some k \<Longrightarrow> length k = 4"
    using assms(1) by (auto simp: frame_good_def n_def)
  have wf: "wire_frame key (fin, op, p) = char_of_byte (f OR op) # length_header mb n @ body"
    by (simp add: wire_frame_def f_def mb_def n_def body_def split: option.split)
  note pre = prefix_take_drop [OF assms(2)]
  have two: "take 2 b = [char_of_byte (f OR op), length_header mb n ! 0]"
  proof -
    have "take 2 b = take 2 (wire_frame key (fin, op, p) @ r)" using pre [of 0 2] False by simp
    then show ?thesis by (cases "length_header mb n") (simp_all add: wf length_header_def Let_def split: if_splits)
  qed
  then have "take 2 b ! 0 = char_of_byte (f OR op)" "take 2 b ! 1 = length_header mb n ! 0" by simp_all
  then have b0: "byte_of (b ! 0) = f OR op" and b1: "byte_of (b ! 1) = byte_of (length_header mb n ! 0)"
    by simp_all
  note h = header_fields [OF mb g(2)]
  have hs: "1 \<le> header_size n" by (simp add: header_size_def)
  have hdr: "(if unat (byte_of (b ! 1) AND 0x7F) = 126 then 4
      else if unat (byte_of (b ! 1) AND 0x7F) = 127 then 10 else 2) = 1 + header_size n"
    unfolding b1 h(2) by (simp add: header_size_def)
  have ext: "(if unat (byte_of (b ! 1) AND 0x7F) = 126 \<or> unat (byte_of (b ! 1) AND 0x7F) = 127
      then unat (get_be (take (1 + header_size n - 2) (drop 2 b))) else unat (byte_of (b ! 1) AND 0x7F)) = n"
    if "1 + header_size n \<le> length b"
  proof (cases "n < 126")
    case True
    then show ?thesis unfolding b1 h(2) by simp
  next
    case False
    have "drop 2 (wire_frame key (fin, op, p) @ r) = tl (length_header mb n) @ body @ r"
      by (cases "length_header mb n") (simp_all add: wf length_header_def Let_def split: if_splits)
    then have "take (1 + header_size n - 2) (drop 2 b) = tl (length_header mb n)"
      using pre [of 2 "1 + header_size n - 2"] that hs by simp
    with False h(3) show ?thesis unfolding b1 h(2) by simp
  qed
  have dr: "drop (1 + header_size n) (wire_frame key (fin, op, p) @ r) = body @ r" by (simp add: wf)
  have mk: "(byte_of (b ! 1) AND 0x80 \<noteq> 0) \<longleftrightarrow> key (fin, op, p) \<noteq> None"
    unfolding b1 h(1) by (auto simp: mb_def split: option.splits)
  have fin: "(byte_of (b ! 0) AND 0x80 \<noteq> 0) = fin"
    unfolding b0 first_byte(2) [OF g(1) f] by (simp add: f_def)
  have opc: "byte_of (b ! 0) AND 0x0F = op" "byte_of (b ! 0) AND 0x70 = 0"
    unfolding b0 first_byte(1,3) [OF g(1) f] by simp_all
  note len = length_wire_frame [OF assms(1), folded n_def]
  show ?thesis
  proof (cases "1 + header_size n \<le> length b")
    case False
    with \<open>\<not> length b < 2\<close> show ?thesis
      unfolding parse_frame_def Let_def hdr opc len by simp
  next
    case True
    note ext = ext [OF True]
    show ?thesis
    proof (cases "key (fin, op, p)")
      case None
      then have "take n (drop (1 + header_size n) b) = p" if "1 + header_size n + n \<le> length b"
        using pre [OF that] that unfolding dr by (simp add: body_def n_def)
      with None True \<open>\<not> length b < 2\<close> g(2) show ?thesis
        unfolding parse_frame_def Let_def hdr ext fin opc mk len by simp
    next
      case (Some k)
      then have bd: "body = k @ xor_mask k p" and k: "length k = 4" using g(3) by (simp_all add: body_def)
      have k4: "take 4 (drop (1 + header_size n) b) = k" if "1 + header_size n + 4 \<le> length b"
        using pre [OF that] k unfolding dr by (simp add: bd)
      have "drop 4 (drop (1 + header_size n) (wire_frame key (fin, op, p) @ r)) = xor_mask k p @ r"
        unfolding dr using k by (simp add: bd)
      then have d4: "drop (1 + header_size n + 4) (wire_frame key (fin, op, p) @ r) = xor_mask k p @ r"
        unfolding drop_drop by (simp only: add.commute)
      have "take n (drop (1 + header_size n + 4) b) = xor_mask k p"
        if "1 + header_size n + 4 + n \<le> length b"
        using pre [OF that] unfolding d4 by (simp add: n_def)
      with Some True \<open>\<not> length b < 2\<close> g(2) k4 show ?thesis
        unfolding parse_frame_def Let_def hdr ext fin opc mk len by (simp add: algebra_simps)
    qed
  qed
qed

interpretation frames: framing "wire_frame key" frame_dec "frame_good key"
  for key
proof
  fix u :: ws_unit and r
  obtain fin op p where u: "u = (fin, op, p)" by (cases u)
  assume g: "frame_good key u"
  show "frame_dec (wire_frame key u @ r) = Some (u, r)"
    using parse_frame_prefix [OF g [unfolded u], of "wire_frame key u @ r" "[]" r]
    by (simp add: frame_dec_def u)
  show "wire_frame key u \<noteq> []" by (simp add: wire_frame_def u)
  fix b
  assume "length b < length (wire_frame key u)" and "take (length b) (wire_frame key u) = b"
  moreover from this(2) have "b @ drop (length b) (wire_frame key u) = wire_frame key u @ []"
    by (metis append_take_drop_id append_Nil2)
  ultimately show "frame_dec b = None"
    using parse_frame_prefix [OF g [unfolded u], of b "drop (length b) (wire_frame key u)" "[]"]
    by (simp add: frame_dec_def u)
next
  show "frame_dec [] = None" by (simp add: frame_dec_def parse_frame_def)
qed

lemma make_frame_wire:
  "make_frame op p k = wire_frame (\<lambda>_. Some k) (True, op AND 0x0F, p)"
  by (simp add: make_frame_def wire_frame_def)

text \<open>
  C31: every frame the client sends is parsed back: FIN, the low four bits of the opcode, the
  payload, and nothing of what follows is consumed, for payloads of at most 1 MiB and any four
  mask bytes. Every proper prefix of it makes the parser ask for more bytes.
\<close>

theorem make_frame_parses:
  assumes "length p \<le> max_frame_size" and "length k = 4"
  shows "parse_frame (make_frame op p k @ r) = Frame True (op AND 0x0F) p r \<and>
         (n < length (make_frame op p k) \<longrightarrow> parse_frame (take n (make_frame op p k)) = NeedMore)"
proof -
  let ?u = "(True, op AND 0x0F, p)" and ?key = "\<lambda>_ :: ws_unit. Some k"
  have g: "frame_good ?key ?u" using assms by (simp add: frame_good_def and.assoc)
  have "parse_frame (take n (make_frame op p k)) = NeedMore" if "n < length (make_frame op p k)"
    using parse_frame_prefix [OF g, of "take n (make_frame op p k)" "drop n (make_frame op p k)" "[]"] that
    by (simp add: make_frame_wire)
  with parse_frame_prefix [OF g, of "make_frame op p k @ r" "[]" r] show ?thesis
    by (simp add: make_frame_wire)
qed

theorem make_frame_parses_witness:
  "parse_frame (make_frame 2 ''hi'' ''abcd'' @ ''x'') = Frame True 2 ''hi'' ''x'' \<and>
   parse_frame (take 7 (make_frame 2 ''hi'' ''abcd'')) = NeedMore"
  using make_frame_parses [of "''hi''" "''abcd''" 2 "''x''" 7]
  by (simp add: max_frame_size_def make_frame_def header_size_def)

text \<open>
  An oversized length field is refused before the payload is awaited: a frame header that
  announces more than 1 MiB is a protocol error whatever follows it.
\<close>

theorem oversized_frame_refused:
  assumes "length (b0 # length_header m n) \<le> length buf" and "take (length (b0 # length_header m n)) buf = b0 # length_header m n"
    and "byte_of b0 AND 0x70 = 0" and "m = 0 \<or> m = 0x80" and "max_frame_size < n" and "n < 2 ^ 64"
  shows "parse_frame buf = BadFrame (''frame too large: '' @ show_nat n)"
proof -
  have big: "0xFFFF < n" using assms(5) by (simp add: max_frame_size_def)
  then have lh: "length_header m n = char_of_byte (m OR 127) # be_bytes 8 (of_nat n :: u64)"
    by (simp add: length_header_be)
  then have len: "10 \<le> length buf" using assms(1) by simp
  have buf: "buf = (b0 # length_header m n) @ drop (length (b0 # length_header m n)) buf"
    using assms(2) by (metis append_take_drop_id)
  have b: "buf ! 0 = b0" "buf ! 1 = char_of_byte (m OR 127)" by (subst buf, simp add: lh)+
  have "(127 :: byte) AND 0x7F = 127" by simp
  from seven_bits(1) [OF this assms(4)] have l7: "unat (byte_of (buf ! 1) AND 0x7F) = 127"
    unfolding b(2) by simp
  have "take 8 (drop 2 buf) = be_bytes 8 (of_nat n :: u64)" by (subst buf) (simp add: lh)
  then have "unat (get_be (take 8 (drop 2 buf))) = n"
    using assms(6) by (simp add: get_be_be_val unat_of_nat)
  with len l7 b assms(3,5) show ?thesis by (simp add: parse_frame_def Let_def)
qed

theorem oversized_frame_refused_witness:
  "parse_frame (chr_of 0x82 # length_header 0 0x200000) = BadFrame (''frame too large: '' @ show_nat 0x200000)"
  by (rule oversized_frame_refused [of "chr_of 0x82" 0 "0x200000"])
    (simp_all add: byte_of_def max_frame_size_def)

end
