(* ===== verification/Exec.thy ===== *)
theory Exec
  imports Prelude
begin

text \<open>
  Running a shell script, \<open>src/src/exec.cpp\<close>. The operating system is a \<open>child\<close>: the
  outcome of \<open>pipe\<close>, \<open>fork\<close>, \<open>chdir\<close> and \<open>execl\<close>, and, for the process
  that results, what the successive readings of the clock, of the cancel flag, of \<open>poll\<close> with
  its reads and of \<open>waitpid\<close> give. The parent's loop is a step function iterated by a
  \<open>partial_function\<close>: a loop that never ends has the value \<open>None\<close>.

  The lemmas show that the loop ends whenever the clock goes on, that what is captured is the
  prefix of what the child wrote, and that signals are sent in the order and with the delay the
  code promises.
\<close>

subsection \<open>The operating system\<close>

datatype fd_event = Quiet | Bytes string | Closed | Again | Failed

datatype poll_result = PollFail string | PollIntr | Polled fd_event fd_event

datatype wait_result = Running | WaitIntr | WaitFail string | Exited nat | Signalled nat

datatype child_start = Message string nat | Program "string list"

record child_io =
  io_clock :: "nat \<Rightarrow> int"
  io_cancel :: "nat \<Rightarrow> bool"
  io_poll :: "nat \<Rightarrow> int \<Rightarrow> poll_result"
  io_wait :: "nat \<Rightarrow> wait_result"

record child =
  pipe_error :: "nat \<Rightarrow> string option"
  fork_error :: "string option"
  chdir_error :: "string option"
  execl_error :: "string option"
  child_io :: "child_start \<Rightarrow> child_io"

subsection \<open>The child's side of the fork\<close>

text \<open>What the child becomes: a message on stderr and exit code 127, or \<open>/bin/sh\<close>. The
  script goes through \<open>c_str()\<close>, which ends it at its first NUL.\<close>

definition child_branch :: "child \<Rightarrow> string \<Rightarrow> string \<Rightarrow> child_start" where
  "child_branch c script dir =
     (case (if dir \<noteq> [] then chdir_error c else None) of
        Some e \<Rightarrow> Message (''haiku-mgmt-agent: chdir('' @ dir @ '') failed: '' @ e @ [CHR 0x0A]) 127
      | None \<Rightarrow>
          (case execl_error c of
             Some e \<Rightarrow> Message (''haiku-mgmt-agent: exec /bin/sh failed: '' @ e @ [CHR 0x0A]) 127
           | None \<Rightarrow> Program [''/bin/sh'', ''sh'', ''-c'', cstr script]))"

subsection \<open>The parent's loop\<close>

record exec_result =
  er_exit_code :: int
  er_timed_out :: bool
  er_cancelled :: bool
  er_signalled :: bool
  er_signal_number :: nat
  er_stdout :: string
  er_stderr :: string
  er_error :: string
  er_log :: "(fd_event \<times> fd_event) list"
  er_signals :: "(nat \<times> int) list"

text \<open>\<open>er_log\<close> and \<open>er_signals\<close> are no fields of \<open>exec::Result\<close>: they record what
  \<open>poll\<close> delivered, and which signals went to the process group when.\<close>

definition new_result :: exec_result where
  "new_result = \<lparr>er_exit_code = -1, er_timed_out = False, er_cancelled = False,
     er_signalled = False, er_signal_number = 0, er_stdout = [], er_stderr = [], er_error = [],
     er_log = [], er_signals = []\<rparr>"

text \<open>One captured stream: the sink, its clipped flag and whether its pipe is open.\<close>

record stream =
  st_sink :: string
  st_clipped :: bool
  st_open :: bool

definition take_event :: "nat \<Rightarrow> fd_event \<Rightarrow> stream \<Rightarrow> stream" where
  "take_event cap ev st =
     (if \<not> st_open st then st
      else case ev of
        Quiet \<Rightarrow> st
      | Again \<Rightarrow> st
      | Closed \<Rightarrow> st\<lparr>st_open := False\<rparr>
      | Failed \<Rightarrow> st\<lparr>st_open := False\<rparr>
      | Bytes s \<Rightarrow>
          (let buf = take 8192 s; got = length buf in
           if got = 0 then st\<lparr>st_open := False\<rparr>
           else if length (st_sink st) < cap
           then let room = cap - length (st_sink st) in
                st\<lparr>st_sink := st_sink st @ take (min room got) buf,
                   st_clipped := st_clipped st \<or> room < got\<rparr>
           else st\<lparr>st_clipped := True\<rparr>))"

text \<open>The variables of the loop, with the two records.\<close>

record exec_state =
  xs_out :: stream
  xs_err :: stream
  xs_killed_term :: bool
  xs_killed_kill :: bool
  xs_kill_deadline :: int
  xs_timed_out :: bool
  xs_cancelled :: bool
  xs_error :: string
  xs_clock :: nat
  xs_round :: nat
  xs_log :: "(fd_event \<times> fd_event) list"
  xs_signals :: "(nat \<times> int) list"

definition exec_start :: exec_state where
  "exec_start =
     (let st = \<lparr>st_sink = [], st_clipped = False, st_open = True\<rparr> in
      \<lparr>xs_out = st, xs_err = st, xs_killed_term = False, xs_killed_kill = False,
       xs_kill_deadline = 0, xs_timed_out = False, xs_cancelled = False, xs_error = [],
       xs_clock = 1, xs_round = 0, xs_log = [], xs_signals = []\<rparr>)"

definition poll_wait :: "int \<Rightarrow> exec_state \<Rightarrow> int \<Rightarrow> int" where
  "poll_wait deadline s now =
     min 1000 (max 0 ((if xs_killed_term s then xs_kill_deadline s else deadline) - now))"

definition sigterm :: nat where "sigterm = 15"
definition sigkill :: nat where "sigkill = 9"

text \<open>The end of a round: cancel, timeout or the end of the grace period. The flag tells
  whether the loop goes on.\<close>

definition check_deadlines :: "child_io \<Rightarrow> bool \<Rightarrow> int \<Rightarrow> exec_state \<Rightarrow> bool \<times> exec_state" where
  "check_deadlines io has_cancel deadline s =
     (let now = io_clock io (xs_clock s);
          cancel_now = (has_cancel \<and> io_cancel io (xs_round s) \<and> \<not> xs_killed_term s);
          s = s\<lparr>xs_clock := xs_clock s + 1, xs_round := xs_round s + 1\<rparr> in
      if cancel_now \<or> (\<not> xs_killed_term s \<and> deadline \<le> now)
      then (True, s\<lparr>xs_cancelled := xs_cancelled s \<or> cancel_now,
                    xs_timed_out := xs_timed_out s \<or> \<not> cancel_now,
                    xs_killed_term := True,
                    xs_kill_deadline := now + 5 * 1000,
                    xs_signals := xs_signals s @ [(sigterm, now)]\<rparr>)
      else if xs_killed_term s \<and> \<not> xs_killed_kill s \<and> xs_kill_deadline s \<le> now
      then (False, s\<lparr>xs_killed_kill := True, xs_signals := xs_signals s @ [(sigkill, now)]\<rparr>)
      else (True, s))"

definition exec_step ::
    "child_io \<Rightarrow> nat \<Rightarrow> bool \<Rightarrow> int \<Rightarrow> exec_state \<Rightarrow> bool \<times> exec_state" where
  "exec_step io cap has_cancel deadline s =
     (let wait_ms = poll_wait deadline s (io_clock io (xs_clock s));
          s = s\<lparr>xs_clock := xs_clock s + 1\<rparr> in
      case io_poll io (xs_round s) wait_ms of
        PollFail e \<Rightarrow> (False, s\<lparr>xs_error := ''poll: '' @ e\<rparr>)
      | PollIntr \<Rightarrow> check_deadlines io has_cancel deadline s
      | Polled a b \<Rightarrow>
          check_deadlines io has_cancel deadline
            (s\<lparr>xs_out := take_event cap a (xs_out s),
               xs_err := take_event cap b (xs_err s),
               xs_log := xs_log s @ [(a, b)]\<rparr>))"

partial_function (option) exec_loop ::
    "child_io \<Rightarrow> nat \<Rightarrow> bool \<Rightarrow> int \<Rightarrow> exec_state \<Rightarrow> exec_state option" where
  "exec_loop io cap has_cancel deadline s =
     (if st_open (xs_out s) \<or> st_open (xs_err s)
      then case exec_step io cap has_cancel deadline s of
             (go, s') \<Rightarrow> if go then exec_loop io cap has_cancel deadline s' else Some s'
      else Some s)"

declare exec_loop.simps [code]

subsection \<open>Reaping\<close>

definition clip_mark :: string where
  "clip_mark = CHR 0x0A # ''--output truncated--''"

text \<open>The wait loop: the result of \<open>waitpid\<close>, or the message of its two failures with
  the signal the second one sends.\<close>

partial_function (option) reap_loop ::
    "child_io \<Rightarrow> int \<Rightarrow> nat \<Rightarrow> nat \<Rightarrow> (string \<times> (nat \<times> int) list + wait_result) option" where
  "reap_loop io reap_deadline i clock =
     (case io_wait io i of
        WaitIntr \<Rightarrow> reap_loop io reap_deadline (i + 1) clock
      | WaitFail e \<Rightarrow> Some (Inl (''waitpid: '' @ e, []))
      | Running \<Rightarrow>
          (if reap_deadline < io_clock io clock
           then Some (Inl (''child did not reap within 10s after exit/kill (see TESTING.md, open question 5)'',
                           [(sigkill, io_clock io clock)]))
           else reap_loop io reap_deadline (i + 1) (clock + 1))
      | w \<Rightarrow> Some (Inr w))"

declare reap_loop.simps [code]

definition exit_status :: "wait_result \<Rightarrow> exec_result \<Rightarrow> exec_result" where
  "exit_status w r =
     (case w of
        Exited n \<Rightarrow> r\<lparr>er_exit_code := int n\<rparr>
      | Signalled n \<Rightarrow> r\<lparr>er_signalled := True, er_signal_number := n, er_exit_code := 128 + int n\<rparr>
      | _ \<Rightarrow> r)"

definition loop_result :: "exec_state \<Rightarrow> exec_result" where
  "loop_result s =
     new_result\<lparr>er_timed_out := xs_timed_out s, er_cancelled := xs_cancelled s,
       er_error := xs_error s, er_log := xs_log s, er_signals := xs_signals s,
       er_stdout := st_sink (xs_out s) @ (if st_clipped (xs_out s) then clip_mark else []),
       er_stderr := st_sink (xs_err s) @ (if st_clipped (xs_err s) then clip_mark else [])\<rparr>"

definition default_timeout :: int where "default_timeout = 3600"

definition run_shell ::
    "child \<Rightarrow> string \<Rightarrow> int \<Rightarrow> string \<Rightarrow> nat \<Rightarrow> bool \<Rightarrow> exec_result option" where
  "run_shell c script timeout_seconds working_dir cap has_cancel =
     (let timeout = (if timeout_seconds \<le> 0 then default_timeout else timeout_seconds) in
      case pipe_error c 0 of
        Some e \<Rightarrow> Some (new_result\<lparr>er_error := ''pipe: '' @ e\<rparr>)
      | None \<Rightarrow>
      (case pipe_error c 1 of
        Some e \<Rightarrow> Some (new_result\<lparr>er_error := ''pipe: '' @ e\<rparr>)
      | None \<Rightarrow>
      (case fork_error c of
        Some e \<Rightarrow> Some (new_result\<lparr>er_error := ''fork: '' @ e\<rparr>)
      | None \<Rightarrow>
          (let io = child_io c (child_branch c script working_dir);
               deadline = io_clock io 0 + timeout * 1000 in
           case exec_loop io cap has_cancel deadline exec_start of
             None \<Rightarrow> None
           | Some s \<Rightarrow>
               (case reap_loop io (io_clock io (xs_clock s) + 10000) 0 (xs_clock s + 1) of
                  None \<Rightarrow> None
                | Some (Inl (e, sent)) \<Rightarrow>
                    Some ((loop_result s)\<lparr>er_error := e, er_signals := xs_signals s @ sent\<rparr>)
                | Some (Inr w) \<Rightarrow> Some (exit_status w (loop_result s)))))))"

subsection \<open>What is captured\<close>

text \<open>The bytes a stream delivers until its pipe closes, and whether it is still open.\<close>

fun stream_bytes :: "fd_event list \<Rightarrow> string" where
  "stream_bytes [] = []"
| "stream_bytes (Bytes s # es) =
     (if take 8192 s = [] then [] else take 8192 s @ stream_bytes es)"
| "stream_bytes (Closed # es) = []"
| "stream_bytes (Failed # es) = []"
| "stream_bytes (_ # es) = stream_bytes es"

definition ends_stream :: "fd_event \<Rightarrow> bool" where
  "ends_stream e \<longleftrightarrow> e \<in> {Closed, Failed, Bytes []}"

lemma stream_bytes_snoc:
  "stream_bytes (es @ [e]) =
     stream_bytes es @ (if list_ex ends_stream es then [] else stream_bytes [e])"
  by (induction es rule: stream_bytes.induct) (simp_all add: ends_stream_def)

definition captured :: "nat \<Rightarrow> fd_event list \<Rightarrow> stream \<Rightarrow> bool" where
  "captured cap es st \<longleftrightarrow>
     st_sink st = take cap (stream_bytes es) \<and>
     (st_clipped st \<longleftrightarrow> cap < length (stream_bytes es)) \<and>
     (st_open st \<longleftrightarrow> \<not> list_ex ends_stream es)"

lemma take_min_length: "take (min a (min (length s) b)) s = take (min a b) s"
  by (cases "length s \<le> min a b") (simp_all add: min_def split: if_splits)

lemma captured_take_event:
  assumes "captured cap es st"
  shows "captured cap (es @ [e]) (take_event cap e st)"
proof (cases e)
  case (Bytes s)
  with assms show ?thesis
    by (cases "s = []")
      (auto simp: captured_def take_event_def stream_bytes_snoc ends_stream_def Let_def
          take_min_length)
qed (use assms in \<open>auto simp: captured_def take_event_def stream_bytes_snoc ends_stream_def\<close>)

lemma exec_loop_invariant:
  assumes "exec_loop io cap hc dl s = Some s'" and "I s"
    and step: "\<And>s go s'. I s \<Longrightarrow> exec_step io cap hc dl s = (go, s') \<Longrightarrow> I s'"
  shows "I s'"
proof -
  let ?P = "\<lambda>io' cap' hc' dl' s s'. io' = io \<longrightarrow> cap' = cap \<longrightarrow> hc' = hc \<longrightarrow> dl' = dl \<longrightarrow> I s \<longrightarrow> I s'"
  have "?P io cap hc dl s s'"
    using _ assms(1)
  proof (rule exec_loop.raw_induct [where P = ?P])
    fix loop io' cap' hc' dl' and s s' :: exec_state
    assume ih: "\<And>io' cap' hc' dl' s s'. loop io' cap' hc' dl' s = Some s' \<Longrightarrow> ?P io' cap' hc' dl' s s'"
      and body: "(if st_open (xs_out s) \<or> st_open (xs_err s)
         then case exec_step io' cap' hc' dl' s of
                (go, s') \<Rightarrow> if go then loop io' cap' hc' dl' s' else Some s'
         else Some s) = Some s'"
    show "?P io' cap' hc' dl' s s'"
      using body by (auto split: if_splits prod.splits dest!: ih intro: step)
  qed
  with assms(2) show ?thesis by simp
qed

lemma check_deadlines_streams:
  "check_deadlines io hc dl s = (go, s') \<Longrightarrow>
     xs_out s' = xs_out s \<and> xs_err s' = xs_err s \<and> xs_log s' = xs_log s"
  by (auto simp: check_deadlines_def Let_def split: if_splits)

lemma exec_loop_captures:
  assumes "exec_loop io cap hc dl exec_start = Some s"
  shows "captured cap (map fst (xs_log s)) (xs_out s) \<and>
         captured cap (map snd (xs_log s)) (xs_err s)"
  using assms
proof (rule exec_loop_invariant)
  show "captured cap (map fst (xs_log exec_start)) (xs_out exec_start) \<and>
        captured cap (map snd (xs_log exec_start)) (xs_err exec_start)"
    by (simp add: exec_start_def captured_def Let_def)
next
  fix s s' go
  assume "captured cap (map fst (xs_log s)) (xs_out s) \<and>
          captured cap (map snd (xs_log s)) (xs_err s)"
    and "exec_step io cap hc dl s = (go, s')"
  then show "captured cap (map fst (xs_log s')) (xs_out s') \<and>
             captured cap (map snd (xs_log s')) (xs_err s')"
    by (auto simp: exec_step_def Let_def captured_take_event
        dest!: check_deadlines_streams split: poll_result.splits)
qed

subsection \<open>The kill protocol\<close>

text \<open>No signal; or SIGTERM for a cancel or at the deadline; or, at least five seconds later,
  SIGKILL as well.\<close>

definition kill_protocol :: "int \<Rightarrow> exec_state \<Rightarrow> bool" where
  "kill_protocol dl s \<longleftrightarrow>
     (xs_signals s = [] \<and> \<not> xs_killed_term s \<and> \<not> xs_killed_kill s \<and> \<not> xs_timed_out s \<and> \<not> xs_cancelled s) \<or>
     (\<exists>t. (xs_signals s = [(sigterm, t)] \<and> \<not> xs_killed_kill s \<or>
           (\<exists>u \<ge> t + 5000. xs_signals s = [(sigterm, t), (sigkill, u)] \<and> xs_killed_kill s)) \<and>
        xs_killed_term s \<and> xs_kill_deadline s = t + 5000 \<and>
        xs_timed_out s = (\<not> xs_cancelled s) \<and> (xs_timed_out s \<longrightarrow> dl \<le> t))"

lemma kill_protocol_check:
  "check_deadlines io hc dl s = (go, s') \<Longrightarrow> kill_protocol dl s \<Longrightarrow> kill_protocol dl s'"
  by (auto simp: check_deadlines_def kill_protocol_def Let_def split: if_splits)

lemma kill_protocol_frame:
  "kill_protocol dl (s\<lparr>xs_clock := c, xs_out := a, xs_err := b, xs_log := l\<rparr>) = kill_protocol dl s"
  "kill_protocol dl (s\<lparr>xs_clock := c\<rparr>) = kill_protocol dl s"
  "kill_protocol dl (s\<lparr>xs_clock := c, xs_error := e\<rparr>) = kill_protocol dl s"
  by (simp_all add: kill_protocol_def)

lemma exec_loop_kill_protocol:
  assumes "exec_loop io cap hc dl exec_start = Some s"
  shows "kill_protocol dl s"
  using assms
proof (rule exec_loop_invariant)
  show "kill_protocol dl exec_start"
    by (simp add: exec_start_def kill_protocol_def Let_def)
next
  fix s s' go
  assume "kill_protocol dl s" and "exec_step io cap hc dl s = (go, s')"
  then show "kill_protocol dl s'"
    by (auto simp: exec_step_def Let_def kill_protocol_frame
        dest: kill_protocol_check split: poll_result.splits)
qed

subsection \<open>Termination\<close>

text \<open>A clock that goes on: it passes every instant for good.\<close>

definition clock_runs :: "(nat \<Rightarrow> int) \<Rightarrow> bool" where
  "clock_runs clock \<longleftrightarrow> (\<forall>t. \<exists>i. \<forall>j \<ge> i. t \<le> clock j)"

lemma check_deadlines_go:
  "check_deadlines io hc dl s = (True, s') \<Longrightarrow>
     xs_clock s' = Suc (xs_clock s) \<and> xs_killed_kill s' = xs_killed_kill s \<and>
     (xs_killed_term s \<longrightarrow> xs_killed_term s' \<and> xs_kill_deadline s' = xs_kill_deadline s \<and>
        (xs_killed_kill s \<or> io_clock io (xs_clock s) < xs_kill_deadline s)) \<and>
     (\<not> xs_killed_term s' \<longrightarrow> io_clock io (xs_clock s) < dl)"
  by (auto simp: check_deadlines_def Let_def split: if_splits)

lemma exec_step_go:
  assumes "exec_step io cap hc dl s = (True, s')"
  shows "xs_clock s' = Suc (Suc (xs_clock s)) \<and> xs_killed_kill s' = xs_killed_kill s \<and>
     (xs_killed_term s \<longrightarrow> xs_killed_term s' \<and> xs_kill_deadline s' = xs_kill_deadline s \<and>
        (xs_killed_kill s \<or> io_clock io (Suc (xs_clock s)) < xs_kill_deadline s)) \<and>
     (\<not> xs_killed_term s' \<longrightarrow> io_clock io (Suc (xs_clock s)) < dl)"
  using assms
  by (auto simp: exec_step_def Let_def dest!: check_deadlines_go split: poll_result.splits)

lemma exec_loop_unfold:
  "exec_loop io cap hc dl s \<noteq> None"
  if "\<And>s'. exec_step io cap hc dl s = (True, s') \<Longrightarrow> exec_loop io cap hc dl s' \<noteq> None"
  using that by (subst exec_loop.simps) (auto split: prod.split)

lemma exec_loop_after_term:
  assumes "\<forall>j \<ge> n. xs_kill_deadline s \<le> io_clock io j"
    and "xs_killed_term s" and "\<not> xs_killed_kill s"
  shows "exec_loop io cap hc dl s \<noteq> None"
  using assms
proof (induction "Suc n - xs_clock s" arbitrary: s rule: less_induct)
  case less
  show ?case
  proof (rule exec_loop_unfold)
    fix s' assume "exec_step io cap hc dl s = (True, s')"
    note go = exec_step_go [OF this]
    with less.prems have "Suc (xs_clock s) < n" by (metis not_le)
    with go less.prems show "exec_loop io cap hc dl s' \<noteq> None"
      by (intro less.hyps) auto
  qed
qed

lemma exec_loop_returns:
  assumes "clock_runs (io_clock io)" and "\<not> xs_killed_kill s"
  shows "exec_loop io cap hc dl s \<noteq> None"
proof -
  obtain n where n: "\<forall>j \<ge> n. dl \<le> io_clock io j"
    using assms(1) unfolding clock_runs_def by blast
  show ?thesis
    using assms(2)
  proof (induction "Suc n - xs_clock s" arbitrary: s rule: less_induct)
    case less
    show ?case
    proof (rule exec_loop_unfold)
      fix s' assume "exec_step io cap hc dl s = (True, s')"
      note go = exec_step_go [OF this]
      show "exec_loop io cap hc dl s' \<noteq> None"
      proof (cases "xs_killed_term s'")
        case True
        moreover obtain m where "\<forall>j \<ge> m. xs_kill_deadline s' \<le> io_clock io j"
          using assms(1) unfolding clock_runs_def by blast
        ultimately show ?thesis using go less.prems by (intro exec_loop_after_term) auto
      next
        case False
        with go n have "Suc (xs_clock s) < n" by (metis not_le)
        with go less.prems show ?thesis by (intro less.hyps) auto
      qed
    qed
  qed
qed

lemma reap_loop_returns:
  assumes "clock_runs (io_clock io)" and "\<And>i. io_wait io i \<noteq> WaitIntr"
  shows "reap_loop io dl i k \<noteq> None"
proof -
  obtain n where n: "\<forall>j \<ge> n. dl + 1 \<le> io_clock io j"
    using assms(1) unfolding clock_runs_def by blast
  show ?thesis
  proof (induction "Suc n - k" arbitrary: i k rule: less_induct)
    case less
    have "reap_loop io dl (i + 1) (k + 1) \<noteq> None" if "\<not> dl < io_clock io k"
    proof -
      from n have "n \<le> k \<Longrightarrow> dl + 1 \<le> io_clock io k" by blast
      with that have "k < n" by (cases "n \<le> k") auto
      then show ?thesis by (intro less) auto
    qed
    with assms(2) show ?case
      by (subst reap_loop.simps) (auto split: wait_result.split)
  qed
qed

lemma reap_loop_sent:
  "reap_loop io dl i k = Some w \<Longrightarrow>
     case w of Inl (e, sent) \<Rightarrow> e \<noteq> [] \<and> (sent = [] \<or> (\<exists>v. sent = [(sigkill, v)] \<and> dl < v)) | Inr _ \<Rightarrow> True"
proof (rule reap_loop.raw_induct [where P =
      "\<lambda>io dl i k w. case w of Inl (e, sent) \<Rightarrow>
         e \<noteq> [] \<and> (sent = [] \<or> (\<exists>v. sent = [(sigkill, v)] \<and> dl < v)) | Inr _ \<Rightarrow> True"])
  fix loop io dl i k w
  assume ih: "\<And>io dl i k w. loop io dl i k = Some w \<Longrightarrow> case w of Inl (e, sent) \<Rightarrow>
         e \<noteq> [] \<and> (sent = [] \<or> (\<exists>v. sent = [(sigkill, v)] \<and> dl < v)) | Inr _ \<Rightarrow> True"
    and body: "(case io_wait io i of
        Running \<Rightarrow>
          (if dl < io_clock io k
           then Some (Inl (''child did not reap within 10s after exit/kill (see TESTING.md, open question 5)'',
                           [(sigkill, io_clock io k)]))
           else loop io dl (i + 1) (k + 1))
      | WaitIntr \<Rightarrow> loop io dl (i + 1) k
      | WaitFail e \<Rightarrow> Some (Inl (''waitpid: '' @ e, []))
      | w \<Rightarrow> Some (Inr w)) = Some w"
  show "case w of Inl (e, sent) \<Rightarrow>
         e \<noteq> [] \<and> (sent = [] \<or> (\<exists>v. sent = [(sigkill, v)] \<and> dl < v)) | Inr _ \<Rightarrow> True"
    using body by (cases "io_wait io i") (auto split: if_splits dest: ih)
qed

subsection \<open>The whole run\<close>

text \<open>The three ways \<open>run_shell\<close> returns.\<close>

lemma run_shell_cases:
  assumes "run_shell c script t dir cap hc = Some r"
  obtains (failed) e where "r = new_result\<lparr>er_error := e\<rparr>"
  | (unreaped) io s e sent where "io = child_io c (child_branch c script dir)"
      and "exec_loop io cap hc (io_clock io 0 + (if t \<le> 0 then default_timeout else t) * 1000) exec_start = Some s"
      and "r = (loop_result s)\<lparr>er_error := e, er_signals := xs_signals s @ sent\<rparr>"
      and "e \<noteq> []" and "sent = [] \<or> (\<exists>v. sent = [(sigkill, v)])"
  | (reaped) io s w where "io = child_io c (child_branch c script dir)"
      and "exec_loop io cap hc (io_clock io 0 + (if t \<le> 0 then default_timeout else t) * 1000) exec_start = Some s"
      and "r = exit_status w (loop_result s)"
  using assms unfolding run_shell_def Let_def
  by (fastforce split: option.splits sum.splits prod.splits dest: reap_loop_sent)

lemma loop_result_fields:
  "er_timed_out (loop_result s) = xs_timed_out s"
  "er_cancelled (loop_result s) = xs_cancelled s"
  "er_signals (loop_result s) = xs_signals s"
  "er_timed_out (exit_status w r) = er_timed_out r"
  "er_cancelled (exit_status w r) = er_cancelled r"
  "er_signals (exit_status w r) = er_signals r"
  by (simp_all add: loop_result_def exit_status_def split: wait_result.split)

text \<open>C29: what \<open>run_shell\<close> reports of each stream is the first \<open>max_capture_bytes\<close>
  bytes the child wrote to it, in order, and the truncation mark appears exactly when there was
  more.\<close>

theorem run_shell_captures:
  assumes "run_shell c script t dir cap hc = Some r"
  shows "er_stdout r = take cap (stream_bytes (map fst (er_log r))) @
           (if cap < length (stream_bytes (map fst (er_log r))) then clip_mark else []) \<and>
         er_stderr r = take cap (stream_bytes (map snd (er_log r))) @
           (if cap < length (stream_bytes (map snd (er_log r))) then clip_mark else [])"
  using assms
proof (cases rule: run_shell_cases)
  case failed
  then show ?thesis by (simp add: new_result_def)
next
  case unreaped
  from exec_loop_captures [OF this(2)] this(3) show ?thesis
    by (simp add: captured_def loop_result_def)
next
  case (reaped io s w)
  from exec_loop_captures [OF this(2)] this(3) show ?thesis
    by (cases w) (simp_all add: captured_def loop_result_def exit_status_def)
qed

text \<open>C10: signals are sent only as the time-out promises: none to a child that ends in time; to
  one that is cancelled, or passes its deadline, SIGTERM first and SIGKILL no earlier than five
  seconds later; a SIGKILL besides these comes with the error that the child could not be
  reaped.\<close>

definition escalates :: "int \<Rightarrow> exec_result \<Rightarrow> (nat \<times> int) list \<Rightarrow> bool" where
  "escalates dl r sigs \<longleftrightarrow>
     (sigs = [] \<and> \<not> er_timed_out r \<and> \<not> er_cancelled r) \<or>
     (\<exists>t. (sigs = [(sigterm, t)] \<or> (\<exists>u \<ge> t + 5000. sigs = [(sigterm, t), (sigkill, u)])) \<and>
          er_timed_out r = (\<not> er_cancelled r) \<and> (er_timed_out r \<longrightarrow> dl \<le> t))"

lemma escalates_protocol:
  "kill_protocol dl s \<Longrightarrow> er_timed_out r = xs_timed_out s \<Longrightarrow> er_cancelled r = xs_cancelled s \<Longrightarrow>
   escalates dl r (xs_signals s)"
  unfolding kill_protocol_def escalates_def by auto


text \<open>C30: \<open>run_shell\<close> returns, whatever the child does: it is enough that the clock goes on
  and that the non-blocking \<open>waitpid\<close> is not interrupted.\<close>

theorem run_shell_returns:
  assumes "clock_runs (io_clock (child_io c (child_branch c script dir)))"
    and "\<And>i. io_wait (child_io c (child_branch c script dir)) i \<noteq> WaitIntr"
  shows "\<exists>r. run_shell c script t dir cap hc = Some r"
proof -
  let ?io = "child_io c (child_branch c script dir)"
  let ?dl = "io_clock ?io 0 + (if t \<le> 0 then default_timeout else t) * 1000"
  obtain s where s: "exec_loop ?io cap hc ?dl exec_start = Some s"
    using exec_loop_returns [OF assms(1), of exec_start cap hc ?dl] by (auto simp: exec_start_def Let_def)
  obtain w where w: "reap_loop ?io (io_clock ?io (xs_clock s) + 10000) 0 (xs_clock s + 1) = Some w"
    using reap_loop_returns [OF assms] by blast
  show ?thesis
  proof (cases "pipe_error c 0 = None \<and> pipe_error c 1 = None \<and> fork_error c = None")
    case True
    with s w show ?thesis
      by (cases w) (simp_all add: run_shell_def Let_def split: prod.split)
  qed (cases "pipe_error c 0"; cases "pipe_error c 1"; cases "fork_error c"; simp add: run_shell_def)
qed

text \<open>A child that prints one line, closes both pipes and exits with 3.\<close>

definition sample_child :: child where
  "sample_child =
     \<lparr>pipe_error = \<lambda>_. None, fork_error = None, chdir_error = None, execl_error = None,
      child_io = \<lambda>_. \<lparr>io_clock = \<lambda>i. 500 * int i, io_cancel = \<lambda>_. False,
        io_poll = \<lambda>i _. [Polled (Bytes ''hello'') Quiet, Polled Closed Closed] ! min i 1,
        io_wait = \<lambda>_. Exited 3\<rparr>\<rparr>"

text \<open>With room for its line and five seconds of time it is never clipped nor killed.\<close>

lemma sample_child_fields [simp]:
  "pipe_error sample_child i = None" "fork_error sample_child = None"
  "io_clock (child_io sample_child b) j = 500 * int j"
  "io_wait (child_io sample_child b) j = Exited 3"
  by (simp_all add: sample_child_def)

definition sample_state1 :: exec_state where
  "sample_state1 = exec_start\<lparr>xs_clock := 3, xs_round := 1,
     xs_out := \<lparr>st_sink = ''hello'', st_clipped = False, st_open = True\<rparr>,
     xs_log := [(Bytes ''hello'', Quiet)]\<rparr>"

definition sample_state2 :: exec_state where
  "sample_state2 = sample_state1\<lparr>xs_clock := 5, xs_round := 2,
     xs_out := \<lparr>st_sink = ''hello'', st_clipped = False, st_open = False\<rparr>,
     xs_err := \<lparr>st_sink = [], st_clipped = False, st_open = False\<rparr>,
     xs_log := [(Bytes ''hello'', Quiet), (Closed, Closed)]\<rparr>"

lemma sample_child_steps:
  assumes "5 \<le> cap" and "5000 \<le> dl"
  shows "exec_step (child_io sample_child b) cap hc dl exec_start = (True, sample_state1)"
    and "exec_step (child_io sample_child b) cap hc dl sample_state1 = (True, sample_state2)"
  using assms
  by (simp_all add: exec_step_def sample_child_def exec_start_def sample_state1_def sample_state2_def
      take_event_def check_deadlines_def Let_def)

lemma sample_child_finishes:
  assumes "5 \<le> cap" and "5 \<le> t"
  shows "run_shell sample_child script t dir cap hc =
     Some (new_result\<lparr>er_exit_code := 3, er_stdout := ''hello'',
             er_log := [(Bytes ''hello'', Quiet), (Closed, Closed)]\<rparr>)"
proof -
  have opens: "st_open (xs_out exec_start)" "st_open (xs_out sample_state1)"
    "\<not> st_open (xs_out sample_state2)" "\<not> st_open (xs_err sample_state2)"
    by (simp_all add: exec_start_def sample_state1_def sample_state2_def Let_def)
  have "exec_loop (child_io sample_child b) cap hc (t * 1000) exec_start = Some sample_state2" for b
    using assms
    by (simp add: exec_loop.simps [of _ _ _ _ exec_start] exec_loop.simps [of _ _ _ _ sample_state1]
        exec_loop.simps [of _ _ _ _ sample_state2] sample_child_steps opens)
  with assms have "run_shell sample_child script t dir cap hc =
      Some (exit_status (Exited 3) (loop_result sample_state2))"
    by (simp add: run_shell_def Let_def reap_loop.simps)
  then show ?thesis
    by (simp add: loop_result_def sample_state2_def sample_state1_def exec_start_def new_result_def
        exit_status_def Let_def)
qed

text \<open>A child that never stops writing.\<close>

definition stuck_child :: child where
  "stuck_child =
     \<lparr>pipe_error = \<lambda>_. None, fork_error = None, chdir_error = None, execl_error = None,
      child_io = \<lambda>_. \<lparr>io_clock = \<lambda>i. 2000 * int i, io_cancel = \<lambda>_. False,
        io_poll = \<lambda>i _. Polled (Bytes ''y'') Quiet,
        io_wait = \<lambda>_. Signalled 9\<rparr>\<rparr>"

lemma sample_child_run:
  "run_shell sample_child ''echo hello'' 60 [] 3 False =
     Some (new_result\<lparr>er_exit_code := 3, er_stdout := ''hel'' @ clip_mark,
             er_log := [(Bytes ''hello'', Quiet), (Closed, Closed)]\<rparr>)"
  by code_simp

lemma stuck_child_run:
  "run_shell stuck_child ''yes'' 2 [] 3 False =
     Some (new_result\<lparr>er_exit_code := 137, er_timed_out := True, er_signalled := True,
             er_signal_number := 9, er_stdout := ''yyy'',
             er_log := [(Bytes ''y'', Quiet), (Bytes ''y'', Quiet), (Bytes ''y'', Quiet)],
             er_signals := [(sigterm, 4000), (sigkill, 12000)]\<rparr>)"
  by code_simp

theorem run_shell_captures_witness:
  "\<exists>r. run_shell sample_child ''echo hello'' 60 [] 3 False = Some r \<and>
       er_stdout r = take 3 (stream_bytes (map fst (er_log r))) @ clip_mark"
  using run_shell_captures [OF sample_child_run] sample_child_run by (simp add: new_result_def)


theorem run_shell_returns_witness:
  "\<exists>r. run_shell stuck_child ''yes'' 2 [] 3 False = Some r"
proof (rule run_shell_returns)
  show "clock_runs (io_clock (child_io stuck_child (child_branch stuck_child ''yes'' [])))"
    unfolding clock_runs_def
  proof
    fix t :: int
    show "\<exists>i. \<forall>j\<ge>i. t \<le> io_clock (child_io stuck_child (child_branch stuck_child ''yes'' [])) j"
      by (rule exI [of _ "nat t"]) (auto simp: stuck_child_def)
  qed
qed (simp add: stuck_child_def)

end
