(* ===== verification/World.thy ===== *)
theory World
  imports Json Http Exec
begin

text \<open>
  The world the agent runs in, and the state monad in which its stateful parts are written.

  An \<open>env\<close> is everything outside the agent, as functions of how often it has been asked:
  the clock, \<open>/dev/urandom\<close>, the peer of each HTTP exchange, the operating system calls; and
  the primitives of mbedTLS. Properties quantify over it. A \<open>world\<close> holds the counters of
  these questions and the trace of the effects, oldest first. The state of a component extends
  it by record extension, so that a program of a component runs unchanged in the others.

  \<open>triple\<close> is a Hoare triple for the state monad; the collection \<open>wp_rules\<close> has one
  rule per construct.
\<close>

subsection \<open>Effects and the environment\<close>

datatype event =
    EvHttp request response
  | EvClockSet int
  | EvMkdir string
  | EvUnlink string
  | EvRename string string
  | EvChmod string
  | EvShell string
  | EvSystem string
  | EvKill nat
  | EvWsConnect string string
  | EvWsSend byte string
  | EvPtySpawn "string list"
  | EvPtyWrite string
  | EvPtySize int int
  | EvPrint string

record env =
  e_clock :: "nat \<Rightarrow> int"
  e_random :: "nat \<Rightarrow> nat \<Rightarrow> string"
  e_peer :: "nat \<Rightarrow> peer"
  e_settime :: "int \<Rightarrow> bool"
  e_rename :: "string \<Rightarrow> string \<Rightarrow> string option"
  e_file :: "string \<Rightarrow> (string list \<times> bool) option"
  e_sha256 :: "string \<Rightarrow> string"
  e_sha1 :: "string \<Rightarrow> string"
  e_hmac :: "string \<Rightarrow> string \<Rightarrow> string"
  e_ca :: string
  e_child :: "nat \<Rightarrow> child"

record world =
  at_clock :: nat
  at_random :: nat
  at_peer :: nat
  at_child :: nat
  trace :: "event list"

subsection \<open>The monad\<close>

abbreviation ret :: "'a \<Rightarrow> ('s, 'a) state" where
  "ret \<equiv> State_Monad.return"

abbreviation modify :: "('s \<Rightarrow> 's) \<Rightarrow> ('s, unit) state" where
  "modify \<equiv> State_Monad.update"

definition gets :: "('s \<Rightarrow> 'a) \<Rightarrow> ('s, 'a) state" where
  "gets f = State (\<lambda>s. (f s, s))"

lemma run_gets [simp]: "run_state (gets f) s = (f s, s)"
  by (simp add: gets_def)

lemma run_modify [simp]: "run_state (modify f) s = ((), f s)"
  by (simp add: State_Monad.update_def)

definition emit :: "event \<Rightarrow> ('w world_scheme, unit) state" where
  "emit e = modify (\<lambda>w. w\<lparr>trace := trace w @ [e]\<rparr>)"

text \<open>\<open>now_epoch_ms()\<close>, \<open>now_epoch()\<close> and \<open>random_bytes(n)\<close>; a failed read of
  \<open>/dev/urandom\<close> is a string of another length, which the code turns into an empty one.\<close>

definition now_ms :: "'e env_scheme \<Rightarrow> ('w world_scheme, int) state" where
  "now_ms e = do {
     i \<leftarrow> gets at_clock;
     modify (\<lambda>w. w\<lparr>at_clock := Suc i\<rparr>);
     ret (e_clock e i) }"

definition now_s :: "'e env_scheme \<Rightarrow> ('w world_scheme, int) state" where
  "now_s e = do { t \<leftarrow> now_ms e; ret (t div 1000) }"

definition random_bytes :: "'e env_scheme \<Rightarrow> nat \<Rightarrow> ('w world_scheme, string) state" where
  "random_bytes e n = do {
     i \<leftarrow> gets at_random;
     modify (\<lambda>w. w\<lparr>at_random := Suc i\<rparr>);
     ret (if length (e_random e i n) = n then e_random e i n else []) }"

definition new_uuid :: "'e env_scheme \<Rightarrow> ('w world_scheme, string) state" where
  "new_uuid e = do {
     b \<leftarrow> random_bytes e 16;
     if length b = 16 then ret (uuid4 (Some (map byte_of b)) 0)
     else do { t \<leftarrow> now_ms e; ret (uuid4 None t) } }"

text \<open>\<open>http::perform\<close> against the next peer.\<close>

definition perform :: "'e env_scheme \<Rightarrow> request \<Rightarrow> ('w world_scheme, response) state" where
  "perform e req = do {
     i \<leftarrow> gets at_peer;
     modify (\<lambda>w. w\<lparr>at_peer := Suc i\<rparr>);
     let r = http_perform (e_ca e) (e_peer e i) req;
     emit (EvHttp req r);
     ret r }"

text \<open>\<open>exec::run_shell\<close> on the next child; \<open>None\<close> is a run that never returns.\<close>

definition shell ::
    "'e env_scheme \<Rightarrow> string \<Rightarrow> int \<Rightarrow> string \<Rightarrow> nat \<Rightarrow> bool \<Rightarrow>
     ('w world_scheme, exec_result option) state" where
  "shell e script timeout dir cap has_cancel = do {
     i \<leftarrow> gets at_child;
     modify (\<lambda>w. w\<lparr>at_child := Suc i\<rparr>);
     emit (EvShell script);
     ret (run_shell (e_child e i) script timeout dir cap has_cancel) }"

definition sha256_hex :: "'e env_scheme \<Rightarrow> string \<Rightarrow> string" where
  "sha256_hex e s = to_hex (e_sha256 e s)"

text \<open>
  The digest of a file: \<open>e_file\<close> gives what the successive \<open>fread\<close>s return, and whether they
  ended at the end of the file without an error. The incremental digest of mbedTLS is the digest of
  the pieces put together.
\<close>

definition sha256_file_hex :: "'e env_scheme \<Rightarrow> string \<Rightarrow> string" where
  "sha256_file_hex e path =
     (case e_file e path of
        None \<Rightarrow> []
      | Some (pieces, read_ok) \<Rightarrow>
          if read_ok then to_hex (e_sha256 e (concat (takeWhile (\<lambda>p. p \<noteq> []) pieces))) else [])"

lemma sha256_file_hex_read:
  "sha256_file_hex e path = d \<Longrightarrow> d \<noteq> [] \<Longrightarrow>
   \<exists>pieces. e_file e path = Some (pieces, True) \<and> to_hex (e_sha256 e (concat (takeWhile (\<lambda>p. p \<noteq> []) pieces))) = d"
  by (auto simp: sha256_file_hex_def split: option.splits if_splits)

subsection \<open>Hoare triples\<close>

definition triple :: "('s \<Rightarrow> bool) \<Rightarrow> ('s, 'a) state \<Rightarrow> ('a \<Rightarrow> 's \<Rightarrow> bool) \<Rightarrow> bool" where
  "triple P m Q \<longleftrightarrow> (\<forall>s. P s \<longrightarrow> (case run_state m s of (x, s') \<Rightarrow> Q x s'))"

named_theorems wp_rules \<open>one rule per construct, postcondition schematic\<close>

lemma tripleI: "(\<And>s x s'. P s \<Longrightarrow> run_state m s = (x, s') \<Longrightarrow> Q x s') \<Longrightarrow> triple P m Q"
  by (auto simp: triple_def split: prod.split)

lemma tripleD: "triple P m Q \<Longrightarrow> P s \<Longrightarrow> run_state m s = (x, s') \<Longrightarrow> Q x s'"
  by (fastforce simp: triple_def)

lemma triple_pre: "triple P' m Q \<Longrightarrow> (\<And>s. P s \<Longrightarrow> P' s) \<Longrightarrow> triple P m Q"
  by (auto simp: triple_def)

lemma triple_post: "triple P m Q' \<Longrightarrow> (\<And>x s. Q' x s \<Longrightarrow> Q x s) \<Longrightarrow> triple P m Q"
  by (fastforce simp: triple_def split: prod.splits)

lemma triple_ret [wp_rules]: "(\<And>s. P s \<Longrightarrow> Q x s) \<Longrightarrow> triple P (ret x) Q"
  by (simp add: triple_def)

lemma triple_gets [wp_rules]: "(\<And>s. P s \<Longrightarrow> Q (f s) s) \<Longrightarrow> triple P (gets f) Q"
  by (simp add: triple_def)

lemma triple_modify [wp_rules]: "(\<And>s. P s \<Longrightarrow> Q () (f s)) \<Longrightarrow> triple P (modify f) Q"
  by (simp add: triple_def)

lemma triple_bind [wp_rules]:
  "triple P m R \<Longrightarrow> (\<And>x. triple (R x) (f x) Q) \<Longrightarrow> triple P (State_Monad.bind m f) Q"
  by (intro tripleI) (fastforce dest: tripleD split: prod.splits)

lemma triple_if [wp_rules]:
  "(b \<Longrightarrow> triple P m Q) \<Longrightarrow> (\<not> b \<Longrightarrow> triple P n Q) \<Longrightarrow> triple P (if b then m else n) Q"
  by simp

lemma triple_case_option [wp_rules]:
  "(x = None \<Longrightarrow> triple P m Q) \<Longrightarrow> (\<And>y. x = Some y \<Longrightarrow> triple P (f y) Q) \<Longrightarrow>
   triple P (case x of None \<Rightarrow> m | Some y \<Rightarrow> f y) Q"
  by (cases x) simp_all

lemma triple_case_prod [wp_rules]:
  "(\<And>a b. x = (a, b) \<Longrightarrow> triple P (f a b) Q) \<Longrightarrow> triple P (case x of (a, b) \<Rightarrow> f a b) Q"
  by (cases x) simp

lemma triple_case_list [wp_rules]:
  "(x = [] \<Longrightarrow> triple P m Q) \<Longrightarrow> (\<And>a b. x = a # b \<Longrightarrow> triple P (f a b) Q) \<Longrightarrow>
   triple P (case x of [] \<Rightarrow> m | a # b \<Rightarrow> f a b) Q"
  by (cases x) simp_all

text \<open>A program whose result has a property, whatever the state.\<close>

definition yields :: "('a \<Rightarrow> bool) \<Rightarrow> ('s, 'a) state \<Rightarrow> bool" where
  "yields Q m \<longleftrightarrow> (\<forall>s. Q (fst (run_state m s)))"

named_theorems yields_rules \<open>the results of a program\<close>

lemma yieldsD: "yields Q m \<Longrightarrow> run_state m s = (x, s') \<Longrightarrow> Q x"
  unfolding yields_def by (metis fst_conv)

lemma yields_ret [yields_rules]: "Q x \<Longrightarrow> yields Q (ret x)"
  by (simp add: yields_def)

lemma yields_bind [yields_rules]: "(\<And>x. yields Q (f x)) \<Longrightarrow> yields Q (State_Monad.bind m f)"
  by (simp add: yields_def split: prod.split)

lemma yields_seq:
  "yields R m \<Longrightarrow> (\<And>x. R x \<Longrightarrow> yields Q (f x)) \<Longrightarrow> yields Q (State_Monad.bind m f)"
  unfolding yields_def by (auto split: prod.split) (metis fst_conv)

lemma yields_if [yields_rules]:
  "(b \<Longrightarrow> yields Q m) \<Longrightarrow> (\<not> b \<Longrightarrow> yields Q n) \<Longrightarrow> yields Q (if b then m else n)"
  by simp

lemma yields_case_option [yields_rules]:
  "(x = None \<Longrightarrow> yields Q m) \<Longrightarrow> (\<And>y. x = Some y \<Longrightarrow> yields Q (f y)) \<Longrightarrow>
   yields Q (case x of None \<Rightarrow> m | Some y \<Rightarrow> f y)"
  by (cases x) simp_all

text \<open>A program that keeps an invariant: the frame rule of the component proofs.\<close>

definition keeps :: "('s \<Rightarrow> bool) \<Rightarrow> ('s, 'a) state \<Rightarrow> bool" where
  "keeps I m \<longleftrightarrow> triple I m (\<lambda>_. I)"

named_theorems keeps_rules \<open>programs that keep an invariant\<close>

lemma keeps_ret [keeps_rules, simp]: "keeps I (ret x)"
  by (simp add: keeps_def triple_def)

lemma keeps_gets [keeps_rules, simp]: "keeps I (gets f)"
  by (simp add: keeps_def triple_def)

lemma keeps_modify [keeps_rules]: "(\<And>s. I s \<Longrightarrow> I (f s)) \<Longrightarrow> keeps I (modify f)"
  by (simp add: keeps_def triple_def)

lemma keeps_bind [keeps_rules]:
  "keeps I m \<Longrightarrow> (\<And>x. keeps I (f x)) \<Longrightarrow> keeps I (State_Monad.bind m f)"
  unfolding keeps_def by (rule triple_bind)

lemma keeps_if [keeps_rules]: "keeps I m \<Longrightarrow> keeps I n \<Longrightarrow> keeps I (if b then m else n)"
  by simp

lemma keeps_let [keeps_rules]: "keeps I (f x) \<Longrightarrow> keeps I (let y = x in f y)"
  by simp

lemma keeps_case_option [keeps_rules]:
  "keeps I m \<Longrightarrow> (\<And>y. keeps I (f y)) \<Longrightarrow> keeps I (case x of None \<Rightarrow> m | Some y \<Rightarrow> f y)"
  by (cases x) simp_all

lemma keeps_case_prod [keeps_rules]:
  "(\<And>a b. keeps I (f a b)) \<Longrightarrow> keeps I (case x of (a, b) \<Rightarrow> f a b)"
  by (cases x) simp

lemma keeps_case_list [keeps_rules]:
  "keeps I m \<Longrightarrow> (\<And>a b. keeps I (f a b)) \<Longrightarrow> keeps I (case x of [] \<Rightarrow> m | a # b \<Rightarrow> f a b)"
  by (cases x) simp_all

lemma keepsD: "keeps I m \<Longrightarrow> I s \<Longrightarrow> I (snd (run_state m s))"
  unfolding keeps_def by (rule tripleD [OF _ _ surjective_pairing, where Q = "\<lambda>_. I"])

lemma keeps_run: "keeps I m \<Longrightarrow> I s \<Longrightarrow> run_state m s = (x, s') \<Longrightarrow> I s'"
  using keepsD by fastforce

lemma keeps_loop: "(\<And>w. I w \<Longrightarrow> I (snd (f w))) \<Longrightarrow> keeps I (State f)"
  by (auto simp: keeps_def triple_def split: prod.split) (metis snd_conv)

lemma keeps_case_sum [keeps_rules]:
  "(\<And>y. keeps I (f y)) \<Longrightarrow> (\<And>z. keeps I (g z)) \<Longrightarrow> keeps I (case x of Inl y \<Rightarrow> f y | Inr z \<Rightarrow> g z)"
  by (cases x) simp_all

text \<open>The primitives keep what does not mention counters and trace.\<close>

lemma keeps_now_ms [keeps_rules]:
  "(\<And>s. I s \<Longrightarrow> I (s\<lparr>at_clock := Suc (at_clock s)\<rparr>)) \<Longrightarrow> keeps I (now_ms e)"
  by (simp add: keeps_def triple_def now_ms_def)

lemma keeps_now_s [keeps_rules]:
  "(\<And>s. I s \<Longrightarrow> I (s\<lparr>at_clock := Suc (at_clock s)\<rparr>)) \<Longrightarrow> keeps I (now_s e)"
  unfolding now_s_def by (intro keeps_rules)

lemma keeps_random_bytes [keeps_rules]:
  "(\<And>s. I s \<Longrightarrow> I (s\<lparr>at_random := Suc (at_random s)\<rparr>)) \<Longrightarrow> keeps I (random_bytes e n)"
  by (simp add: keeps_def triple_def random_bytes_def)

lemma keeps_new_uuid [keeps_rules]:
  "(\<And>s. I s \<Longrightarrow> I (s\<lparr>at_random := Suc (at_random s)\<rparr>)) \<Longrightarrow>
   (\<And>s. I s \<Longrightarrow> I (s\<lparr>at_clock := Suc (at_clock s)\<rparr>)) \<Longrightarrow> keeps I (new_uuid e)"
  unfolding new_uuid_def by (intro keeps_rules)

lemma keeps_emit [keeps_rules]:
  "(\<And>s. I s \<Longrightarrow> I (s\<lparr>trace := trace s @ [ev]\<rparr>)) \<Longrightarrow> keeps I (emit ev)"
  unfolding emit_def by (intro keeps_rules)

lemma keeps_perform [keeps_rules]:
  assumes "\<And>s. I s \<Longrightarrow> I (s\<lparr>at_peer := Suc (at_peer s)\<rparr>)"
    and "\<And>s r. I s \<Longrightarrow> I (s\<lparr>trace := trace s @ [EvHttp req r]\<rparr>)"
  shows "keeps I (perform e req)"
  using assms(2) [OF assms(1)] by (simp add: keeps_def triple_def perform_def emit_def Let_def)

lemma keeps_shell [keeps_rules]:
  assumes "\<And>s. I s \<Longrightarrow> I (s\<lparr>at_child := Suc (at_child s)\<rparr>)"
    and "\<And>s. I s \<Longrightarrow> I (s\<lparr>trace := trace s @ [EvShell script]\<rparr>)"
  shows "keeps I (shell e script t d c h)"
  using assms(2) [OF assms(1)] by (simp add: keeps_def triple_def shell_def emit_def)

subsection \<open>A sample environment\<close>

text \<open>For examples: a clock that gains a second per reading, peers that answer \<open>200\<close> with
  an empty object, and children that print one line.\<close>

definition sample_env :: env where
  "sample_env =
     \<lparr>e_clock = \<lambda>i. 1700000000000 + 1000 * int i, e_random = \<lambda>i n. replicate n CHR ''r'',
      e_peer = \<lambda>i. plain_reply ''{}'', e_settime = \<lambda>t. True,
      e_rename = \<lambda>a b. None, e_file = \<lambda>f. None, e_sha256 = \<lambda>s. replicate 32 CHR 0x00,
      e_sha1 = \<lambda>s. replicate 20 CHR 0x00, e_hmac = \<lambda>k m. replicate 32 CHR 0x00, e_ca = ''anchors'',
      e_child = \<lambda>i. sample_child\<rparr>"

lemma sample_perform:
  assumes "\<And>i. e_peer e i = plain_reply (bodies i)" and "\<And>i. length (bodies i) \<le> 65536"
    and "e_ca e \<noteq> []" and "req_body_path req = []"
  shows "run_state (perform e req) w =
     (plain_response (req_sink_path req) (bodies (at_peer w)),
      w\<lparr>at_peer := Suc (at_peer w),
        trace := trace w @ [EvHttp req (plain_response (req_sink_path req) (bodies (at_peer w)))]\<rparr>)"
  using assms by (simp add: perform_def plain_reply_perform Let_def emit_def)

definition sample_world :: world where
  "sample_world = \<lparr>at_clock = 0, at_random = 0, at_peer = 0, at_child = 0, trace = []\<rparr>"

end
