(* ===== verification/Runner.thy ===== *)
theory Runner
  imports World
begin

text \<open>
  SSM documents, \<open>src/src/runner.cpp\<close>: the placeholders of a document, its steps, their
  execution in order, and the reply that reports them. A run is a program of the world monad; its
  result is \<open>None\<close> when a command never returns. Log lines are left out.

  The lemmas show that the combined output keeps to its capacity, how the status of a document
  follows from its steps, that a cancelled document stops, and what the reply counts.
\<close>

subsection \<open>Truncating the combined output\<close>

definition err_title :: string where
  "err_title = CHR 0x0A # ''----------ERROR-------'' @ [CHR 0x0A]"

definition truncate_out_mark :: string where
  "truncate_out_mark = CHR 0x0A # ''---Output truncated---''"

definition truncate_err_mark :: string where
  "truncate_err_mark = CHR 0x0A # ''---Error truncated----''"

definition max_plugin_output :: nat where "max_plugin_output = 2500"
definition max_stdout_length :: nat where "max_stdout_length = 24000"

definition run_shell_script :: string where "run_shell_script = ''aws:runShellScript''"

definition truncate_output :: "string \<Rightarrow> string \<Rightarrow> nat \<Rightarrow> string" where
  "truncate_output out err capacity =
     (let out_size = length out; err_size = length err;
          title = (if 0 < err_size then err_title else []);
          available = (if length title < capacity then capacity - length title else 0);
          half = available div 2 in
      if out_size + err_size < available then out @ title @ err
      else if half < out_size \<and> half < err_size
      then let size = size_sub (size_sub available (length truncate_err_mark)) (length truncate_out_mark) in
           take (size div 2) out @ truncate_out_mark @ title @ take (size div 2) err @ truncate_err_mark
      else if out_size \<le> half
      then let size = size_sub available (length truncate_err_mark);
               keep = (if out_size < size then size - out_size else 0) in
           out @ title @ take (min keep err_size) err @ truncate_err_mark
      else let size = size_sub available (length truncate_out_mark);
               keep = (if err_size < size then size - err_size else 0) in
           take (min keep out_size) out @ truncate_out_mark @ title @ err)"

subsection \<open>Placeholders\<close>

definition scalar_text :: "json \<Rightarrow> string" where
  "scalar_text v =
     (if is_arr v then join (map (\<lambda>e. str_or e []) (arr_of v)) [CHR 0x0A]
      else str_or v (case v of VNumber _ _ \<Rightarrow> json_dump v | _ \<Rightarrow> []))"

function substitute_scalar :: "string \<Rightarrow> (string, json) smap \<Rightarrow> string" where
  "substitute_scalar s params =
     (case find_sub ''{{'' s of
        None \<Rightarrow> s
      | Some op \<Rightarrow>
          (case find_from ''}}'' s op of
             None \<Rightarrow> s
           | Some cl \<Rightarrow>
               take op s @
               (case map_of params (trim (take (cl - op - 2) (drop (op + 2) s))) of
                  None \<Rightarrow> take (cl + 2 - op) (drop op s)
                | Some v \<Rightarrow> scalar_text v) @
               substitute_scalar (drop (cl + 2) s) params))"
  by pat_completeness auto
termination
  by (relation "measure (\<lambda>(s, params). length s)")
    (auto dest!: find_sub_Some simp: find_from_def split: if_splits)

declare substitute_scalar.simps [simp del]

definition members :: "json \<Rightarrow> (string \<times> json) list" where
  "members v = (case v of VObj m \<Rightarrow> m | _ \<Rightarrow> [])"

definition parameter_table :: "json \<Rightarrow> json \<Rightarrow> (string, json) smap" where
  "parameter_table parameters doc_parameters =
     (let defaults =
        fold (\<lambda>(k, v) t. case find_key v ''default'' of Some d \<Rightarrow> smap_put k d t | None \<Rightarrow> t)
          (members doc_parameters) [] in
      fold (\<lambda>(k, v) t. smap_put k v t) (members parameters) defaults)"

text \<open>The list a string that is exactly one placeholder names.\<close>

definition whole_placeholder :: "(string, json) smap \<Rightarrow> string \<Rightarrow> json option" where
  "whole_placeholder table str =
     (let s = trim str in
      if 4 < length s \<and> starts_with s ''{{'' \<and> rfind_sub ''}}'' s = Some (length s - 2)
      then (case map_of table (trim (take (length s - 4) (drop 2 s))) of
              Some v \<Rightarrow> if is_arr v then Some v else None
            | None \<Rightarrow> None)
      else None)"

fun resolve_walk :: "(string, json) smap \<Rightarrow> json \<Rightarrow> json" where
  "resolve_walk table (VString s) =
     (case whole_placeholder table s of
        Some v \<Rightarrow> v
      | None \<Rightarrow> VString (substitute_scalar s table))"
| "resolve_walk table (VArr vs) = VArr (map (resolve_walk table) vs)"
| "resolve_walk table (VObj m) = VObj (map (\<lambda>(k, v). (k, resolve_walk table v)) m)"
| "resolve_walk table v = v"

definition resolve :: "json \<Rightarrow> json \<Rightarrow> json \<Rightarrow> json" where
  "resolve node parameters doc_parameters =
     resolve_walk (parameter_table parameters doc_parameters) node"

definition command_lines :: "json \<Rightarrow> string list" where
  "command_lines inputs =
     (case find_key inputs ''runCommand'' of
        None \<Rightarrow> []
      | Some (VArr vs) \<Rightarrow> map (\<lambda>e. str_or e []) vs
      | Some (VString s) \<Rightarrow> [s]
      | Some _ \<Rightarrow> [])"

subsection \<open>Steps\<close>

definition precondition_excludes_step :: "json \<Rightarrow> bool" where
  "precondition_excludes_step precondition =
     (if \<not> is_obj precondition then False
      else case find_key precondition ''StringEquals'' of
        Some (VArr [a, b]) \<Rightarrow>
          (let x = lower (trim (str_or a []));
               y = lower (trim (str_or b []));
               (var, val) = (if y = ''platformtype'' then (y, x) else (x, y)) in
           if var \<noteq> ''platformtype'' \<and> var \<noteq> ''{{platformtype}}'' \<and> var \<noteq> ''{{ platformtype }}''
           then False
           else val \<noteq> ''linux'')
      | _ \<Rightarrow> False)"

record step_result =
  sr_plugin_id :: string
  sr_action :: string
  sr_status :: string
  sr_code :: int
  sr_output :: string
  sr_standard_output :: string
  sr_standard_error :: string
  sr_full_stdout :: string
  sr_full_stderr :: string
  sr_s3_bucket :: string
  sr_s3_key_prefix :: string
  sr_start_time :: string
  sr_end_time :: string

definition new_step_result :: "string \<Rightarrow> string \<Rightarrow> step_result" where
  "new_step_result plugin_id action =
     \<lparr>sr_plugin_id = plugin_id, sr_action = action, sr_status = [], sr_code = 0, sr_output = [],
      sr_standard_output = [], sr_standard_error = [], sr_full_stdout = [], sr_full_stderr = [],
      sr_s3_bucket = [], sr_s3_key_prefix = [], sr_start_time = [], sr_end_time = []\<rparr>"

definition skip_text :: string where
  "skip_text = ''Step execution skipped due to unsatisfied preconditions: '' @
     quoted (CHR 0x22 # ''StringEquals'' @ CHR 0x22 # '': [platformType, Linux]'') @ ''.''"

definition skipped :: "'e env_scheme \<Rightarrow> string \<Rightarrow> string \<Rightarrow> string \<Rightarrow> ('w world_scheme, step_result) state" where
  "skipped e plugin_id action start_time = do {
     t \<leftarrow> now_ms e;
     ret ((new_step_result plugin_id action)
       \<lparr>sr_status := ''Skipped'', sr_code := 0, sr_output := skip_text,
        sr_standard_output := skip_text, sr_start_time := start_time,
        sr_end_time := iso8601 t\<rparr>) }"

definition unsupported_text :: "string \<Rightarrow> string" where
  "unsupported_text action = ''plugin '' @ quoted action @
     '' is not supported on Haiku. haiku-mgmt-agent implements '' @ run_shell_script @
     '' only (see BRIEF.md section 2: Session Manager, inventory and self-update are out of scope).''"

definition unsupported :: "'e env_scheme \<Rightarrow> string \<Rightarrow> string \<Rightarrow> string \<Rightarrow> ('w world_scheme, step_result) state" where
  "unsupported e plugin_id action start_time = do {
     t \<leftarrow> now_ms e;
     ret ((new_step_result plugin_id action)
       \<lparr>sr_status := ''Failed'', sr_code := 1, sr_standard_error := unsupported_text action,
        sr_output := unsupported_text action, sr_start_time := start_time,
        sr_end_time := iso8601 t\<rparr>) }"

record doc_step =
  ds_plugin_id :: string
  ds_action :: string
  ds_inputs :: json
  ds_precondition :: json

definition or_null :: "json option \<Rightarrow> json" where
  "or_null v = (case v of Some w \<Rightarrow> w | None \<Rightarrow> VNull)"

definition main_step :: "json \<Rightarrow> doc_step" where
  "main_step s =
     \<lparr>ds_plugin_id = str_at s ''name'' (str_of s ''action''), ds_action = str_of s ''action'',
      ds_inputs = or_null (find_key s ''inputs''),
      ds_precondition = or_null (find_key s ''precondition'')\<rparr>"

definition config_step :: "string \<times> json \<Rightarrow> doc_step" where
  "config_step kv =
     \<lparr>ds_plugin_id = fst kv, ds_action = fst kv,
      ds_inputs = (case find_key (snd kv) ''properties'' of
                     Some (VArr (v # _)) \<Rightarrow> v
                   | Some v \<Rightarrow> v
                   | None \<Rightarrow> VNull),
      ds_precondition = VNull\<rparr>"

definition document_steps :: "json \<Rightarrow> doc_step list" where
  "document_steps doc =
     (case find_key doc ''mainSteps'' of
        Some (VArr ss) \<Rightarrow> map main_step ss
      | _ \<Rightarrow>
          (case find_key doc ''runtimeConfig'' of
             Some (VObj m) \<Rightarrow> map config_step m
           | _ \<Rightarrow> []))"

subsection \<open>Running a document\<close>

record options =
  op_max_capture :: nat
  op_cancel :: bool

definition new_options :: options where
  "new_options = \<lparr>op_max_capture = 24000, op_cancel = False\<rparr>"

record outcome =
  do_status :: string
  do_steps :: "step_result list"
  do_trace :: string

text \<open>What a finished command makes of its step.\<close>

definition finish_step :: "step_result \<Rightarrow> exec_result \<Rightarrow> step_result" where
  "finish_step sr er =
     (let sr = sr\<lparr>sr_standard_output := clip (er_stdout er) max_stdout_length [],
                  sr_standard_error := clip (er_stderr er) max_stdout_length [],
                  sr_full_stdout := er_stdout er, sr_full_stderr := er_stderr er,
                  sr_code := er_exit_code er\<rparr>;
          fail_code = (if sr_code sr = 0 then 1 else sr_code sr);
          sr = (if er_cancelled er then sr\<lparr>sr_status := ''Cancelled'', sr_code := fail_code\<rparr>
                else if er_error er \<noteq> []
                then sr\<lparr>sr_status := ''Failed'', sr_code := fail_code,
                        sr_standard_error := sr_standard_error sr @
                          (if sr_standard_error sr = [] then [] else [CHR 0x0A]) @ er_error er\<rparr>
                else if er_timed_out er then sr\<lparr>sr_status := ''TimedOut'', sr_code := fail_code\<rparr>
                else sr\<lparr>sr_status := (if er_exit_code er = 0 then ''Success'' else ''Failed'')\<rparr>) in
      sr\<lparr>sr_output := truncate_output (sr_standard_output sr) (sr_standard_error sr) max_plugin_output\<rparr>)"

definition next_status :: "string \<Rightarrow> string \<Rightarrow> string" where
  "next_status step_status status =
     (if step_status = ''Cancelled'' then ''Cancelled''
      else if step_status \<noteq> ''Success'' \<and> status \<noteq> ''Cancelled'' then ''Failed''
      else status)"

text \<open>One turn of the loop over the steps: the step's result, the status of the document after
  it, and whether the document stops here.\<close>

definition run_step ::
    "'e env_scheme \<Rightarrow> options \<Rightarrow> json \<Rightarrow> json \<Rightarrow> doc_step \<Rightarrow> string \<Rightarrow>
     ('w world_scheme, (step_result \<times> string \<times> bool) option) state" where
  "run_step e opts parameters doc_params st status = do {
     t \<leftarrow> now_ms e;
     let start_time = iso8601 t;
     if precondition_excludes_step (ds_precondition st) then do {
       sr \<leftarrow> skipped e (ds_plugin_id st) (ds_action st) start_time;
       ret (Some (sr, status, False)) }
     else if ds_action st \<noteq> run_shell_script then do {
       sr \<leftarrow> unsupported e (ds_plugin_id st) (ds_action st) start_time;
       ret (Some (sr, ''Failed'', False)) }
     else do {
       let inputs = resolve (ds_inputs st) parameters doc_params;
       let script = join (command_lines inputs) [CHR 0x0A];
       if trim script = [] then do {
         t2 \<leftarrow> now_ms e;
         ret (Some ((new_step_result (ds_plugin_id st) (ds_action st))
           \<lparr>sr_status := ''Failed'', sr_code := 1,
            sr_standard_error := ''no commands to run (runCommand resolved to empty)'',
            sr_output := ''no commands to run (runCommand resolved to empty)'',
            sr_start_time := start_time, sr_end_time := iso8601 t2\<rparr>, ''Failed'', False)) }
       else do {
         r \<leftarrow> shell e script (double_to_int32 (num_at inputs ''timeoutSeconds'' (double_of_int 3600)))
                (str_of inputs ''workingDirectory'') (max (op_max_capture opts) max_stdout_length)
                (op_cancel opts);
         case r of
           None \<Rightarrow> ret None
         | Some er \<Rightarrow> do {
             t2 \<leftarrow> now_ms e;
             let sr = finish_step ((new_step_result (ds_plugin_id st) (ds_action st))
                        \<lparr>sr_start_time := start_time, sr_end_time := iso8601 t2\<rparr>) er;
             ret (Some (sr, next_status (sr_status sr) status, er_cancelled er)) } } } }"

fun run_steps ::
    "'e env_scheme \<Rightarrow> options \<Rightarrow> json \<Rightarrow> json \<Rightarrow> doc_step list \<Rightarrow> outcome \<Rightarrow>
     ('w world_scheme, outcome option) state" where
  "run_steps e opts parameters doc_params [] out = ret (Some out)"
| "run_steps e opts parameters doc_params (st # sts) out = do {
     r \<leftarrow> run_step e opts parameters doc_params st (do_status out);
     case r of
       None \<Rightarrow> ret None
     | Some (sr, status, stop) \<Rightarrow>
         let out = out\<lparr>do_steps := do_steps out @ [sr], do_status := status\<rparr> in
         if stop then ret (Some out)
         else run_steps e opts parameters doc_params sts out }"

definition run_document ::
    "'e env_scheme \<Rightarrow> json \<Rightarrow> json \<Rightarrow> options \<Rightarrow> ('w world_scheme, outcome option) state" where
  "run_document e doc parameters opts =
     (let out = \<lparr>do_status = ''Success'', do_steps = [], do_trace = []\<rparr>;
          steps = document_steps doc in
      if steps = []
      then ret (Some (out\<lparr>do_status := ''Failed'',
             do_trace := ''document contains no runnable steps (no mainSteps or runtimeConfig)''\<rparr>))
      else run_steps e opts parameters (or_null (find_key doc ''parameters'')) steps out)"

subsection \<open>The reply\<close>

record agent_info =
  ai_name :: string
  ai_version :: string
  ai_lang :: string
  ai_os :: string
  ai_os_ver :: string

definition add_count :: "string \<Rightarrow> (string, json) smap \<Rightarrow> (string, json) smap" where
  "add_count status counts =
     (let prev = (case map_of counts status of
                    Some (VNumber d _) \<Rightarrow> double_to_int32 d
                  | _ \<Rightarrow> 0) in
      smap_put status (num_int (prev + 1)) counts)"

definition status_counts :: "step_result list \<Rightarrow> (string, json) smap" where
  "status_counts steps = fold (\<lambda>s. add_count (sr_status s)) steps []"

definition step_json :: "step_result \<Rightarrow> json" where
  "step_json s = mk_obj
     [(''status'', VString (sr_status s)), (''code'', num_int (sr_code s)),
      (''name'', VString (sr_action s)), (''output'', VString (sr_output s)),
      (''startDateTime'', VString (sr_start_time s)), (''endDateTime'', VString (sr_end_time s)),
      (''outputS3BucketName'', VString (sr_s3_bucket s)),
      (''outputS3KeyPrefix'', VString (sr_s3_key_prefix s)),
      (''stepName'', VString (sr_plugin_id s)),
      (''standardOutput'', VString (sr_standard_output s)),
      (''standardError'', VString (sr_standard_error s))]"

definition agent_json :: "agent_info \<Rightarrow> json" where
  "agent_json a = mk_obj
     [(''lang'', VString (ai_lang a)), (''name'', VString (ai_name a)), (''os'', VString (ai_os a)),
      (''osver'', VString (ai_os_ver a)), (''ver'', VString (ai_version a))]"

definition reply_json :: "agent_info \<Rightarrow> string \<Rightarrow> string \<Rightarrow> step_result list \<Rightarrow> int \<Rightarrow> json" where
  "reply_json agent document_status tr steps t = mk_obj
     [(''additionalInfo'', mk_obj
        [(''agent'', agent_json agent), (''dateTime'', VString (iso8601 t)),
         (''runId'', VString (iso_dash t)),
         (''runtimeStatusCounts'', VObj (status_counts steps))]),
      (''documentStatus'', VString document_status),
      (''documentTraceOutput'', VString tr),
      (''runtimeStatus'', mk_obj (map (\<lambda>s. (sr_plugin_id s, step_json s)) steps))]"

definition reply_payload ::
    "'e env_scheme \<Rightarrow> agent_info \<Rightarrow> string \<Rightarrow> string \<Rightarrow> step_result list \<Rightarrow>
     ('w world_scheme, string) state" where
  "reply_payload e agent document_status tr steps = do {
     t \<leftarrow> now_ms e;
     ret (json_dump (reply_json agent document_status tr steps t)) }"

subsection \<open>The combined output keeps to its capacity\<close>

text \<open>With a capacity of at least 70 bytes (the title and both marks) the combined output
  is never longer than the capacity, and output that fits is passed on whole. The agent's capacity
  is 2500.\<close>

theorem truncate_output_bound:
  assumes "70 \<le> capacity"
  shows "length (truncate_output out err capacity) \<le> capacity \<and>
     (length out + length err + (if err = [] then 0 else 24) < capacity \<longrightarrow>
        truncate_output out err capacity = out @ (if err = [] then [] else err_title @ err))"
proof -
  define title where "title = (if 0 < length err then err_title else [])"
  define avail where "avail = capacity - length title"
  have marks: "length err_title = 24" "length truncate_out_mark = 23" "length truncate_err_mark = 23"
    by (simp_all add: err_title_def truncate_out_mark_def truncate_err_mark_def)
  have title: "length title = (if err = [] then 0 else 24)"
    by (simp add: title_def marks)
  then have avail: "46 \<le> avail" "length title < capacity" "avail + length title = capacity"
    using assms by (auto simp: avail_def split: if_splits)
  have expand: "truncate_output out err capacity =
     (if length out + length err < avail then out @ title @ err
      else if avail div 2 < length out \<and> avail div 2 < length err
      then take ((avail - 46) div 2) out @ truncate_out_mark @ title @
           take ((avail - 46) div 2) err @ truncate_err_mark
      else if length out \<le> avail div 2
      then out @ title @ take (min (avail - 23 - length out) (length err)) err @ truncate_err_mark
      else take (min (avail - 23 - length err) (length out)) out @ truncate_out_mark @ title @ err)"
    using avail(1,2) unfolding truncate_output_def title_def [symmetric] Let_def
    by (simp add: avail_def [symmetric] marks)
  have takes: "length (take k x) \<le> k" for k and x :: string by simp
  have "length (truncate_output out err capacity) \<le> capacity"
  proof (cases "avail div 2 < length out \<and> avail div 2 < length err")
    case True
    define k where "k = (avail - 46) div 2"
    have "k + k \<le> avail - 46" unfolding k_def by simp
    with takes [of k out] takes [of k err] avail
    have "length (take k out) + (46 + (length title + length (take k err))) \<le> capacity"
      by linarith
    with avail True show ?thesis
      unfolding expand k_def [symmetric] by (simp add: marks del: length_take)
  next
    case False
    have "length out + (length (take (avail - (23 + length out)) err) + 23) \<le> avail"
      if "length out \<le> avail div 2"
      using that avail(1) takes [of "avail - (23 + length out)" err] by linarith
    moreover have "length (take (avail - (23 + length err)) out) + (23 + length err) \<le> avail"
      if "length err \<le> avail div 2"
      using that avail(1) takes [of "avail - (23 + length err)" out] by linarith
    ultimately show ?thesis
      using False avail by (auto simp add: expand marks not_less simp del: length_take)
  qed
  moreover have "truncate_output out err capacity = out @ title @ err"
    if "length out + length err + (if err = [] then 0 else 24) < capacity"
    using that avail by (simp add: expand title)
  ultimately show ?thesis by (simp add: title_def)
qed

theorem truncate_output_bound_witness:
  "length (truncate_output (replicate 200 CHR ''x'') (replicate 300 CHR ''y'') 100) \<le> 100"
  using truncate_output_bound [of 100 "replicate 200 CHR ''x''" "replicate 300 CHR ''y''"] by simp

subsection \<open>The status of a document\<close>

text \<open>The status the results of the executed steps stand for.\<close>

definition overall_status :: "step_result list \<Rightarrow> string" where
  "overall_status srs =
     (if \<exists>s \<in> set srs. sr_status s = ''Cancelled'' then ''Cancelled''
      else if \<forall>s \<in> set srs. sr_status s \<in> {''Success'', ''Skipped''} then ''Success''
      else ''Failed'')"

lemma finish_step_fields:
  "sr_plugin_id (finish_step sr er) = sr_plugin_id sr"
  "sr_action (finish_step sr er) = sr_action sr"
  "sr_status (finish_step sr er) =
     (if er_cancelled er then ''Cancelled'' else if er_error er \<noteq> [] then ''Failed''
      else if er_timed_out er then ''TimedOut''
      else if er_exit_code er = 0 then ''Success'' else ''Failed'')"
  by (simp_all add: finish_step_def Let_def)

text \<open>One step: its status is one of the five, its identifier is the document's, and the new
  status of the document follows from it.\<close>

definition step_outcome :: "doc_step \<Rightarrow> string \<Rightarrow> (step_result \<times> string \<times> bool) option \<Rightarrow> bool" where
  "step_outcome st status r \<longleftrightarrow>
     (case r of
        None \<Rightarrow> True
      | Some (sr, status', stop) \<Rightarrow>
          sr_plugin_id sr = ds_plugin_id st \<and> sr_action sr = ds_action st \<and>
          (stop \<longleftrightarrow> sr_status sr = ''Cancelled'') \<and>
          status' = (if sr_status sr = ''Cancelled'' then ''Cancelled''
                     else if sr_status sr \<in> {''Success'', ''Skipped''} then status
                     else ''Failed''))"

lemma run_step_outcome:
  "status \<in> {''Success'', ''Failed''} \<Longrightarrow>
   yields (step_outcome st status) (run_step e opts ps dps st status)"
  unfolding run_step_def skipped_def unsupported_def Let_def State_Monad.bind_assoc
    State_Monad.bind_left_identity
  by (intro yields_rules)
    (auto simp: step_outcome_def new_step_result_def finish_step_fields next_status_def)

definition document_ok :: "string list \<Rightarrow> outcome \<Rightarrow> bool" where
  "document_ok ids out \<longleftrightarrow>
     do_status out = overall_status (do_steps out) \<and>
     (\<forall>s \<in> set (butlast (do_steps out)). sr_status s \<noteq> ''Cancelled'') \<and>
     map sr_plugin_id (do_steps out) = take (length (do_steps out)) ids \<and>
     (do_status out \<noteq> ''Cancelled'' \<longrightarrow> map sr_plugin_id (do_steps out) = ids)"

lemma overall_status_snoc:
  "overall_status (srs @ [s]) =
     (if overall_status srs = ''Cancelled'' \<or> sr_status s = ''Cancelled'' then ''Cancelled''
      else if sr_status s \<in> {''Success'', ''Skipped''} then overall_status srs else ''Failed'')"
  by (auto simp: overall_status_def)

text \<open>The loop, from results that stand for the status so far.\<close>

lemma run_steps_outcome:
  assumes "do_status out = overall_status (do_steps out)"
    and "\<forall>s \<in> set (do_steps out). sr_status s \<noteq> ''Cancelled''"
    and "map sr_plugin_id (do_steps out) = ids"
  shows "yields (\<lambda>r. case r of None \<Rightarrow> True
                   | Some out' \<Rightarrow> document_ok (ids @ map ds_plugin_id sts) out' \<and> do_trace out' = do_trace out)
           (run_steps e opts ps dps sts out)"
  using assms
proof (induction sts arbitrary: out ids)
  case Nil
  then have "document_ok ids out"
    unfolding document_ok_def by (auto dest: in_set_butlastD)
  then show ?case by (simp add: yields_def)
next
  case (Cons st sts)
  from Cons.prems(1,2) have status: "do_status out \<in> {''Success'', ''Failed''}"
    by (auto simp: overall_status_def)
  show ?case
    unfolding run_steps.simps
  proof (rule yields_seq [OF run_step_outcome [OF status]], intro yields_case_option, goal_cases)
    case 1
    then show ?case by (simp add: yields_def)
  next
    case (2 r y)
    obtain sr status' stop where y: "y = (sr, status', stop)" by (cases y)
    let ?out = "out\<lparr>do_steps := do_steps out @ [sr], do_status := status'\<rparr>"
    from 2 y have step: "step_outcome st (do_status out) (Some (sr, status', stop))" by simp
    from status step Cons.prems have status': "status' = overall_status (do_steps out @ [sr])"
      by (auto simp: step_outcome_def overall_status_snoc)
    show ?case
    proof (cases stop)
      case True
      with step status' Cons.prems have "document_ok (ids @ map ds_plugin_id (st # sts)) ?out"
        by (auto simp: document_ok_def step_outcome_def)
      with True y show ?thesis by (simp add: yields_def)
    next
      case False
      have "do_status ?out = overall_status (do_steps ?out)"
        and "\<forall>s \<in> set (do_steps ?out). sr_status s \<noteq> ''Cancelled''"
        and "map sr_plugin_id (do_steps ?out) = ids @ [ds_plugin_id st]"
        using step status' Cons.prems False by (auto simp: step_outcome_def)
      from Cons.IH [OF this] False y show ?thesis by (simp cong: option.case_cong)
    qed
  qed
qed

text \<open>C24: when a document returns, its status is the one its steps stand for (Cancelled if a
  step was, Success if all succeeded or were skipped, Failed otherwise); the results are those of
  the first steps of the document in order, of all of them unless it was cancelled; no step runs
  after a cancelled one; a document without steps is Failed, with a reason.\<close>

theorem run_document_status:
  assumes "run_state (run_document e doc params opts) w = (Some out, w')"
  shows "if document_steps doc = []
         then do_status out = ''Failed'' \<and> do_steps out = [] \<and> do_trace out \<noteq> []
         else document_ok (map ds_plugin_id (document_steps doc)) out \<and> do_trace out = []"
proof (cases "document_steps doc = []")
  case True
  with assms show ?thesis by (auto simp: run_document_def Let_def)
next
  case False
  let ?out = "\<lparr>do_status = ''Success'', do_steps = [], do_trace = []\<rparr>"
  from False assms have "run_state (run_steps e opts params
      (or_null (find_key doc ''parameters'')) (document_steps doc) ?out) w = (Some out, w')"
    by (simp add: run_document_def Let_def)
  from yieldsD [OF run_steps_outcome this, of "[]"] False show ?thesis
    by (simp add: overall_status_def)
qed

subsection \<open>What the reply counts\<close>

definition count_status :: "string \<Rightarrow> step_result list \<Rightarrow> nat" where
  "count_status st steps = length (filter (\<lambda>s. sr_status s = st) steps)"

lemma map_of_status_counts:
  assumes "int (length steps) < 2 ^ 31"
  shows "map_of (status_counts steps) st =
     (if count_status st steps = 0 then None else Some (num_int (int (count_status st steps))))"
  using assms
proof (induction steps arbitrary: st rule: rev_induct)
  case Nil
  then show ?case by (simp add: status_counts_def count_status_def)
next
  case (snoc s steps)
  let ?n = "count_status (sr_status s) steps"
  have "int ?n < 2 ^ 31"
    using snoc.prems unfolding count_status_def
    by (smt (verit) length_append length_filter_le of_nat_mono of_nat_add of_nat_0_le_iff)
  then have "double_to_int32 (double_of_int (int ?n)) = int ?n"
    by (intro double_to_int32_of_int) auto
  with snoc show ?case
    by (auto simp: status_counts_def add_count_def Let_def num_int_def count_status_def)
qed

lemma map_of_map_find:
  "map_of (map (\<lambda>s. (f s, g s)) xs) k = map_option g (List.find (\<lambda>s. f s = k) xs)"
  by (induction xs) auto

text \<open>C33: the reply is JSON that reads back to what was reported: the status of the document,
  for every status the number of steps that have it, and for every step identifier the result of
  the last step of that identifier (so steps that share an identifier share one entry).\<close>

theorem reply_reports:
  assumes "run_state (reply_payload e agent status tr steps) w = (reply, w')"
    and "int (length steps) < 2 ^ 31"
    and "\<And>s. s \<in> set steps \<Longrightarrow> \<bar>sr_code s\<bar> < 2 ^ 31"
  shows "\<exists>j info counts runtime.
    json_parse reply = Inr j \<and> str_of j ''documentStatus'' = status \<and>
    find_key j ''additionalInfo'' = Some info \<and> find_key info ''runtimeStatusCounts'' = Some counts \<and>
    find_key j ''runtimeStatus'' = Some runtime \<and>
    (\<forall>st. find_key counts st =
       (if count_status st steps = 0 then None else Some (num_int (int (count_status st steps))))) \<and>
    (\<forall>pid. find_key runtime pid =
       map_option step_json (List.find (\<lambda>s. sr_plugin_id s = pid) (rev steps)))"
proof -
  obtain t where reply: "reply = json_dump (reply_json agent status tr steps t)"
    using assms(1) by (auto simp: reply_payload_def split: prod.splits)
  have counts: "json_safe (VObj (status_counts steps))"
  proof -
    have ok: "smap_ok (status_counts steps)"
      unfolding status_counts_def
      by (induction steps rule: rev_induct) (auto simp: add_count_def Let_def smap_simps)
    have "json_safe v" if "(k, v) \<in> set (status_counts steps)" for k v
    proof -
      from that ok have "map_of (status_counts steps) k = Some v"
        by (simp add: smap_ok_distinct)
      with map_of_status_counts [OF assms(2), of k]
      have v: "v = num_int (int (count_status k steps))" by (simp split: if_splits)
      have "count_status k steps \<le> length steps" by (simp add: count_status_def)
      with assms(2) show ?thesis unfolding v by (intro safe_num_int) simp
    qed
    with ok show ?thesis by auto
  qed
  have "json_safe (step_json s)" if "s \<in> set steps" for s
    unfolding step_json_def using assms(3) [OF that]
    by (intro json_safe_mk_obj) (auto intro!: safe_num_int)
  then have "json_safe (mk_obj (map (\<lambda>s. (sr_plugin_id s, step_json s)) steps))"
    by (intro json_safe_mk_obj) auto
  with counts have "json_safe (reply_json agent status tr steps t)"
    unfolding reply_json_def agent_json_def by (intro json_safe_mk_obj) (auto intro!: json_safe_mk_obj)
  then have parse: "json_parse reply = Inr (reply_json agent status tr steps t)"
    unfolding reply by (rule json_parse_dump)
  have "map_of (rev (map (\<lambda>s. (sr_plugin_id s, step_json s)) steps)) pid =
      map_option step_json (List.find (\<lambda>s. sr_plugin_id s = pid) (rev steps))" for pid
    by (simp add: rev_map map_of_map_find)
  with parse show ?thesis
    unfolding reply_json_def
    by (simp add: str_at_def find_key_mk_obj str_or_def map_of_status_counts [OF assms(2)])
      (simp add: find_key_def map_of_status_counts [OF assms(2)])
qed

definition sample_document :: json where
  "sample_document = mk_obj [(''mainSteps'', VArr
     [mk_obj [(''action'', VString ''aws:runShellScript''), (''name'', VString ''a''),
              (''inputs'', mk_obj [(''runCommand'', VArr [VString ''echo {{ word }}''])])],
      mk_obj [(''action'', VString ''aws:runPowerShellScript''), (''name'', VString ''b'')]])]"

definition sample_parameters :: json where
  "sample_parameters = mk_obj [(''word'', VString ''hello'')]"

definition sample_agent :: agent_info where
  "sample_agent = \<lparr>ai_name = ''agent'', ai_version = ''1.0'', ai_lang = ''en-US'', ai_os = ''Haiku'',
     ai_os_ver = ''hrev1''\<rparr>"

definition sample_inputs :: json where
  "sample_inputs = mk_obj [(''runCommand'', VArr [VString ''echo {{ word }}''])]"

lemma sample_document_steps:
  "document_steps sample_document =
     [\<lparr>ds_plugin_id = ''a'', ds_action = run_shell_script, ds_inputs = sample_inputs, ds_precondition = VNull\<rparr>,
      \<lparr>ds_plugin_id = ''b'', ds_action = ''aws:runPowerShellScript'', ds_inputs = VNull, ds_precondition = VNull\<rparr>]"
  "or_null (find_key sample_document ''parameters'') = VNull"
  by code_simp+

lemma sample_inputs_resolved:
  "command_lines (resolve sample_inputs sample_parameters VNull) = [''echo hello'']"
  "str_of (resolve sample_inputs sample_parameters VNull) ''workingDirectory'' = []"
  "find_key (resolve sample_inputs sample_parameters VNull) ''timeoutSeconds'' = None"
  "trim ''echo hello'' = ''echo hello''"
  by code_simp+

lemma sample_timeout:
  "double_to_int32 (num_at (resolve sample_inputs sample_parameters VNull) ''timeoutSeconds''
     (double_of_int 3600)) = 3600"
  by (simp add: num_at_def sample_inputs_resolved double_to_int32_of_int)

lemma sample_now:
  "run_state (now_ms sample_env) w =
     (1700000000000 + 1000 * int (at_clock w), w\<lparr>at_clock := Suc (at_clock w)\<rparr>)"
  by (simp add: now_ms_def sample_env_def)

definition sample_result :: exec_result where
  "sample_result = new_result\<lparr>er_exit_code := 3, er_stdout := ''hello'',
     er_log := [(Bytes ''hello'', Quiet), (Closed, Closed)]\<rparr>"

lemma sample_shell:
  "5 \<le> cap \<Longrightarrow> 5 \<le> t \<Longrightarrow> run_state (shell sample_env script t d cap hc) w =
     (Some sample_result, w\<lparr>at_child := Suc (at_child w), trace := trace w @ [EvShell script]\<rparr>)"
  by (simp add: shell_def sample_env_def sample_child_finishes emit_def sample_result_def)

lemma sample_finish:
  "sr_status (finish_step sr sample_result) = ''Failed''"
  "sr_code (finish_step sr sample_result) = 3"
  "er_cancelled sample_result = False"
  by (simp_all add: finish_step_def Let_def new_result_def sample_result_def)

lemma sample_document_runs:
  "case run_state (run_document sample_env sample_document sample_parameters new_options) sample_world of
     (Some out, w) \<Rightarrow>
       do_status out = ''Failed'' \<and> map sr_code (do_steps out) = [3, 1] \<and>
       trace w = [EvShell ''echo hello'']
   | _ \<Rightarrow> False"
  by (simp add: run_document_def sample_document_steps run_step_def Let_def sample_now
      precondition_excludes_step_def is_obj_def sample_inputs_resolved sample_timeout sample_shell
      sample_finish new_options_def max_stdout_length_def next_status_def unsupported_def
      sample_world_def run_shell_script_def)

theorem run_document_status_witness:
  "\<exists>out w'. run_state (run_document sample_env sample_document sample_parameters new_options) sample_world =
       (Some out, w') \<and> document_ok [''a'', ''b''] out"
proof -
  obtain out w' where r: "run_state (run_document sample_env sample_document sample_parameters new_options)
      sample_world = (Some out, w')"
    using sample_document_runs by (auto split: prod.splits option.splits)
  have "map ds_plugin_id (document_steps sample_document) = [''a'', ''b'']" by code_simp
  with run_document_status [OF r] r show ?thesis by (auto split: if_splits)
qed

theorem reply_reports_witness:
  "\<exists>reply j. json_parse reply = Inr j \<and> str_of j ''documentStatus'' = ''Failed'' \<and>
     fst (run_state (reply_payload sample_env sample_agent ''Failed'' []
       [new_step_result ''a'' ''x'', new_step_result ''b'' ''y'']) sample_world) = reply"
proof -
  obtain reply w' where r: "run_state (reply_payload sample_env sample_agent ''Failed'' []
      [new_step_result ''a'' ''x'', new_step_result ''b'' ''y'']) sample_world = (reply, w')"
    by fastforce
  have "\<bar>sr_code s\<bar> < 2 ^ 31" if "s \<in> set [new_step_result ''a'' ''x'', new_step_result ''b'' ''y'']" for s
    using that by (auto simp: new_step_result_def)
  from reply_reports [OF r _ this] r show ?thesis by auto
qed

end
