(* ===== verification/Outbox.thy ===== *)
theory Outbox
  imports Prelude
begin

text \<open>
  The retransmission buffer of \<open>src/src/session.cpp\<close> (class \<open>Outbox\<close>): frames wait in it
  until the client acknowledges their sequence number; the oldest is sent again every 250 ms, and
  when it has been sent 240 times more without an answer the peer counts as gone.

  The locale \<open>resend_buffer\<close> is the interface the session uses; in it the contents are
  compared with the specification, the frames sent so far and how many of them are acknowledged.
\<close>

subsection \<open>The buffer\<close>

record entry =
  oe_seq :: int
  oe_frame :: string
  oe_last_sent :: int
  oe_resends :: int

definition resend_interval :: int where "resend_interval = 250"
definition max_resends :: int where "max_resends = 240"
definition max_buffered :: nat where "max_buffered = 8192"

definition outbox_add :: "int \<Rightarrow> string \<Rightarrow> int \<Rightarrow> entry list \<Rightarrow> entry list" where
  "outbox_add seq frame now buf =
     (if max_buffered \<le> length buf then tl buf else buf) @
     [\<lparr>oe_seq = seq, oe_frame = frame, oe_last_sent = now, oe_resends = 0\<rparr>]"

fun outbox_ack :: "int \<Rightarrow> entry list \<Rightarrow> entry list" where
  "outbox_ack seq [] = []"
| "outbox_ack seq (e # buf) = (if oe_seq e \<le> seq then outbox_ack seq buf else e # buf)"

text \<open>The frame to send again, whether the peer is dead, and the buffer.\<close>

fun due_resend :: "int \<Rightarrow> entry list \<Rightarrow> string option \<times> bool \<times> entry list" where
  "due_resend now [] = (None, False, [])"
| "due_resend now (e # buf) =
     (if now - oe_last_sent e < resend_interval then (None, False, e # buf)
      else if max_resends \<le> oe_resends e then (None, True, e # buf)
      else (Some (oe_frame e), False,
            e\<lparr>oe_last_sent := now, oe_resends := oe_resends e + 1\<rparr> # buf))"

subsection \<open>The interface\<close>

datatype outbox_op = Send string int | Acked int | Tick int

text \<open>The specification: what was sent, and how many of the first are acknowledged. An
  acknowledgement of a number not yet sent counts for what was sent.\<close>

fun sent_step :: "outbox_op \<Rightarrow> string list \<times> nat \<Rightarrow> string list \<times> nat" where
  "sent_step (Send f t) (sent, acked) = (sent @ [f], acked)"
| "sent_step (Acked q) (sent, acked) = (sent, max acked (min (nat (q + 1)) (length sent)))"
| "sent_step (Tick t) s = s"

definition sent_frames :: "outbox_op list \<Rightarrow> string list \<times> nat" where
  "sent_frames ops = fold sent_step ops ([], 0)"

locale resend_buffer =
  fixes capacity :: nat
    and empty :: 'b
    and add :: "int \<Rightarrow> string \<Rightarrow> int \<Rightarrow> 'b \<Rightarrow> 'b"
    and ack :: "int \<Rightarrow> 'b \<Rightarrow> 'b"
    and resend :: "int \<Rightarrow> 'b \<Rightarrow> string option \<times> bool \<times> 'b"
    and contents :: "'b \<Rightarrow> (int \<times> string) list"
  assumes capacity: "0 < capacity"
    and contents_empty: "contents empty = []"
    and contents_add: "contents (add q f t b) =
      (if capacity \<le> length (contents b) then tl (contents b) else contents b) @ [(q, f)]"
    and contents_ack: "contents (ack q b) = dropWhile (\<lambda>e. fst e \<le> q) (contents b)"
    and contents_resend: "resend t b = (r, dead, b') \<Longrightarrow> contents b' = contents b"
    and resend_head: "resend t b = (Some f, dead, b') \<Longrightarrow> \<exists>q. (q, f) \<in> set (take 1 (contents b))"
begin

text \<open>The client numbers what it sends from 0, as \<open>send_stream\<close> does with \<open>out_seq\<close>.\<close>

fun step :: "outbox_op \<Rightarrow> nat \<times> 'b \<Rightarrow> nat \<times> 'b" where
  "step (Send f t) (n, b) = (Suc n, add (int n) f t b)"
| "step (Acked q) (n, b) = (n, ack q b)"
| "step (Tick t) (n, b) = (n, snd (snd (resend t b)))"

definition run :: "outbox_op list \<Rightarrow> nat \<times> 'b" where
  "run ops = fold step ops (0, empty)"

definition pending :: "string list \<times> nat \<Rightarrow> (int \<times> string) list" where
  "pending s = (case s of (sent, acked) \<Rightarrow>
     drop (max acked (length sent - capacity)) (zip (map int [0..<length sent]) sent))"

lemma dropWhile_numbered:
  "dropWhile (\<lambda>e. fst e \<le> q) (drop k (zip (map int [0..<length sent]) sent)) =
   drop (max k (min (nat (q + 1)) (length sent))) (zip (map int [0..<length sent]) sent)"
proof (induction "length sent - k" arbitrary: k)
  case 0
  then show ?case by simp
next
  case (Suc d)
  let ?z = "zip (map int [0..<length sent]) sent"
  from Suc.hyps(2) have k: "k < length sent" by simp
  then have z: "drop k ?z = (int k, sent ! k) # drop (Suc k) ?z"
    by (subst Cons_nth_drop_Suc [symmetric]) simp_all
  show ?case
  proof (cases "int k \<le> q")
    case True
    have m: "max (Suc k) (min (nat (q + 1)) (length sent)) = max k (min (nat (q + 1)) (length sent))"
    proof -
      from True have "Suc k \<le> nat (q + 1)" by linarith
      with k show ?thesis by simp
    qed
    from Suc.hyps(1) [of "Suc k"] Suc.hyps(2) have "dropWhile (\<lambda>e. fst e \<le> q) (drop (Suc k) ?z) =
        drop (max k (min (nat (q + 1)) (length sent))) ?z"
      unfolding m by simp
    with True show ?thesis unfolding z by simp
  next
    case False
    then have m: "max k (min (nat (q + 1)) (length sent)) = k" by linarith
    show ?thesis unfolding m using z False by simp
  qed
qed

lemma run_spec:
  "length (fst (sent_frames ops)) = fst (run ops) \<and> snd (sent_frames ops) \<le> fst (run ops) \<and>
   contents (snd (run ops)) = pending (sent_frames ops)"
proof (induction ops rule: rev_induct)
  case Nil
  then show ?case by (simp add: run_def sent_frames_def pending_def contents_empty)
next
  case (snoc op ops)
  obtain n b where r: "run ops = (n, b)" by (cases "run ops")
  obtain sent acked where s: "sent_frames ops = (sent, acked)" by (cases "sent_frames ops")
  from snoc r s have ih: "length sent = n" "acked \<le> n" "contents b = pending (sent, acked)" by simp_all
  have run': "run (ops @ [op]) = step op (n, b)" and spec': "sent_frames (ops @ [op]) = sent_step op (sent, acked)"
    using r s by (simp_all add: run_def sent_frames_def)
  show ?case
  proof (cases op)
    case (Send f t)
    let ?z = "zip (map int [0..<n]) sent"
    have c: "contents b = drop (max acked (n - capacity)) ?z"
      using ih by (simp add: pending_def)
    define k where "k = max acked (n - capacity)"
    have z: "length ?z = n" "k \<le> n" using ih by (simp_all add: k_def)
    have "contents (add (int n) f t b) = drop (max acked (Suc n - capacity)) (?z @ [(int n, f)])"
    proof (cases "capacity \<le> n - k")
      case True
      with z capacity have "max acked (Suc n - capacity) = Suc k" "Suc k \<le> n"
        unfolding k_def by (auto simp: max_def split: if_splits)
      with True z show ?thesis
        unfolding contents_add c k_def [symmetric] by (simp add: drop_Suc tl_drop)
    next
      case False
      with z have "max acked (Suc n - capacity) = k"
        unfolding k_def by (auto simp: max_def split: if_splits)
      with False z show ?thesis
        unfolding contents_add c k_def [symmetric] by simp
    qed
    with Send ih(1,2) run' spec' show ?thesis by (simp add: pending_def)
  next
    case (Acked q)
    from ih(1,3) have "contents (ack q b) = pending (sent, max acked (min (nat (q + 1)) (length sent)))"
      using dropWhile_numbered [of q "max acked (length sent - capacity)" sent]
      by (simp add: contents_ack pending_def max.assoc max.commute max.left_commute)
    with Acked ih run' spec' show ?thesis by simp
  next
    case (Tick t)
    with ih run' spec' show ?thesis
      by (cases "resend t b") (simp add: contents_resend)
  qed
qed

end

definition outbox_contents :: "entry list \<Rightarrow> (int \<times> string) list" where
  "outbox_contents buf = map (\<lambda>e. (oe_seq e, oe_frame e)) buf"

lemma outbox_ack_dropWhile: "outbox_ack q buf = dropWhile (\<lambda>e. oe_seq e \<le> q) buf"
  by (induction q buf rule: outbox_ack.induct) simp_all

interpretation outbox: resend_buffer max_buffered "[]" outbox_add outbox_ack due_resend outbox_contents
proof
  show "outbox_contents (outbox_ack q b) = dropWhile (\<lambda>e. fst e \<le> q) (outbox_contents b)" for q b
    by (simp add: outbox_ack_dropWhile outbox_contents_def dropWhile_map comp_def)
next
  fix t b r dead b'
  assume "due_resend t b = (r, dead, b')"
  then show "outbox_contents b' = outbox_contents b"
    by (cases b) (auto simp: outbox_contents_def split: if_splits)
next
  fix t b f dead b'
  assume "due_resend t b = (Some f, dead, b')"
  then show "\<exists>q. (q, f) \<in> set (take 1 (outbox_contents b))"
    by (cases b) (auto simp: outbox_contents_def split: if_splits)
qed (simp_all add: outbox_contents_def outbox_add_def max_buffered_def map_tl)

subsection \<open>The properties of the buffer\<close>

text \<open>The states a session takes the buffer through: it numbers its frames from 0.\<close>

fun outbox_step :: "outbox_op \<Rightarrow> nat \<times> entry list \<Rightarrow> nat \<times> entry list" where
  "outbox_step (Send f t) (n, buf) = (Suc n, outbox_add (int n) f t buf)"
| "outbox_step (Acked q) (n, buf) = (n, outbox_ack q buf)"
| "outbox_step (Tick t) (n, buf) = (n, snd (snd (due_resend t buf)))"

definition outbox_run :: "outbox_op list \<Rightarrow> nat \<times> entry list" where
  "outbox_run ops = fold outbox_step ops (0, [])"

lemma outbox_run_client: "outbox_run ops = outbox.run ops"
proof -
  have "outbox_step op nb = outbox.step op nb" for op nb
    by (cases op; cases nb) simp_all
  then have "outbox_step = outbox.step" by (intro ext)
  then show ?thesis by (simp add: outbox_run_def outbox.run_def)
qed

text \<open>C17: after any sequence of sends, acknowledgements and timer ticks the buffer holds exactly
  the frames that were sent and not yet acknowledged, in order and under their numbers, except
  that of more than 8192 only the newest 8192 are kept.\<close>

theorem outbox_holds_unacked:
  "map (\<lambda>e. (oe_seq e, oe_frame e)) (snd (outbox_run ops)) =
     (case sent_frames ops of (sent, acked) \<Rightarrow>
        drop (max acked (length sent - 8192)) (zip (map int [0..<length sent]) sent)) \<and>
   length (snd (outbox_run ops)) \<le> 8192"
proof -
  have c: "map (\<lambda>e. (oe_seq e, oe_frame e)) (snd (outbox_run ops)) =
     (case sent_frames ops of (sent, acked) \<Rightarrow>
        drop (max acked (length sent - 8192)) (zip (map int [0..<length sent]) sent))"
    using outbox.run_spec [of ops]
    unfolding outbox_run_client outbox_contents_def outbox.pending_def
    by (simp add: max_buffered_def)
  from arg_cong [OF this, of length] have "length (snd (outbox_run ops)) \<le> 8192"
    by (auto split: prod.splits)
  with c show ?thesis by simp
qed

text \<open>The time the frame of a number was first sent, and the invariant of the timer: between two
  transmissions of a frame lie at least 250 ms, and there are at most 240 retransmissions.\<close>

fun first_sent :: "nat \<Rightarrow> outbox_op list \<Rightarrow> int" where
  "first_sent n [] = 0"
| "first_sent n (Send f t # ops) = (if n = 0 then t else first_sent (n - 1) ops)"
| "first_sent n (_ # ops) = first_sent n ops"

fun sends :: "outbox_op list \<Rightarrow> nat" where
  "sends [] = 0"
| "sends (Send f t # ops) = Suc (sends ops)"
| "sends (_ # ops) = sends ops"

lemma sends_append: "sends (ops @ ops') = sends ops + sends ops'"
  by (induction ops rule: sends.induct) simp_all

lemma first_sent_append:
  "first_sent n (ops @ ops') = (if n < sends ops then first_sent n ops else first_sent (n - sends ops) ops')"
  by (induction n ops rule: first_sent.induct) auto

definition timer_ok :: "outbox_op list \<Rightarrow> entry \<Rightarrow> bool" where
  "timer_ok ops e \<longleftrightarrow>
     0 \<le> oe_seq e \<and> oe_seq e < int (sends ops) \<and> 0 \<le> oe_resends e \<and> oe_resends e \<le> max_resends \<and>
     first_sent (nat (oe_seq e)) ops + resend_interval * oe_resends e \<le> oe_last_sent e"

lemma timer_ok_append: "timer_ok ops e \<Longrightarrow> timer_ok (ops @ ops') e"
  by (auto simp: timer_ok_def first_sent_append sends_append)

lemma outbox_run_snoc: "outbox_run (ops @ [op]) = outbox_step op (outbox_run ops)"
  by (simp add: outbox_run_def)

lemma outbox_timers:
  "fst (outbox_run ops) = sends ops \<and> (\<forall>e \<in> set (snd (outbox_run ops)). timer_ok ops e)"
proof (induction ops rule: rev_induct)
  case Nil
  then show ?case by (simp add: outbox_run_def)
next
  case (snoc op ops)
  obtain n buf where r: "outbox_run ops = (n, buf)" by (cases "outbox_run ops")
  with snoc have n: "n = sends ops" and ok: "\<forall>e \<in> set buf. timer_ok (ops @ [op]) e"
    by (auto intro: timer_ok_append)
  show ?case
  proof (cases op)
    case (Send f t)
    have "timer_ok (ops @ [op]) \<lparr>oe_seq = int n, oe_frame = f, oe_last_sent = t, oe_resends = 0\<rparr>"
      using Send n by (simp add: timer_ok_def sends_append first_sent_append max_resends_def)
    moreover have "set (tl buf) \<subseteq> set buf" by (cases buf) auto
    ultimately show ?thesis
      using Send n ok r by (auto simp: outbox_run_snoc outbox_add_def sends_append)
  next
    case (Acked q)
    with n ok r show ?thesis
      by (auto simp: outbox_run_snoc outbox_ack_dropWhile sends_append dest: set_dropWhileD)
  next
    case (Tick t)
    show ?thesis
    proof (cases buf)
      case (Cons e rest)
      with ok have "timer_ok (ops @ [op]) e" by simp
      then have "timer_ok (ops @ [op]) (e\<lparr>oe_last_sent := t, oe_resends := oe_resends e + 1\<rparr>)"
        if "\<not> t - oe_last_sent e < resend_interval" and "\<not> max_resends \<le> oe_resends e"
        using that by (auto simp: timer_ok_def algebra_simps)
      with Tick Cons n ok r show ?thesis by (auto simp: outbox_run_snoc sends_append)
    qed (use Tick n r in \<open>simp add: outbox_run_snoc sends_append\<close>)
  qed
qed

text \<open>C36: the peer counts as dead only when the oldest unacknowledged frame was first sent at
  least 60.25 seconds ago, so 241 transmissions at least 250 ms apart went unanswered.\<close>

theorem outbox_dead_after_a_minute:
  assumes "due_resend now (snd (outbox_run ops)) = (r, True, buf)"
  shows "\<exists>e rest. snd (outbox_run ops) = e # rest \<and> first_sent (nat (oe_seq e)) ops + 60250 \<le> now"
proof (cases "snd (outbox_run ops)")
  case Nil
  with assms show ?thesis by simp
next
  case (Cons e rest)
  with outbox_timers [of ops] have t: "timer_ok ops e" by simp
  from assms Cons have "resend_interval \<le> now - oe_last_sent e" "max_resends \<le> oe_resends e"
    by (simp_all split: if_splits)
  with t have "first_sent (nat (oe_seq e)) ops + 60250 \<le> now"
    by (simp add: timer_ok_def resend_interval_def max_resends_def)
  with Cons show ?thesis by simp
qed

text \<open>A peer that never answers a frame sent at time 0, with a tick every second.\<close>

definition silent_peer :: "nat \<Rightarrow> outbox_op list" where
  "silent_peer k = Send ''hi'' 0 # map (\<lambda>i. Tick (1000 * int i)) [1..<Suc k]"

lemma silent_peer_run:
  "k \<le> 240 \<Longrightarrow> outbox_run (silent_peer k) =
     (1, [\<lparr>oe_seq = 0, oe_frame = ''hi'', oe_last_sent = 1000 * int k, oe_resends = int k\<rparr>])"
proof (induction k)
  case 0
  show ?case by (simp add: silent_peer_def outbox_run_def outbox_add_def max_buffered_def)
next
  case (Suc k)
  have "silent_peer (Suc k) = silent_peer k @ [Tick (1000 * int (Suc k))]"
    by (simp add: silent_peer_def)
  with Suc show ?case
    by (simp add: outbox_run_snoc resend_interval_def max_resends_def)
qed

theorem outbox_dead_after_a_minute_witness:
  "\<exists>e rest. snd (outbox_run (silent_peer 240)) = e # rest \<and>
     first_sent (nat (oe_seq e)) (silent_peer 240) + 60250 \<le> 241000"
proof (rule outbox_dead_after_a_minute)
  show "due_resend 241000 (snd (outbox_run (silent_peer 240))) =
      (None, True, snd (outbox_run (silent_peer 240)))"
    by (simp add: silent_peer_run resend_interval_def max_resends_def)
qed

end
