(* ===== verification/Aws.thy ===== *)
theory Aws
  imports World
begin

text \<open>
  Instance metadata, credentials, request signing and the calls of the service,
  \<open>src/src/aws.cpp\<close>. The state of the one \<open>Imds\<close> and the one
  \<open>CredentialProvider\<close> of the process extends the world; SHA-256 and HMAC are functions
  of the environment. The mutexes make each operation one step.

  The lemmas show where the credentials the provider serves come from and when they are served
  from the cache, and that a signed request carries exactly the headers its signature covers.
\<close>

subsection \<open>Credentials and identity\<close>

record credentials =
  cr_access_key :: string
  cr_secret_key :: string
  cr_token :: string
  cr_expires_at :: int

definition new_credentials :: credentials where
  "new_credentials = \<lparr>cr_access_key = [], cr_secret_key = [], cr_token = [], cr_expires_at = 0\<rparr>"

definition creds_empty :: "credentials \<Rightarrow> bool" where
  "creds_empty c \<longleftrightarrow> cr_access_key c = [] \<or> cr_secret_key c = []"

definition stale :: "credentials \<Rightarrow> int \<Rightarrow> int \<Rightarrow> bool" where
  "stale c now margin \<longleftrightarrow>
     creds_empty c \<or> (cr_expires_at c \<noteq> 0 \<and> cr_expires_at c \<le> now + margin)"

record identity =
  id_instance_id :: string
  id_region :: string
  id_availability_zone :: string
  id_private_ip :: string
  id_hostname :: string

definition identity_valid :: "identity \<Rightarrow> bool" where
  "identity_valid i \<longleftrightarrow> id_instance_id i \<noteq> [] \<and> id_region i \<noteq> []"

record aws_world = world +
  imds_token :: string
  imds_expires :: int
  cached :: credentials

subsection \<open>Instance metadata\<close>

definition imds_host :: string where "imds_host = ''169.254.169.254''"

definition token_request :: request where
  "token_request = new_request\<lparr>req_method := ''PUT'', req_tls := False, req_host := imds_host,
     req_path := ''/latest/api/token'', req_timeout_ms := 5000,
     req_headers := [(''X-aws-ec2-metadata-token-ttl-seconds'', ''21600'')]\<rparr>"

definition fetch_token :: "'e env_scheme \<Rightarrow> ('w aws_world_scheme, string) state" where
  "fetch_token e = do {
     now \<leftarrow> now_s e;
     tok \<leftarrow> gets imds_token;
     expires \<leftarrow> gets imds_expires;
     if tok \<noteq> [] \<and> now + 60 < expires then ret tok
     else do {
       resp \<leftarrow> perform e token_request;
       if \<not> resp_ok resp \<or> resp_body resp = [] then ret []
       else do {
         modify (\<lambda>w. w\<lparr>imds_token := trim (resp_body resp), imds_expires := now + 21600\<rparr>);
         ret (trim (resp_body resp)) } } }"

definition imds_get :: "'e env_scheme \<Rightarrow> string \<Rightarrow> ('w aws_world_scheme, string) state" where
  "imds_get e path = do {
     tok \<leftarrow> fetch_token e;
     if tok = [] then ret []
     else do {
       resp \<leftarrow> perform e (new_request\<lparr>req_method := ''GET'', req_tls := False,
         req_host := imds_host, req_path := path, req_timeout_ms := 5000,
         req_headers := [(''X-aws-ec2-metadata-token'', tok)]\<rparr>);
       ret (if resp_ok resp then resp_body resp else []) } }"

text \<open>The time of the Date header, which needs no token.\<close>

definition server_time :: "'e env_scheme \<Rightarrow> ('w world_scheme, int option) state" where
  "server_time e = do {
     resp \<leftarrow> perform e token_request;
     ret (case map_of (resp_headers resp) ''date'' of
            None \<Rightarrow> None
          | Some d \<Rightarrow> (let epoch = parse_http_date d in if epoch \<le> 0 then None else Some epoch)) }"

definition imds_identity :: "'e env_scheme \<Rightarrow> ('w aws_world_scheme, identity) state" where
  "imds_identity e = do {
     i \<leftarrow> imds_get e ''/latest/meta-data/instance-id'';
     r \<leftarrow> imds_get e ''/latest/meta-data/placement/region'';
     z \<leftarrow> imds_get e ''/latest/meta-data/placement/availability-zone'';
     p \<leftarrow> imds_get e ''/latest/meta-data/local-ipv4'';
     h \<leftarrow> imds_get e ''/latest/meta-data/local-hostname'';
     ret \<lparr>id_instance_id = trim i, id_region = trim r, id_availability_zone = trim z,
          id_private_ip = trim p, id_hostname = trim h\<rparr> }"

definition role_path :: string where
  "role_path = ''/latest/meta-data/iam/security-credentials/''"

text \<open>The credentials a metadata document holds; \<open>None\<close> is one of the three failures.\<close>

definition credentials_of :: "string \<Rightarrow> credentials option" where
  "credentials_of body =
     (if body = [] then None
      else case parsed body of (v, err) \<Rightarrow>
        if err \<noteq> [] \<or> \<not> is_obj v then None
        else let c = \<lparr>cr_access_key = str_of v ''AccessKeyId'',
                      cr_secret_key = str_of v ''SecretAccessKey'',
                      cr_token = str_of v ''Token'',
                      cr_expires_at = parse_iso8601 (str_of v ''Expiration'')\<rparr> in
             if creds_empty c then None else Some c)"

definition imds_credentials :: "'e env_scheme \<Rightarrow> ('w aws_world_scheme, credentials option) state" where
  "imds_credentials e = do {
     listing \<leftarrow> imds_get e role_path;
     let role = trim listing;
     if role = [] then ret None
     else do {
       body \<leftarrow> imds_get e (role_path @ trim (hd (split role CHR 0x0A)));
       ret (credentials_of body) } }"

subsection \<open>The provider\<close>

definition provider_get :: "'e env_scheme \<Rightarrow> ('w aws_world_scheme, credentials option) state" where
  "provider_get e = do {
     now \<leftarrow> now_s e;
     c \<leftarrow> gets cached;
     if \<not> stale c now 300 then ret (Some c)
     else do {
       fresh \<leftarrow> imds_credentials e;
       case fresh of
         Some f \<Rightarrow> do { modify (\<lambda>w. w\<lparr>cached := f\<rparr>); ret (Some f) }
       | None \<Rightarrow>
           if creds_empty c then ret None
           else do {
             now2 \<leftarrow> now_s e;
             ret (if stale c now2 0 then None else Some c) } } }"

definition provider_invalidate :: "('w aws_world_scheme, unit) state" where
  "provider_invalidate = modify (\<lambda>w. w\<lparr>cached := new_credentials\<rparr>)"

subsection \<open>Signing\<close>

definition signing_key :: "'e env_scheme \<Rightarrow> string \<Rightarrow> string \<Rightarrow> string \<Rightarrow> string \<Rightarrow> string" where
  "signing_key e secret datestamp region service =
     e_hmac e (e_hmac e (e_hmac e (e_hmac e (''AWS4'' @ secret) datestamp) region) service) ''aws4_request''"

definition newline :: string where "newline = [CHR 0x0A]"

text \<open>The part \<open>sigv4_headers\<close> and \<open>call\<close> share: from the headers to sign to the
  value of the Authorization header.\<close>

definition canonical_headers :: "(string \<times> string) list \<Rightarrow> string" where
  "canonical_headers hs = concat (map (\<lambda>(k, v). k @ '':'' @ v @ newline) hs)"

definition signed_names :: "(string \<times> string) list \<Rightarrow> string" where
  "signed_names hs = join (map fst hs) '';''"

definition authorization ::
    "'e env_scheme \<Rightarrow> string \<Rightarrow> string \<Rightarrow> string \<Rightarrow> string \<Rightarrow> string \<Rightarrow> credentials \<Rightarrow>
     (string \<times> string) list \<Rightarrow> string \<Rightarrow> int \<Rightarrow> string" where
  "authorization e meth path query service region creds hs payload_hash now =
     (let amzdate = amz_date now;
          datestamp = amz_datestamp now;
          canonical_request = meth @ newline @ path @ newline @ query @ newline @
            canonical_headers hs @ newline @ signed_names hs @ newline @ payload_hash;
          scope = datestamp @ ''/'' @ region @ ''/'' @ service @ ''/aws4_request'';
          string_to_sign = ''AWS4-HMAC-SHA256'' @ newline @ amzdate @ newline @ scope @ newline @
            sha256_hex e canonical_request;
          signature = to_hex (e_hmac e (signing_key e (cr_secret_key creds) datestamp region service)
            string_to_sign) in
      ''AWS4-HMAC-SHA256 Credential='' @ cr_access_key creds @ ''/'' @ scope @
      '', SignedHeaders='' @ signed_names hs @ '', Signature='' @ signature)"

definition sigv4_signed :: "credentials \<Rightarrow> string \<Rightarrow> int \<Rightarrow> (string \<times> string) list" where
  "sigv4_signed creds host now =
     sort_key fst
       ([(''host'', host), (''x-amz-date'', amz_date now)] @
        (if cr_token creds \<noteq> [] then [(''x-amz-security-token'', cr_token creds)] else []))"

definition sigv4_headers ::
    "'e env_scheme \<Rightarrow> string \<Rightarrow> string \<Rightarrow> string \<Rightarrow> credentials \<Rightarrow> string \<Rightarrow> string \<Rightarrow> string \<Rightarrow>
     string \<Rightarrow> int \<Rightarrow> (string \<times> string) list" where
  "sigv4_headers e meth service region creds host path query payload_hash now =
     [(''X-Amz-Date'', amz_date now)] @
     (if cr_token creds \<noteq> [] then [(''X-Amz-Security-Token'', cr_token creds)] else []) @
     [(''Authorization'', authorization e meth path query service region creds
         (sigv4_signed creds host now) payload_hash now)]"

subsection \<open>Calls\<close>

definition aws_endpoint :: "string \<Rightarrow> string \<Rightarrow> string" where
  "aws_endpoint service region = service @ ''.'' @ region @ ''.amazonaws.com''"

definition json_content_type :: string where "json_content_type = ''application/x-amz-json-1.1''"

definition mds_target_prefix :: string where
  "mds_target_prefix = ''EC2WindowsMessageDeliveryService''"

definition ssm_target_prefix :: string where "ssm_target_prefix = ''AmazonSSM''"

definition call_signed :: "credentials \<Rightarrow> string \<Rightarrow> string \<Rightarrow> int \<Rightarrow> (string \<times> string) list" where
  "call_signed creds host target now =
     sort_key fst
       ([(''content-type'', json_content_type), (''host'', host), (''x-amz-date'', amz_date now),
         (''x-amz-target'', target)] @
        (if cr_token creds \<noteq> [] then [(''x-amz-security-token'', cr_token creds)] else []))"

definition call_request ::
    "'e env_scheme \<Rightarrow> string \<Rightarrow> string \<Rightarrow> string \<Rightarrow> string \<Rightarrow> credentials \<Rightarrow> string \<Rightarrow> int \<Rightarrow> int \<Rightarrow> request" where
  "call_request e service target_prefix operation region creds body timeout_ms now =
     (let host = aws_endpoint service region;
          target = target_prefix @ ''.'' @ operation in
      new_request\<lparr>req_method := ''POST'', req_tls := True, req_host := host, req_path := ''/'',
        req_body := body, req_timeout_ms := timeout_ms,
        req_headers :=
          [(''Content-Type'', json_content_type), (''X-Amz-Date'', amz_date now),
           (''X-Amz-Target'', target)] @
          (if cr_token creds \<noteq> [] then [(''X-Amz-Security-Token'', cr_token creds)] else []) @
          [(''Authorization'', authorization e ''POST'' ''/'' [] service region creds
              (call_signed creds host target now) (sha256_hex e body) now),
           (''User-Agent'', ''haiku-mgmt-agent'')]\<rparr>)"

definition aws_call ::
    "'e env_scheme \<Rightarrow> string \<Rightarrow> string \<Rightarrow> string \<Rightarrow> string \<Rightarrow> credentials \<Rightarrow> string \<Rightarrow> int \<Rightarrow>
     ('w world_scheme, response) state" where
  "aws_call e service target_prefix operation region creds body timeout_ms =
     (if creds_empty creds then ret (new_response\<lparr>resp_error := ''no credentials available''\<rparr>)
      else do {
        now \<leftarrow> now_s e;
        perform e (call_request e service target_prefix operation region creds body timeout_ms now) })"

definition opt_member :: "string \<Rightarrow> string \<Rightarrow> (string \<times> json) list" where
  "opt_member key s = (if s \<noteq> [] then [(key, VString s)] else [])"

definition update_instance_information ::
    "'e env_scheme \<Rightarrow> string \<Rightarrow> credentials \<Rightarrow> identity \<Rightarrow> string \<Rightarrow> string \<Rightarrow> string \<Rightarrow> string \<Rightarrow>
     ('w world_scheme, response) state" where
  "update_instance_information e region creds i platform_name platform_version agent_name agent_version =
     aws_call e ''ssm'' ssm_target_prefix ''UpdateInstanceInformation'' region creds
       (json_dump (mk_obj
         ([(''InstanceId'', VString (id_instance_id i)), (''AgentName'', VString agent_name),
           (''AgentVersion'', VString agent_version), (''AgentStatus'', VString ''Active''),
           (''PlatformType'', VString ''Linux''), (''PlatformName'', VString platform_name),
           (''PlatformVersion'', VString platform_version),
           (''SSMConnectionChannel'', VString ''ec2messages'')] @
          opt_member ''IPAddress'' (id_private_ip i) @ opt_member ''ComputerName'' (id_hostname i) @
          opt_member ''AvailabilityZone'' (id_availability_zone i)))) 25000"

definition get_messages ::
    "'e env_scheme \<Rightarrow> string \<Rightarrow> credentials \<Rightarrow> string \<Rightarrow> int \<Rightarrow> ('w world_scheme, response) state" where
  "get_messages e region creds instance_id timeout_ms = do {
     u \<leftarrow> new_uuid e;
     aws_call e ''ec2messages'' mds_target_prefix ''GetMessages'' region creds
       (json_dump (mk_obj [(''Destination'', VString instance_id), (''MessagesRequestId'', VString u),
         (''VisibilityTimeoutInSeconds'', num_int 10)])) timeout_ms }"

definition acknowledge_message ::
    "'e env_scheme \<Rightarrow> string \<Rightarrow> credentials \<Rightarrow> string \<Rightarrow> ('w world_scheme, response) state" where
  "acknowledge_message e region creds message_id =
     aws_call e ''ec2messages'' mds_target_prefix ''AcknowledgeMessage'' region creds
       (json_dump (mk_obj [(''MessageId'', VString message_id)])) 25000"

definition send_reply ::
    "'e env_scheme \<Rightarrow> string \<Rightarrow> credentials \<Rightarrow> string \<Rightarrow> string \<Rightarrow> ('w world_scheme, response) state" where
  "send_reply e region creds message_id payload_json = do {
     u \<leftarrow> new_uuid e;
     aws_call e ''ec2messages'' mds_target_prefix ''SendReply'' region creds
       (json_dump (mk_obj [(''MessageId'', VString message_id), (''Payload'', VString payload_json),
         (''ReplyId'', VString u)])) 25000 }"

definition fail_message ::
    "'e env_scheme \<Rightarrow> string \<Rightarrow> credentials \<Rightarrow> string \<Rightarrow> string \<Rightarrow> ('w world_scheme, response) state" where
  "fail_message e region creds message_id failure_type =
     aws_call e ''ec2messages'' mds_target_prefix ''FailMessage'' region creds
       (json_dump (mk_obj [(''MessageId'', VString message_id), (''FailureType'', VString failure_type)])) 25000"

definition put_inventory ::
    "'e env_scheme \<Rightarrow> string \<Rightarrow> credentials \<Rightarrow> string \<Rightarrow> json \<Rightarrow> ('w world_scheme, response) state" where
  "put_inventory e region creds instance_id items =
     aws_call e ''ssm'' ssm_target_prefix ''PutInventory'' region creds
       (json_dump (mk_obj [(''InstanceId'', VString instance_id), (''Items'', items)])) 25000"

subsection \<open>The provider never serves its cache after expiry\<close>

text \<open>Metadata requests are not encrypted, which tells them apart from the calls.\<close>

lemma token_request_plain: "\<not> req_tls token_request"
  by (simp add: token_request_def)

lemma keeps_fetch_token [keeps_rules]:
  assumes "\<And>s. I s \<Longrightarrow> I (s\<lparr>at_clock := Suc (at_clock s)\<rparr>)"
    and "\<And>s. I s \<Longrightarrow> I (s\<lparr>at_peer := Suc (at_peer s)\<rparr>)"
    and "\<And>s req r. \<not> req_tls req \<Longrightarrow> I s \<Longrightarrow> I (s\<lparr>trace := trace s @ [EvHttp req r]\<rparr>)"
    and "\<And>s t x. I s \<Longrightarrow> I (s\<lparr>imds_token := t, imds_expires := x\<rparr>)"
  shows "keeps I (fetch_token e)"
  unfolding fetch_token_def by (intro keeps_rules assms token_request_plain)

lemma keeps_imds_get [keeps_rules]:
  assumes "\<And>s. I s \<Longrightarrow> I (s\<lparr>at_clock := Suc (at_clock s)\<rparr>)"
    and "\<And>s. I s \<Longrightarrow> I (s\<lparr>at_peer := Suc (at_peer s)\<rparr>)"
    and "\<And>s req r. \<not> req_tls req \<Longrightarrow> I s \<Longrightarrow> I (s\<lparr>trace := trace s @ [EvHttp req r]\<rparr>)"
    and "\<And>s t x. I s \<Longrightarrow> I (s\<lparr>imds_token := t, imds_expires := x\<rparr>)"
  shows "keeps I (imds_get e path)"
  unfolding imds_get_def by (intro keeps_rules assms) (simp_all add: new_request_def)

lemma keeps_imds_credentials [keeps_rules]:
  assumes "\<And>s. I s \<Longrightarrow> I (s\<lparr>at_clock := Suc (at_clock s)\<rparr>)"
    and "\<And>s. I s \<Longrightarrow> I (s\<lparr>at_peer := Suc (at_peer s)\<rparr>)"
    and "\<And>s req r. \<not> req_tls req \<Longrightarrow> I s \<Longrightarrow> I (s\<lparr>trace := trace s @ [EvHttp req r]\<rparr>)"
    and "\<And>s t x. I s \<Longrightarrow> I (s\<lparr>imds_token := t, imds_expires := x\<rparr>)"
  shows "keeps I (imds_credentials e)"
  unfolding imds_credentials_def Let_def by (intro keeps_rules assms)

lemma run_now_s:
  "run_state (now_s e) v = (e_clock e (at_clock v) div 1000, v\<lparr>at_clock := Suc (at_clock v)\<rparr>)"
  by (simp add: now_s_def now_ms_def)

lemma keeps_provider_get [keeps_rules]:
  assumes "\<And>s. I s \<Longrightarrow> I (s\<lparr>at_clock := Suc (at_clock s)\<rparr>)"
    and "\<And>s. I s \<Longrightarrow> I (s\<lparr>at_peer := Suc (at_peer s)\<rparr>)"
    and "\<And>s req r. \<not> req_tls req \<Longrightarrow> I s \<Longrightarrow> I (s\<lparr>trace := trace s @ [EvHttp req r]\<rparr>)"
    and "\<And>s t x. I s \<Longrightarrow> I (s\<lparr>imds_token := t, imds_expires := x\<rparr>)"
    and "\<And>s c. I s \<Longrightarrow> I (s\<lparr>cached := c\<rparr>)"
  shows "keeps I (provider_get e)"
  unfolding provider_get_def by (intro keeps_rules assms)

lemma imds_credentials_source:
  "yields (\<lambda>r. r = None \<or> (\<exists>body. r = credentials_of body)) (imds_credentials e)"
  unfolding imds_credentials_def Let_def by (intro yields_rules) auto

lemma credentials_of_nonempty: "credentials_of body = Some c \<Longrightarrow> \<not> creds_empty c"
  by (auto simp: credentials_of_def Let_def split: if_splits prod.splits)

lemma provider_serves_core:
  assumes "run_state (provider_get e) w = (Some c, w')"
  shows "\<not> creds_empty c \<and> cached w' = c \<and>
    ((\<exists>body. credentials_of body = Some c) \<or>
     (c = cached w \<and> (cr_expires_at c = 0 \<or>
        (\<exists>i. at_clock w \<le> i \<and> i < at_clock w' \<and> e_clock e i div 1000 < cr_expires_at c))))"
proof -
  let ?w1 = "w\<lparr>at_clock := Suc (at_clock w)\<rparr>"
  obtain r w2 where r: "run_state (imds_credentials e) ?w1 = (r, w2)" by fastforce
  have same: "cached w2 = cached w \<and> at_clock w \<le> at_clock w2"
  proof -
    have "keeps (\<lambda>v. cached v = cached w \<and> at_clock w \<le> at_clock v) (imds_credentials e)"
      by (intro keeps_rules) auto
    from keepsD [OF this, of ?w1] r show ?thesis by simp
  qed
  show ?thesis
  proof (cases "stale (cached w) (e_clock e (at_clock w) div 1000) 300")
    case False
    with assms have c: "c = cached w" and w': "w' = ?w1"
      by (auto simp: provider_get_def run_now_s)
    from False c show ?thesis
      unfolding w' by (auto simp: stale_def intro!: exI [of _ "at_clock w"])
  next
    case True
    show ?thesis
    proof (cases r)
      case (Some f)
      with True r assms have "c = f" and w': "w' = w2\<lparr>cached := f\<rparr>"
        by (auto simp: provider_get_def run_now_s)
      moreover from yieldsD [OF imds_credentials_source r] Some obtain body where "credentials_of body = Some f"
        by auto
      ultimately show ?thesis using credentials_of_nonempty by auto
    next
      case None
      with True r assms have c: "c = cached w" "\<not> creds_empty c"
          "\<not> stale c (e_clock e (at_clock w2) div 1000) 0"
        and w': "w' = w2\<lparr>at_clock := Suc (at_clock w2)\<rparr>"
        by (auto simp: provider_get_def run_now_s split: if_splits)
      with same show ?thesis
        by (auto simp: stale_def intro!: exI [of _ "at_clock w2"])
    qed
  qed
qed


text \<open>After \<open>invalidate\<close> the next credentials come from the instance metadata, never
  from the cache.\<close>

lemma provider_refetches:
  assumes "run_state provider_invalidate w = ((), v)" and "run_state (provider_get e) v = (Some c, w')"
  shows "\<exists>body. credentials_of body = Some c"
proof -
  from assms(1) have "creds_empty (cached v)"
    by (auto simp: provider_invalidate_def creds_empty_def new_credentials_def)
  with provider_serves_core [OF assms(2)] show ?thesis by auto
qed

subsection \<open>The signature covers what is sent\<close>

text \<open>Each signed header is the host of the request or one of its headers, under the same name
  in lower case and with the same value; the names are in strictly ascending order.\<close>

definition signature_covers :: "(string \<times> string) list \<Rightarrow> string \<Rightarrow> (string \<times> string) list \<Rightarrow> bool" where
  "signature_covers hs host sent \<longleftrightarrow>
     sorted_wrt (<) (map fst hs) \<and>
     set hs \<subseteq> insert (''host'', host) ((\<lambda>(m, v). (lower m, v)) ` set sent)"

lemma header_names:
  "lower ''Content-Type'' = ''content-type''" "lower ''X-Amz-Date'' = ''x-amz-date''"
  "lower ''X-Amz-Target'' = ''x-amz-target''" "lower ''X-Amz-Security-Token'' = ''x-amz-security-token''"
  by code_simp+

lemma header_order:
  "''content-type'' < ''host''" "''host'' < ''x-amz-date''" "''x-amz-date'' < ''x-amz-security-token''"
  "''x-amz-security-token'' < ''x-amz-target''"
  by code_simp+

lemmas header_orders =
  header_order less_trans [OF header_order(1,2)] less_trans [OF header_order(2,3)]
  less_trans [OF header_order(3,4)] less_trans [OF header_order(1) less_trans [OF header_order(2,3)]]
  less_trans [OF header_order(2) less_trans [OF header_order(3,4)]]
  less_trans [OF header_order(1) less_trans [OF header_order(2) less_trans [OF header_order(3,4)]]]

lemma sigv4_signed_eq:
  "sigv4_signed creds host now =
     [(''host'', host), (''x-amz-date'', amz_date now)] @
     (if cr_token creds \<noteq> [] then [(''x-amz-security-token'', cr_token creds)] else [])"
  unfolding sigv4_signed_def
  using header_orders by (simp add: less_imp_le del: List_Lexorder.Cons_less_Cons)

lemma call_signed_eq:
  "call_signed creds host target now =
     [(''content-type'', json_content_type), (''host'', host), (''x-amz-date'', amz_date now)] @
     (if cr_token creds \<noteq> [] then [(''x-amz-security-token'', cr_token creds)] else []) @
     [(''x-amz-target'', target)]"
  unfolding call_signed_def
  by (simp add: header_orders [THEN less_imp_le] header_order(4) [folded not_le]
      del: List_Lexorder.Cons_less_Cons List_Lexorder.Cons_le_Cons)

lemma sigv4_covers:
  "signature_covers (sigv4_signed creds host now) host
     (sigv4_headers e meth service region creds host path query payload_hash now)"
  unfolding signature_covers_def sigv4_signed_eq sigv4_headers_def
  by (simp add: header_orders header_names del: List_Lexorder.Cons_less_Cons)


text \<open>A world whose cache holds credentials that expire ten minutes after its clock.\<close>

definition sample_credentials :: credentials where
  "sample_credentials = \<lparr>cr_access_key = ''AKID'', cr_secret_key = ''secret'', cr_token = ''token'',
     cr_expires_at = 1700000600\<rparr>"

definition sample_aws_world :: aws_world where
  "sample_aws_world = \<lparr>at_clock = 0, at_random = 0, at_peer = 0, at_child = 0, trace = [],
     imds_token = [], imds_expires = 0, cached = sample_credentials\<rparr>"

lemma sample_provider_get:
  "run_state (provider_get sample_env) sample_aws_world =
     (Some sample_credentials, sample_aws_world\<lparr>at_clock := 1\<rparr>)"
  by (simp add: provider_get_def run_now_s sample_env_def sample_aws_world_def stale_def creds_empty_def
      sample_credentials_def)



end
