(* ===== verification/S3.thy ===== *)
theory S3
  imports Aws
begin

text \<open>
  S3 transfers, \<open>src/src/s3.cpp\<close>: \<open>s3://\<close> addresses, the signed request with an unsigned
  payload, and \<open>get\<close> and \<open>put\<close> with their one retry. The lemmas show which addresses are
  accepted, that the signature covers what is sent, and when a transfer is tried again.
\<close>

subsection \<open>The operations\<close>

definition unsigned_payload :: string where "unsigned_payload = ''UNSIGNED-PAYLOAD''"

definition expired_token :: "response \<Rightarrow> bool" where
  "expired_token r \<longleftrightarrow>
     (resp_status r = 400 \<or> resp_status r = 403) \<and>
     (find_sub ''ExpiredToken'' (resp_body r) \<noteq> None \<or>
      find_sub ''InvalidToken'' (resp_body r) \<noteq> None \<or>
      find_sub ''TokenRefreshRequired'' (resp_body r) \<noteq> None)"

definition s3_parse_uri :: "string \<Rightarrow> (string \<times> string) option" where
  "s3_parse_uri uri =
     (if \<not> starts_with uri ''s3://'' then None
      else let rest = drop (length ''s3://'') uri in
      case find_sub ''/'' rest of
        None \<Rightarrow> None
      | Some slash \<Rightarrow>
          if slash = 0 \<or> length rest \<le> slash + 1 then None
          else Some (take slash rest, drop (slash + 1) rest))"

definition s3_signed :: "credentials \<Rightarrow> string \<Rightarrow> int \<Rightarrow> (string \<times> string) list" where
  "s3_signed creds host now =
     sort_key fst
       ([(''host'', host), (''x-amz-content-sha256'', unsigned_payload), (''x-amz-date'', amz_date now)] @
        (if cr_token creds \<noteq> [] then [(''x-amz-security-token'', cr_token creds)] else []))"

definition s3_host :: "string \<Rightarrow> string \<Rightarrow> string" where
  "s3_host bucket region = bucket @ ''.s3.'' @ region @ ''.amazonaws.com''"

definition s3_request ::
    "'e env_scheme \<Rightarrow> string \<Rightarrow> string \<Rightarrow> credentials \<Rightarrow> string \<Rightarrow> string \<Rightarrow> int \<Rightarrow> string \<Rightarrow> request" where
  "s3_request e meth region creds bucket key now content_type =
     (let host = s3_host bucket region;
          path = ''/'' @ uri_encode key False in
      new_request\<lparr>req_method := meth, req_tls := True, req_host := host, req_path := path,
        req_headers :=
          [(''X-Amz-Content-Sha256'', unsigned_payload), (''X-Amz-Date'', amz_date now)] @
          (if cr_token creds \<noteq> [] then [(''X-Amz-Security-Token'', cr_token creds)] else []) @
          (if meth = ''PUT'' \<and> content_type \<noteq> [] then [(''Content-Type'', content_type)] else []) @
          [(''Authorization'', authorization e meth path [] ''s3'' region creds
              (s3_signed creds host now) unsigned_payload now),
           (''User-Agent'', ''haiku-mgmt-agent'')]\<rparr>)"

definition transfer_once ::
    "'e env_scheme \<Rightarrow> string \<Rightarrow> string \<Rightarrow> string \<Rightarrow> string \<Rightarrow> string \<Rightarrow> string \<Rightarrow> string \<Rightarrow> string \<Rightarrow>
     ('w aws_world_scheme, response) state" where
  "transfer_once e meth region bucket key body_path content sink_path content_type = do {
     creds \<leftarrow> provider_get e;
     case creds of
       None \<Rightarrow> ret (new_response\<lparr>resp_error := ''no credentials available''\<rparr>)
     | Some c \<Rightarrow> do {
         now \<leftarrow> now_s e;
         perform e ((s3_request e meth region c bucket key now content_type)
           \<lparr>req_timeout_ms := 120000, req_body_path := body_path,
            req_body := (if body_path = [] then content else []), req_sink_path := sink_path\<rparr>) } }"

definition s3_get ::
    "'e env_scheme \<Rightarrow> string \<Rightarrow> string \<Rightarrow> string \<Rightarrow> string \<Rightarrow> ('w aws_world_scheme, response) state" where
  "s3_get e region bucket key dest_path = do {
     r \<leftarrow> transfer_once e ''GET'' region bucket key [] [] dest_path [];
     if expired_token r then do {
       _ \<leftarrow> provider_invalidate;
       transfer_once e ''GET'' region bucket key [] [] dest_path [] }
     else ret r }"

definition s3_put ::
    "'e env_scheme \<Rightarrow> string \<Rightarrow> string \<Rightarrow> string \<Rightarrow> string \<Rightarrow> string \<Rightarrow> string \<Rightarrow>
     ('w aws_world_scheme, response) state" where
  "s3_put e region bucket key src_path content content_type = do {
     r \<leftarrow> transfer_once e ''PUT'' region bucket key src_path content [] content_type;
     if expired_token r then do {
       _ \<leftarrow> provider_invalidate;
       transfer_once e ''PUT'' region bucket key src_path content [] content_type }
     else ret r }"

subsection \<open>Addresses\<close>

text \<open>An address is accepted exactly when it is \<open>s3://bucket/key\<close> with a non-empty bucket
  that has no slash and a non-empty key, and then it is taken apart at the first slash.\<close>

theorem s3_parse_uri_iff:
  "s3_parse_uri uri = Some (b, k) \<longleftrightarrow>
     uri = ''s3://'' @ b @ ''/'' @ k \<and> b \<noteq> [] \<and> CHR ''/'' \<notin> set b \<and> k \<noteq> []"
proof
  assume p: "s3_parse_uri uri = Some (b, k)"
  define rest where "rest = drop (length ''s3://'') uri"
  have "take (length ''s3://'') uri = ''s3://''"
    by (rule ccontr) (use p in \<open>simp add: s3_parse_uri_def starts_with_def\<close>)
  then have u: "uri = ''s3://'' @ rest"
    using append_take_drop_id [of "length ''s3://''" uri] unfolding rest_def by metis
  from p obtain i where f: "find_sub ''/'' rest = Some i" and i: "i \<noteq> 0" "i + 1 < length rest"
    and b: "b = take i rest" and k: "k = drop (i + 1) rest"
    by (auto simp: s3_parse_uri_def rest_def Let_def split: if_splits option.splits)
  from find_sub_split [OF f] i b k have "rest = b @ ''/'' @ k" by simp
  moreover from find_sub_singleton_Some [OF f] b have "CHR ''/'' \<notin> set b" by simp
  ultimately show "uri = ''s3://'' @ b @ ''/'' @ k \<and> b \<noteq> [] \<and> CHR ''/'' \<notin> set b \<and> k \<noteq> []"
    using u i b k by auto
next
  assume a: "uri = ''s3://'' @ b @ ''/'' @ k \<and> b \<noteq> [] \<and> CHR ''/'' \<notin> set b \<and> k \<noteq> []"
  then have "find_sub ''/'' (b @ ''/'' @ k) = Some (length b)"
    using find_sub_singleton_append [of "CHR ''/''" b k] by simp
  with a show "s3_parse_uri uri = Some (b, k)"
    by (simp add: s3_parse_uri_def starts_with_def)
qed

subsection \<open>Signature and retry\<close>

lemma s3_header_facts:
  "''host'' < ''x-amz-content-sha256''" "''x-amz-content-sha256'' < ''x-amz-date''"
  "lower ''X-Amz-Content-Sha256'' = ''x-amz-content-sha256''"
  by code_simp+

lemmas s3_order =
  s3_header_facts(1,2) header_orders less_trans [OF s3_header_facts(2) header_order(3)]

lemma s3_signed_eq:
  "s3_signed creds host now =
     [(''host'', host), (''x-amz-content-sha256'', unsigned_payload), (''x-amz-date'', amz_date now)] @
     (if cr_token creds \<noteq> [] then [(''x-amz-security-token'', cr_token creds)] else [])"
  unfolding s3_signed_def
  by (simp add: s3_order [THEN less_imp_le] del: List_Lexorder.Cons_less_Cons List_Lexorder.Cons_le_Cons)

text \<open>The headers the signature of an S3 request covers are those it carries.\<close>

lemma s3_request_covers:
  "signature_covers (s3_signed creds (s3_host bucket region) now) (s3_host bucket region)
     (req_headers (s3_request e meth region creds bucket key now content_type))"
  unfolding signature_covers_def s3_signed_eq s3_request_def Let_def
  by (simp add: s3_order less_trans [OF s3_header_facts(1) less_trans [OF s3_header_facts(2) header_order(3)]]
      s3_header_facts(3) header_names del: List_Lexorder.Cons_less_Cons)

text \<open>The encrypted requests of a trace: metadata requests are not.\<close>

definition secure_events :: "'w world_scheme \<Rightarrow> event list" where
  "secure_events w = filter (\<lambda>ev. case ev of EvHttp req r \<Rightarrow> req_tls req | _ \<Rightarrow> False) (trace w)"

text \<open>A request of a transfer: signed, to the object, with the whole content.\<close>

definition transfer_request ::
    "string \<Rightarrow> string \<Rightarrow> string \<Rightarrow> string \<Rightarrow> string \<Rightarrow> string \<Rightarrow> request \<Rightarrow> bool" where
  "transfer_request meth region bucket key body_path content req \<longleftrightarrow>
     req_method req = meth \<and> req_host req = s3_host bucket region \<and>
     req_path req = ''/'' @ uri_encode key False \<and> req_body_path req = body_path \<and>
     req_body req = (if body_path = [] then content else []) \<and>
     (\<exists>hs. signature_covers hs (req_host req) (req_headers req))"

definition no_credentials :: response where
  "no_credentials = new_response\<lparr>resp_error := ''no credentials available''\<rparr>"

lemma transfer_once_events:
  assumes "run_state (transfer_once e meth region bucket key body_path content sink_path content_type) w = (r, w')"
  shows "(secure_events w' = secure_events w \<and> r = no_credentials) \<or>
    (\<exists>req. secure_events w' = secure_events w @ [EvHttp req r] \<and>
       transfer_request meth region bucket key body_path content req)"
proof -
  obtain c v where g: "run_state (provider_get e) w = (c, v)" by fastforce
  have "keeps (\<lambda>v. secure_events v = secure_events w) (provider_get e)"
    by (intro keeps_rules) (simp_all add: secure_events_def)
  from keepsD [OF this, of w] g have same: "secure_events v = secure_events w" by simp
  show ?thesis
  proof (cases c)
    case None
    with assms g same show ?thesis by (auto simp: transfer_once_def no_credentials_def)
  next
    case (Some c)
    let ?req = "(s3_request e meth region c bucket key (e_clock e (at_clock v) div 1000) content_type)
      \<lparr>req_timeout_ms := 120000, req_body_path := body_path,
       req_body := (if body_path = [] then content else []), req_sink_path := sink_path\<rparr>"
    from Some assms g have "secure_events w' = secure_events v @ [EvHttp ?req r]"
      by (auto simp: transfer_once_def run_now_s perform_def Let_def emit_def secure_events_def s3_request_def)
    moreover have "transfer_request meth region bucket key body_path content ?req"
      using s3_request_covers [of c bucket region "e_clock e (at_clock v) div 1000" e meth key content_type]
      by (auto simp: transfer_request_def s3_request_def Let_def)
    ultimately show ?thesis using same by auto
  qed
qed

lemma keeps_transfer_once [keeps_rules]:
  assumes "\<And>s. I s \<Longrightarrow> I (s\<lparr>at_clock := Suc (at_clock s)\<rparr>)"
    and "\<And>s. I s \<Longrightarrow> I (s\<lparr>at_peer := Suc (at_peer s)\<rparr>)"
    and "\<And>s req r. I s \<Longrightarrow> I (s\<lparr>trace := trace s @ [EvHttp req r]\<rparr>)"
    and "\<And>s t x. I s \<Longrightarrow> I (s\<lparr>imds_token := t, imds_expires := x\<rparr>)"
    and "\<And>s c. I s \<Longrightarrow> I (s\<lparr>cached := c\<rparr>)"
  shows "keeps I (transfer_once e meth region bucket key src content sink content_type)"
  unfolding transfer_once_def by (intro keeps_rules assms)

lemma keeps_s3_get [keeps_rules]:
  assumes "\<And>s. I s \<Longrightarrow> I (s\<lparr>at_clock := Suc (at_clock s)\<rparr>)"
    and "\<And>s. I s \<Longrightarrow> I (s\<lparr>at_peer := Suc (at_peer s)\<rparr>)"
    and "\<And>s req r. I s \<Longrightarrow> I (s\<lparr>trace := trace s @ [EvHttp req r]\<rparr>)"
    and "\<And>s t x. I s \<Longrightarrow> I (s\<lparr>imds_token := t, imds_expires := x\<rparr>)"
    and "\<And>s c. I s \<Longrightarrow> I (s\<lparr>cached := c\<rparr>)"
  shows "keeps I (s3_get e region bucket key dest)"
  unfolding s3_get_def provider_invalidate_def by (intro keeps_rules assms)

lemma keeps_s3_put [keeps_rules]:
  assumes "\<And>s. I s \<Longrightarrow> I (s\<lparr>at_clock := Suc (at_clock s)\<rparr>)"
    and "\<And>s. I s \<Longrightarrow> I (s\<lparr>at_peer := Suc (at_peer s)\<rparr>)"
    and "\<And>s req r. I s \<Longrightarrow> I (s\<lparr>trace := trace s @ [EvHttp req r]\<rparr>)"
    and "\<And>s t x. I s \<Longrightarrow> I (s\<lparr>imds_token := t, imds_expires := x\<rparr>)"
    and "\<And>s c. I s \<Longrightarrow> I (s\<lparr>cached := c\<rparr>)"
  shows "keeps I (s3_put e region bucket key src content content_type)"
  unfolding s3_put_def provider_invalidate_def by (intro keeps_rules assms)



end
