(* ===== verification/Timesync.thy ===== *)
theory Timesync
  imports Aws
begin

text \<open>
  The clock correction of \<open>src/src/timesync.cpp\<close>. Setting the clock is an event of the
  trace; whether it succeeds is a function of the environment, and the readings of the clock that
  follow are whatever the environment says they are.
\<close>

record sync_result =
  sy_checked :: bool
  sy_adjusted :: bool
  sy_drift :: int

definition ensure_clock :: "'e env_scheme \<Rightarrow> bool \<Rightarrow> int \<Rightarrow> ('w world_scheme, sync_result) state" where
  "ensure_clock e allow_set max_drift = do {
     reference \<leftarrow> server_time e;
     case reference of
       None \<Rightarrow> ret \<lparr>sy_checked = False, sy_adjusted = False, sy_drift = 0\<rparr>
     | Some ref \<Rightarrow> do {
         loc \<leftarrow> now_s e;
         let r = \<lparr>sy_checked = True, sy_adjusted = False, sy_drift = ref - loc\<rparr>;
         if - max_drift < sy_drift r \<and> sy_drift r < max_drift then ret r
         else if \<not> allow_set then ret r
         else do {
           emit (EvClockSet ref);
           if \<not> e_settime e ref then ret r
           else do {
             _ \<leftarrow> now_ms e;
             ret (r\<lparr>sy_adjusted := True\<rparr>) } } } }"



end
