(* ===== verification/Selfupdate.thy ===== *)
theory Selfupdate
  imports S3
begin

text \<open>
  Self-update, \<open>src/src/selfupdate.cpp\<close>: the manifest, the download, the version guard, the
  checksum, and the two ways of installing. Files are touched by events of the trace; the checksum
  of a downloaded file and the result of a rename are functions of the environment. The result is
  \<open>None\<close> when an installing command never returns.

  The lemmas show that versions are totally ordered, and that nothing is installed unless the
  manifest names a strictly newer version and the download has its checksum.
\<close>

subsection \<open>Fetching\<close>

record manifest =
  mf_version :: string
  mf_sha256 :: string
  mf_url :: string

datatype update_outcome = UpToDate | Updated | UpdateError

definition work_dir :: string where "work_dir = ''/tmp/haiku-mgmt-agent-update''"

text \<open>Host and path of an \<open>https://\<close> address.\<close>

definition https_request :: "string \<Rightarrow> request" where
  "https_request url =
     (let rest = drop (length ''https://'') url in
      case find_sub ''/'' rest of
        None \<Rightarrow> new_request\<lparr>req_host := rest, req_path := ''/''\<rparr>
      | Some slash \<Rightarrow> new_request\<lparr>req_host := take slash rest, req_path := drop slash rest\<rparr>)"

definition http_failure :: "string \<Rightarrow> response \<Rightarrow> string" where
  "http_failure what r = what @ '': status='' @ show_int (resp_status r) @ '' '' @ resp_error r"

definition https_get :: "'e env_scheme \<Rightarrow> string \<Rightarrow> ('w world_scheme, string + string) state" where
  "https_get e url =
     (if \<not> starts_with url ''https://'' then ret (Inl (''unsupported URL scheme: '' @ url))
      else do {
        r \<leftarrow> perform e (https_request url);
        ret (if resp_ok r then Inr (resp_body r) else Inl (http_failure (''GET '' @ url) r)) })"

definition download ::
    "'e env_scheme \<Rightarrow> string \<Rightarrow> string \<Rightarrow> string \<Rightarrow> ('w aws_world_scheme, string option) state" where
  "download e region url dest =
     (case s3_parse_uri url of
        Some (bucket, key) \<Rightarrow> do {
          r \<leftarrow> s3_get e region bucket key dest;
          ret (if resp_ok r then None
               else Some (http_failure (''s3 get '' @ url) r @ '' '' @ clip (resp_body r) 300 ''...'')) }
      | None \<Rightarrow>
          if starts_with url ''https://'' then do {
            r \<leftarrow> perform e ((https_request url)\<lparr>req_sink_path := dest, req_timeout_ms := 120000\<rparr>);
            ret (if resp_ok r then None else Some (http_failure (''GET '' @ url) r)) }
          else ret (Some (''unsupported artifact URL: '' @ url)))"

definition parse_manifest :: "string \<Rightarrow> string + manifest" where
  "parse_manifest body =
     (case parsed body of (v, err) \<Rightarrow>
        if err \<noteq> [] \<or> \<not> is_obj v then Inl (''manifest is not valid JSON: '' @ err)
        else let m = \<lparr>mf_version = str_of v ''version'',
                      mf_sha256 = lower (trim (str_of v ''sha256'')),
                      mf_url = str_of v ''url''\<rparr> in
             if mf_version m = [] \<or> mf_sha256 m = [] \<or> mf_url m = []
             then Inl ''manifest is missing version/sha256/url'' else Inr m)"

definition fetch_manifest ::
    "'e env_scheme \<Rightarrow> string \<Rightarrow> string \<Rightarrow> ('w aws_world_scheme, string + manifest) state" where
  "fetch_manifest e region uri = do {
     body \<leftarrow> (case s3_parse_uri uri of
        Some (bucket, key) \<Rightarrow> do {
          r \<leftarrow> s3_get e region bucket key [];
          ret (if resp_ok r then Inr (resp_body r)
               else Inl (http_failure (''s3 get '' @ uri) r @ '' '' @ clip (resp_body r) 300 ''...'')) }
      | None \<Rightarrow> https_get e uri);
     ret (case body of Inl err \<Rightarrow> Inl err | Inr b \<Rightarrow> parse_manifest b) }"

subsection \<open>Installing\<close>

definition artifact_path :: "string \<Rightarrow> string" where
  "artifact_path url =
     work_dir @ ''/'' @ (case rfind_sub ''/'' url of None \<Rightarrow> url | Some b \<Rightarrow> drop (b + 1) url)"

definition is_hpkg :: "string \<Rightarrow> bool" where
  "is_hpkg path \<longleftrightarrow> 5 < length path \<and> rfind_sub ''.hpkg'' path = Some (length path - 5)"

definition rename_file :: "'e env_scheme \<Rightarrow> string \<Rightarrow> string \<Rightarrow> ('w world_scheme, string option) state" where
  "rename_file e a b = do { emit (EvRename a b); ret (e_rename e a b) }"

definition install_package ::
    "'e env_scheme \<Rightarrow> string \<Rightarrow> string \<Rightarrow> ('w world_scheme, (update_outcome \<times> string) option) state" where
  "install_package e artifact version = do {
     r \<leftarrow> shell e (''pkgman install -y '' @ quoted artifact) 300 [] 65536 False;
     ret (case r of
            None \<Rightarrow> None
          | Some x \<Rightarrow>
              if er_exit_code x \<noteq> 0
              then Some (UpdateError, ''pkgman install failed (exit '' @ show_int (er_exit_code x) @ ''): '' @
                     clip (er_stdout x @ er_stderr x) 500 ''...'')
              else Some (Updated, ''installed '' @ version @ '' via pkgman ('' @ artifact @ '')'')) }"

text \<open>The swap: the artifact beside the target, the target aside, the new one in place, and the
  old one back when that fails.\<close>

definition swap_binary ::
    "'e env_scheme \<Rightarrow> string \<Rightarrow> string \<Rightarrow> ('w world_scheme, update_outcome \<times> string) state" where
  "swap_binary e fresh binary = do {
     emit (EvChmod fresh);
     _ \<leftarrow> rename_file e binary (binary @ ''.old'');
     err \<leftarrow> rename_file e fresh binary;
     case err of
       Some msg \<Rightarrow> do {
         _ \<leftarrow> rename_file e (binary @ ''.old'') binary;
         ret (UpdateError, ''rename into place failed: '' @ msg) }
     | None \<Rightarrow> ret (Updated, ''swapped binary at '' @ binary @ '' (previous kept as .old)'') }"

definition install_binary ::
    "'e env_scheme \<Rightarrow> string \<Rightarrow> string \<Rightarrow> ('w world_scheme, (update_outcome \<times> string) option) state" where
  "install_binary e artifact binary = do {
     let fresh = binary @ ''.new'';
     placed \<leftarrow> rename_file e artifact fresh;
     case placed of
       None \<Rightarrow> do { r \<leftarrow> swap_binary e fresh binary; ret (Some r) }
     | Some _ \<Rightarrow> do {
         r \<leftarrow> shell e (''cp '' @ quoted artifact @ '' '' @ quoted fresh) 60 [] 4096 False;
         case r of
           None \<Rightarrow> ret None
         | Some x \<Rightarrow>
             if er_exit_code x \<noteq> 0
             then ret (Some (UpdateError, ''could not place '' @ fresh @ '': '' @ er_stderr x))
             else do { s \<leftarrow> swap_binary e fresh binary; ret (Some s) } } }"

definition check_and_apply ::
    "'e env_scheme \<Rightarrow> string \<Rightarrow> string \<Rightarrow> string \<Rightarrow> string \<Rightarrow>
     ('w aws_world_scheme, (update_outcome \<times> string) option) state" where
  "check_and_apply e region uri current binary = do {
     fetched \<leftarrow> fetch_manifest e region uri;
     case fetched of
       Inl err \<Rightarrow> ret (Some (UpdateError, err))
     | Inr m \<Rightarrow>
         if version_compare (mf_version m) current \<le> 0
         then ret (Some (UpToDate, ''manifest version '' @ mf_version m @ '' <= running '' @ current))
         else do {
           emit (EvMkdir work_dir);
           let artifact = artifact_path (mf_url m);
           failed \<leftarrow> download e region (mf_url m) artifact;
           case failed of
             Some err \<Rightarrow> ret (Some (UpdateError, err))
           | None \<Rightarrow>
               if sha256_file_hex e artifact \<noteq> mf_sha256 m
               then do {
                 emit (EvUnlink artifact);
                 ret (Some (UpdateError, ''sha256 mismatch for '' @ artifact @ '': got '' @
                   sha256_file_hex e artifact @ '' want '' @ mf_sha256 m)) }
               else do {
                 r \<leftarrow> (if is_hpkg artifact then install_package e artifact (mf_version m)
                       else install_binary e artifact binary);
                 case r of
                   Some (Updated, detail) \<Rightarrow> do {
                     emit (EvUnlink artifact);
                     ret (Some (Updated, detail)) }
                 | _ \<Rightarrow> ret r } } }"

subsection \<open>Versions are ordered\<close>

lemma compare_components_zero:
  "compare_components xs [] = - compare_components [] xs"
  by (induction xs) auto

lemma compare_components_swap: "compare_components xs ys = - compare_components ys xs"
proof (induction xs ys rule: compare_components.induct)
  case (2 x xs)
  then show ?case by auto
next
  case (3 y ys)
  then show ?case by auto
qed auto

text \<open>The order of the components, missing ones being zero.\<close>

fun below :: "int list \<Rightarrow> int list \<Rightarrow> bool" where
  "below [] [] = True"
| "below (x # xs) [] = (x < 0 \<or> x = 0 \<and> below xs [])"
| "below [] (y # ys) = (0 < y \<or> y = 0 \<and> below [] ys)"
| "below (x # xs) (y # ys) = (x < y \<or> x = y \<and> below xs ys)"

lemma compare_components_below: "compare_components xs ys \<le> 0 \<longleftrightarrow> below xs ys"
  by (induction xs ys rule: compare_components.induct) auto

lemma below_trans: "below xs ys \<Longrightarrow> below ys zs \<Longrightarrow> below xs zs"
proof (induction xs arbitrary: ys zs)
  case Nil
  then show ?case
  proof (induction ys arbitrary: zs)
    case Nil
    then show ?case by simp
  next
    case (Cons y ys)
    then show ?case by (cases zs) force+
  qed
next
  case (Cons x xs)
  then show ?case by (cases ys; cases zs) force+
qed

text \<open>C35: versions are totally ordered: the comparison is one of -1, 0 and 1, it changes its sign
  with its arguments, and it is transitive. So no sequence of updates to strictly newer versions
  comes back to a version it started from.\<close>

theorem version_compare_order:
  "version_compare a b \<in> {-1, 0, 1} \<and> version_compare a b = - version_compare b a \<and>
   (version_compare a b \<le> 0 \<longrightarrow> version_compare b c \<le> 0 \<longrightarrow> version_compare a c \<le> 0)"
proof -
  have "compare_components xs ys \<in> {-1, 0, 1}" for xs ys
    by (induction xs ys rule: compare_components.induct) auto
  then show ?thesis
    using compare_components_swap below_trans
    unfolding version_compare_def compare_components_below by blast
qed

theorem version_compare_order_witness:
  "version_compare ''0.9'' ''0.10.0'' \<le> 0 \<and> version_compare ''0.10.0'' ''1'' \<le> 0 \<and>
   version_compare ''0.9'' ''1'' \<le> 0"
proof -
  have "version_compare ''0.9'' ''0.10.0'' \<le> 0" "version_compare ''0.10.0'' ''1'' \<le> 0" by code_simp+
  then show ?thesis using version_compare_order [of "''0.9''" "''0.10.0''" "''1''"] by blast
qed

subsection \<open>Nothing is installed without a newer version and the right checksum\<close>

definition is_install :: "event \<Rightarrow> bool" where
  "is_install ev = (case ev of EvRename _ _ \<Rightarrow> True | EvChmod _ \<Rightarrow> True | EvShell _ \<Rightarrow> True | _ \<Rightarrow> False)"

definition install_events :: "'w world_scheme \<Rightarrow> event list" where
  "install_events w = filter is_install (trace w)"

lemma keeps_download:
  "keeps (\<lambda>w. install_events w = evs) (download e region url dest)"
  "keeps (\<lambda>w. install_events w = evs) (fetch_manifest e region uri)"
  unfolding download_def fetch_manifest_def https_get_def
  by (intro keeps_rules; simp add: install_events_def is_install_def)+

lemma fetch_manifest_parsed:
  "yields (\<lambda>r. case r of Inl _ \<Rightarrow> True | Inr m \<Rightarrow> \<exists>body. parse_manifest body = Inr m) (fetch_manifest e region uri)"
  unfolding fetch_manifest_def by (intro yields_rules) (auto split: sum.splits)


text \<open>An update from 1.0 to 2.0 over HTTPS, of a binary outside the package system.\<close>

definition update_manifest :: json where
  "update_manifest = mk_obj [(''version'', VString ''2.0''), (''sha256'', VString ''ab''),
     (''url'', VString ''https://cdn/agent'')]"

definition update_env :: env where
  "update_env = sample_env\<lparr>e_peer := \<lambda>i. plain_reply (if i = 0 then json_dump update_manifest else ''new''),
     e_file := \<lambda>_. Some ([''new''], True), e_sha256 := \<lambda>_. [CHR 0xAB]\<rparr>"

lemma update_manifest_dump:
  "json_dump update_manifest = CHR 0x7B # CHR 0x22 # ''sha256'' @ CHR 0x22 # CHR '':'' # CHR 0x22 # ''ab'' @
     CHR 0x22 # CHR '','' # CHR 0x22 # ''url'' @ CHR 0x22 # CHR '':'' # CHR 0x22 # ''https://cdn/agent'' @
     CHR 0x22 # CHR '','' # CHR 0x22 # ''version'' @ CHR 0x22 # CHR '':'' # CHR 0x22 # ''2.0'' @ [CHR 0x22, CHR 0x7D]"
  by code_simp

lemma update_manifest_parsed:
  "parse_manifest (json_dump update_manifest) =
     Inr \<lparr>mf_version = ''2.0'', mf_sha256 = ''ab'', mf_url = ''https://cdn/agent''\<rparr>"
proof -
  have "json_parse (json_dump update_manifest) = Inr update_manifest"
    by (rule json_parse_dump) (auto simp: update_manifest_def intro!: json_safe_mk_obj)
  then show ?thesis
    by (simp add: parse_manifest_def parsed_def) (simp add: update_manifest_def, code_simp)
qed

lemma update_env_perform:
  "req_body_path req = [] \<Longrightarrow> run_state (perform update_env req) w =
     (plain_response (req_sink_path req) (if at_peer w = 0 then json_dump update_manifest else ''new''),
      w\<lparr>at_peer := Suc (at_peer w),
        trace := trace w @ [EvHttp req (plain_response (req_sink_path req)
          (if at_peer w = 0 then json_dump update_manifest else ''new''))]\<rparr>)"
  by (rule sample_perform) (simp_all add: update_env_def sample_env_def update_manifest_dump)

lemma sample_update:
  "fst (run_state (check_and_apply update_env ''us-east-1'' ''https://cdn/manifest'' ''1.0'' ''/bin/agent'')
     sample_aws_world) = Some (Updated, ''swapped binary at /bin/agent (previous kept as .old)'')"
proof -
  have f: "s3_parse_uri ''https://cdn/manifest'' = None" "s3_parse_uri ''https://cdn/agent'' = None"
    "starts_with ''https://cdn/manifest'' ''https://'' = True" "starts_with ''https://cdn/agent'' ''https://'' = True"
    "version_compare ''2.0'' ''1.0'' = 1" "is_hpkg (artifact_path ''https://cdn/agent'') = False"
    by code_simp+
  have req: "req_body_path (https_request url) = []" "req_sink_path (https_request url) = []" for url
    by (simp_all add: https_request_def Let_def new_request_def split: option.split)
  have ok: "resp_ok (plain_response p b)" "resp_body (plain_response [] b) = b" for p b
    by (simp_all add: plain_response_def resp_ok_def Let_def new_response_def)
  have env: "e_rename update_env a b = None" "sha256_file_hex update_env a = ''ab''" for a b
  proof -
    have "to_hex [CHR 0xAB] = ''ab''" by code_simp
    then show "e_rename update_env a b = None" "sha256_file_hex update_env a = ''ab''"
      by (simp_all add: update_env_def sample_env_def sha256_file_hex_def)
  qed
  have "at_peer sample_aws_world = 0" by (simp add: sample_aws_world_def)
  then show ?thesis
    by (simp add: env check_and_apply_def fetch_manifest_def https_get_def f update_env_perform req ok
        update_manifest_parsed emit_def download_def Let_def install_binary_def rename_file_def swap_binary_def)
qed


end
