(* ===== verification/Patch.thy ===== *)
theory Patch
  imports Runner Aws
begin

text \<open>
  Patch Manager on \<open>pkgman\<close>, \<open>src/src/patch.cpp\<close>: the parser of its transaction listing,
  the parameters, the inventory items, and the two operations as one program with the phases of the
  code. The result is \<open>None\<close> when a command never returns. The lemmas show that a listing is
  read back, and that packages are changed only by an Install that found something to install.
\<close>

subsection \<open>Reading a transaction\<close>

record pkg_update =
  pu_kind :: string
  pu_name :: string
  pu_from :: string
  pu_to :: string

definition max_compliance_rows :: nat where "max_compliance_rows = 1000"

definition needs_reboot :: "string \<Rightarrow> bool" where
  "needs_reboot name \<longleftrightarrow> name = ''haiku'' \<or> name = ''haiku_loader''"

definition is_patch_document :: "string \<Rightarrow> bool" where
  "is_patch_document name \<longleftrightarrow> name = ''AWS-RunPatchBaseline'' \<or> name = ''AWS-RunPatchBaselineAssociation''"

definition split_name_version :: "string \<Rightarrow> string \<times> string" where
  "split_name_version s =
     (case find_sub ''-'' s of
        None \<Rightarrow> (s, [])
      | Some dash \<Rightarrow> (take dash s, drop (dash + 1) s))"

definition update_kinds :: "string list" where
  "update_kinds = [''upgrade'', ''install'', ''downgrade'']"

text \<open>The kind a line starts with, and the rest of the line.\<close>

definition line_kind :: "string \<Rightarrow> (string \<times> string) option" where
  "line_kind line =
     map_option (\<lambda>k. (k, drop (length (k @ '' package '')) line))
       (List.find (\<lambda>k. starts_with line (k @ '' package '')) update_kinds)"

definition cut_repository :: "string \<Rightarrow> string" where
  "cut_repository line =
     trim (case find_sub '' from repository '' line of None \<Rightarrow> line | Some r \<Rightarrow> take r line)"

definition parse_update :: "string \<Rightarrow> string \<Rightarrow> pkg_update" where
  "parse_update kind line =
     (let (to, to_len) =
        (case find_sub '' to version '' line of
           Some t \<Rightarrow> (Some t, 12)
         | None \<Rightarrow> (find_sub '' to '' line, 4)) in
      case to of
        None \<Rightarrow> (case split_name_version line of (n, v) \<Rightarrow>
            \<lparr>pu_kind = kind, pu_name = n, pu_from = [], pu_to = v\<rparr>)
      | Some t \<Rightarrow> (case split_name_version (trim (take t line)) of (n, v) \<Rightarrow>
            let right = trim (drop (t + to_len) line) in
            \<lparr>pu_kind = kind, pu_name = n, pu_from = v,
             pu_to = (if starts_with right (n @ ''-'') then drop (length n + 1) right else right)\<rparr>))"

definition parse_transaction_line :: "string \<Rightarrow> pkg_update list" where
  "parse_transaction_line l =
     (case line_kind (trim l) of
        None \<Rightarrow> []
      | Some (kind, rest) \<Rightarrow>
          let u = parse_update kind (cut_repository rest) in
          if pu_name u \<noteq> [] then [u] else [])"

definition parse_pkgman_transaction :: "string \<Rightarrow> pkg_update list" where
  "parse_pkgman_transaction out = concat (map parse_transaction_line (split out CHR 0x0A))"

definition update_line :: "pkg_update \<Rightarrow> string" where
  "update_line u =
     ''  '' @ pu_name u @ '': '' @ (if pu_from u \<noteq> [] then pu_from u @ '' -> '' else []) @ pu_to u @ [CHR 0x0A]"

definition list_updates :: "pkg_update list \<Rightarrow> string" where
  "list_updates us = concat (map update_line us)"

subsection \<open>Parameters and inventory\<close>

record patch_params =
  pp_operation :: string
  pp_reboot_option :: string
  pp_snapshot_id :: string
  pp_error :: string

definition param_str :: "json \<Rightarrow> string \<Rightarrow> string" where
  "param_str parameters key =
     (case find_key parameters key of
        None \<Rightarrow> []
      | Some (VArr []) \<Rightarrow> []
      | Some (VArr (v # _)) \<Rightarrow> str_or v []
      | Some v \<Rightarrow> str_or v [])"

definition parse_params :: "json \<Rightarrow> patch_params" where
  "parse_params parameters =
     (let op = lower (trim (param_str parameters ''Operation''));
          none = \<lparr>pp_operation = [], pp_reboot_option = [], pp_snapshot_id = [], pp_error = []\<rparr> in
      if op \<noteq> ''scan'' \<and> op \<noteq> ''install''
      then none\<lparr>pp_error := ''Operation must be Scan or Install (got '' @
             quoted (param_str parameters ''Operation'') @ '')''\<rparr>
      else \<lparr>pp_operation = (if op = ''scan'' then ''Scan'' else ''Install''),
            pp_reboot_option =
              (if lower (trim (param_str parameters ''RebootOption'')) = ''noreboot''
               then ''NoReboot'' else ''RebootIfNeeded''),
            pp_snapshot_id = param_str parameters ''SnapshotId'', pp_error = []\<rparr>)"

record patch_report =
  rp_operation :: string
  rp_start :: string
  rp_end :: string
  rp_snapshot_id :: string
  rp_execution_id :: string
  rp_reboot_option :: string
  rp_installed_count :: int
  rp_missing :: "pkg_update list"
  rp_installed :: "pkg_update list"
  rp_pending_reboot :: bool

definition compliance_row :: "pkg_update \<Rightarrow> string \<Rightarrow> string \<Rightarrow> json" where
  "compliance_row u st installed_time = mk_obj
     [(''Title'', VString (pu_name u @ ''-'' @ pu_to u)), (''KBId'', VString (pu_name u)),
      (''Classification'', VString []), (''Severity'', VString []), (''State'', VString st),
      (''InstalledTime'', VString installed_time)]"

definition compliance_rows :: "patch_report \<Rightarrow> string \<Rightarrow> json list" where
  "compliance_rows r capture_time =
     take max_compliance_rows
       (map (\<lambda>u. compliance_row u (if needs_reboot (pu_name u) then ''InstalledPendingReboot'' else ''Installed'')
               capture_time) (rp_installed r) @
        map (\<lambda>u. compliance_row u ''Missing'' []) (rp_missing r))"

definition patch_summary :: "patch_report \<Rightarrow> json" where
  "patch_summary r = mk_obj
     [(''BaselineId'', VString ''haiku-pkgman''), (''SnapshotId'', VString (rp_snapshot_id r)),
      (''PatchGroup'', VString []), (''InstalledCount'', VString (show_int (rp_installed_count r))),
      (''InstalledOtherCount'', VString ''0''),
      (''InstalledPendingRebootCount'',
        VString (show_nat (length (filter (\<lambda>u. needs_reboot (pu_name u)) (rp_installed r))))),
      (''InstalledRejectedCount'', VString ''0''), (''NotApplicableCount'', VString ''0''),
      (''MissingCount'', VString (show_nat (length (rp_missing r)))), (''FailedCount'', VString ''0''),
      (''OperationType'', VString (rp_operation r)), (''OperationStartTime'', VString (rp_start r)),
      (''OperationEndTime'', VString (rp_end r)), (''RebootOption'', VString (rp_reboot_option r)),
      (''ExecutionId'', VString (rp_execution_id r))]"

definition inventory_item :: "string \<Rightarrow> string \<Rightarrow> json list \<Rightarrow> json" where
  "inventory_item type_name capture_time content = mk_obj
     [(''TypeName'', VString type_name), (''SchemaVersion'', VString ''1.0''),
      (''CaptureTime'', VString capture_time), (''Content'', VArr content)]"

definition inventory_items :: "patch_report \<Rightarrow> string \<Rightarrow> json" where
  "inventory_items r capture_time =
     VArr [inventory_item ''AWS:PatchSummary'' capture_time [patch_summary r],
           inventory_item ''AWS:PatchCompliance'' capture_time (compliance_rows r capture_time)]"

subsection \<open>Running the baseline\<close>

record patch_context =
  pc_has_creds :: bool
  pc_region :: string
  pc_instance_id :: string
  pc_command_id :: string
  pc_cancel :: bool
  pc_report_inventory :: bool

text \<open>The local variables of \<open>run_baseline\<close>.\<close>

record patch_run =
  pr_out :: string
  pr_err :: string
  pr_failed :: bool
  pr_cancelled :: bool
  pr_report :: patch_report
  pr_available :: "pkg_update list"

definition nl :: string where "nl = [CHR 0x0A]"

definition add_out :: "string \<Rightarrow> patch_run \<Rightarrow> patch_run" where
  "add_out s pr = pr\<lparr>pr_out := pr_out pr @ s\<rparr>"

definition add_err :: "string \<Rightarrow> patch_run \<Rightarrow> patch_run" where
  "add_err s pr = pr\<lparr>pr_err := pr_err pr @ s\<rparr>"

text \<open>\<open>sh\<close>: a command, after which the flag \<open>cancelled\<close> may be set.\<close>

definition patch_sh ::
    "'e env_scheme \<Rightarrow> patch_context \<Rightarrow> string \<Rightarrow> int \<Rightarrow> patch_run \<Rightarrow>
     ('w world_scheme, (exec_result \<times> patch_run) option) state" where
  "patch_sh e ctx script timeout pr = do {
     r \<leftarrow> shell e script timeout [] max_stdout_length (pc_cancel ctx);
     ret (map_option (\<lambda>x. (x, pr\<lparr>pr_cancelled := pr_cancelled pr \<or> er_cancelled x\<rparr>)) r) }"

definition scan_command :: string where "scan_command = ''echo n | pkgman update''"
definition install_command :: string where "install_command = ''pkgman update -y''"
definition count_command :: string where
  "count_command = ''ls -1 /system/packages 2>/dev/null | grep -c '' @ quoted (CHR 0x5C # ''.hpkg$'')"

definition phase_refresh ::
    "'e env_scheme \<Rightarrow> patch_context \<Rightarrow> patch_run \<Rightarrow> ('w world_scheme, patch_run option) state" where
  "phase_refresh e ctx pr = do {
     r \<leftarrow> patch_sh e ctx ''pkgman refresh'' 300 pr;
     ret (map_option (\<lambda>(x, pr).
       if pr_cancelled pr then pr
       else if er_exit_code x = 0 then add_out (''repositories refreshed'' @ nl) pr
       else add_err (''warning: pkgman refresh failed (exit '' @ show_int (er_exit_code x) @ ''): '' @
              clip (trim (er_stderr x)) 300 ''...'' @ ''; scanning against cached repository data'' @ nl) pr) r) }"

definition phase_scan ::
    "'e env_scheme \<Rightarrow> patch_context \<Rightarrow> patch_run \<Rightarrow> ('w world_scheme, patch_run option) state" where
  "phase_scan e ctx pr =
     (if pr_cancelled pr then ret (Some pr)
      else do {
        r \<leftarrow> patch_sh e ctx scan_command 600 pr;
        ret (map_option (\<lambda>(x, pr).
          if pr_cancelled pr then pr
          else if er_error x \<noteq> []
          then add_err (''could not list available updates: '' @ er_error x @ nl) (pr\<lparr>pr_failed := True\<rparr>)
          else pr\<lparr>pr_available := parse_pkgman_transaction (er_stdout x @ nl @ er_stderr x)\<rparr>) r) })"

definition set_missing :: "pkg_update list \<Rightarrow> patch_run \<Rightarrow> patch_run" where
  "set_missing us pr = pr\<lparr>pr_report := (pr_report pr)\<lparr>rp_missing := us\<rparr>\<rparr>"

text \<open>What the install command reports.\<close>

definition install_outcome :: "exec_result \<Rightarrow> patch_run \<Rightarrow> patch_run" where
  "install_outcome x pr =
     (if er_exit_code x = 0
      then add_out (''installed '' @ show_nat (length (pr_available pr)) @ '' update(s)'' @ nl)
             (pr\<lparr>pr_report := (pr_report pr)\<lparr>rp_installed := pr_available pr\<rparr>\<rparr>)
      else add_err (''pkgman update failed (exit '' @ show_int (er_exit_code x) @ ''): '' @
             clip (trim (er_stdout x @ er_stderr x)) 800 ''...'' @ nl) (pr\<lparr>pr_failed := True\<rparr>))"

definition phase_apply ::
    "'e env_scheme \<Rightarrow> patch_context \<Rightarrow> patch_params \<Rightarrow> patch_run \<Rightarrow> ('w world_scheme, patch_run option) state" where
  "phase_apply e ctx p pr =
     (let n = show_nat (length (pr_available pr)) in
      if \<not> pr_cancelled pr \<and> \<not> pr_failed pr \<and> pp_operation p = ''Install'' \<and> pr_available pr \<noteq> []
      then do {
        r \<leftarrow> patch_sh e ctx install_command 3300
               (add_out (n @ '' update(s) to install:'' @ nl @ list_updates (pr_available pr)) pr);
        case r of
          None \<Rightarrow> ret None
        | Some (x, pr) \<Rightarrow>
            if pr_cancelled pr then ret (Some pr)
            else do {
              r2 \<leftarrow> patch_sh e ctx scan_command 600 (install_outcome x pr);
              ret (map_option (\<lambda>(y, pr).
                if pr_cancelled pr then pr
                else set_missing (parse_pkgman_transaction (er_stdout y @ nl @ er_stderr y)) pr) r2) } }
      else ret (Some
        (if \<not> pr_cancelled pr \<and> \<not> pr_failed pr
         then (if pr_available pr = []
               then add_out (''no updates available; system is up to date'' @ nl)
               else add_out (n @ '' update(s) available (Missing):'' @ nl @ list_updates (pr_available pr)))
              (set_missing (pr_available pr) pr)
         else pr)))"

definition reboot_note :: string where
  "reboot_note = ''note: a haiku system package was updated; it takes effect on the next '' @
     ''reboot (reported as InstalledPendingReboot; the agent does not reboot '' @ ''the instance)'' @ nl"

definition phase_pending :: "patch_run \<Rightarrow> patch_run" where
  "phase_pending pr =
     (if \<exists>u \<in> set (rp_installed (pr_report pr)). needs_reboot (pu_name u)
      then add_err reboot_note (pr\<lparr>pr_report := (pr_report pr)\<lparr>rp_pending_reboot := True\<rparr>\<rparr>)
      else pr)"

definition phase_count ::
    "'e env_scheme \<Rightarrow> patch_context \<Rightarrow> patch_run \<Rightarrow> ('w world_scheme, patch_run option) state" where
  "phase_count e ctx pr =
     (if pr_cancelled pr then ret (Some pr)
      else do {
        r \<leftarrow> patch_sh e ctx count_command 60 pr;
        case r of
          None \<Rightarrow> ret None
        | Some (x, pr) \<Rightarrow> do {
            t \<leftarrow> now_s e;
            ret (Some (pr\<lparr>pr_report := (pr_report pr)
              \<lparr>rp_installed_count := atoi (trim (er_stdout x)), rp_end := iso8601_seconds t\<rparr>\<rparr>)) } })"

definition phase_report ::
    "'e env_scheme \<Rightarrow> patch_context \<Rightarrow> patch_run \<Rightarrow> ('w aws_world_scheme, patch_run) state" where
  "phase_report e ctx pr =
     (if pr_cancelled pr \<or> \<not> pc_report_inventory ctx then ret pr
      else do {
        let rep = pr_report pr;
        let none = new_response\<lparr>resp_error := ''no credentials available''\<rparr>;
        resp \<leftarrow> (if \<not> pc_has_creds ctx then ret none
                else do {
                  c \<leftarrow> provider_get e;
                  case c of
                    None \<Rightarrow> ret none
                  | Some creds \<Rightarrow>
                      put_inventory e (pc_region ctx) creds (pc_instance_id ctx)
                        (inventory_items rep (rp_end rep)) });
        ret (if resp_ok resp
             then add_out (''compliance reported to SSM inventory (AWS:PatchSummary: '' @
                    show_nat (length (rp_missing rep)) @ '' missing, '' @
                    show_nat (length (rp_installed rep)) @ '' installed this run)'' @ nl) pr
             else add_err (''PutInventory failed: status='' @ show_int (resp_status resp) @ '' '' @
                    resp_error resp @ '' '' @ clip (resp_body resp) 400 ''...'' @ nl)
                    (pr\<lparr>pr_failed := True\<rparr>)) })"

definition empty_report :: patch_report where
  "empty_report = \<lparr>rp_operation = [], rp_start = [], rp_end = [], rp_snapshot_id = [],
     rp_execution_id = [], rp_reboot_option = [], rp_installed_count = 0, rp_missing = [],
     rp_installed = [], rp_pending_reboot = False\<rparr>"

definition patch_start :: patch_run where
  "patch_start = \<lparr>pr_out = [], pr_err = [], pr_failed = False, pr_cancelled = False,
     pr_report = empty_report, pr_available = []\<rparr>"

definition run_operation ::
    "'e env_scheme \<Rightarrow> patch_context \<Rightarrow> patch_params \<Rightarrow> ('w aws_world_scheme, patch_run option) state" where
  "run_operation e ctx p = do {
     t \<leftarrow> now_s e;
     let pr = add_out (''Haiku patch baseline via pkgman: operation='' @ pp_operation p @
          '' reboot-option='' @ pp_reboot_option p @ nl)
          (patch_start\<lparr>pr_report := empty_report
             \<lparr>rp_operation := pp_operation p, rp_start := iso8601_seconds t,
              rp_snapshot_id := pp_snapshot_id p, rp_execution_id := pc_command_id ctx,
              rp_reboot_option := pp_reboot_option p\<rparr>\<rparr>);
     a \<leftarrow> phase_refresh e ctx pr;
     case a of None \<Rightarrow> ret None | Some pr \<Rightarrow> do {
       b \<leftarrow> phase_scan e ctx pr;
       case b of None \<Rightarrow> ret None | Some pr \<Rightarrow> do {
         c \<leftarrow> phase_apply e ctx p pr;
         case c of None \<Rightarrow> ret None | Some pr \<Rightarrow> do {
           d \<leftarrow> phase_count e ctx (phase_pending pr);
           case d of None \<Rightarrow> ret None | Some pr \<Rightarrow> do {
             pr \<leftarrow> phase_report e ctx pr;
             ret (Some pr) } } } } }"

definition patch_step :: "string \<Rightarrow> string \<Rightarrow> patch_run \<Rightarrow> step_result" where
  "patch_step start_time end_time pr =
     (let sr = (new_step_result ''PatchLinux'' run_shell_script)
        \<lparr>sr_start_time := start_time, sr_end_time := end_time, sr_full_stdout := pr_out pr,
         sr_full_stderr := pr_err pr, sr_standard_output := clip (pr_out pr) max_stdout_length [],
         sr_standard_error := clip (pr_err pr) max_stdout_length [],
         sr_status := (if pr_cancelled pr then ''Cancelled'' else if pr_failed pr then ''Failed'' else ''Success''),
         sr_code := (if pr_cancelled pr \<or> pr_failed pr then 1 else 0)\<rparr> in
      sr\<lparr>sr_output := truncate_output (sr_standard_output sr) (sr_standard_error sr) max_plugin_output\<rparr>)"

definition run_baseline ::
    "'e env_scheme \<Rightarrow> patch_context \<Rightarrow> json \<Rightarrow> ('w aws_world_scheme, outcome option) state" where
  "run_baseline e ctx parameters = do {
     t \<leftarrow> now_ms e;
     let p = parse_params parameters;
     r \<leftarrow> (if pp_error p \<noteq> []
           then ret (Some (add_err (pp_error p @ nl) (patch_start\<lparr>pr_failed := True\<rparr>)))
           else run_operation e ctx p);
     case r of
       None \<Rightarrow> ret None
     | Some pr \<Rightarrow> do {
         t2 \<leftarrow> now_ms e;
         let sr = patch_step (iso8601 t) (iso8601 t2) pr;
         ret (Some \<lparr>do_status = sr_status sr, do_steps = [sr], do_trace = []\<rparr>) } }"

subsection \<open>Which commands a run executes\<close>

definition shells :: "'w world_scheme \<Rightarrow> string list" where
  "shells w = concat (map (\<lambda>ev. case ev of EvShell s \<Rightarrow> [s] | _ \<Rightarrow> []) (trace w))"

lemma patch_sh_shells:
  assumes "run_state (patch_sh e ctx script t pr) w = (Some (x, pr'), w')"
  shows "shells w' = shells w @ [script] \<and> (pr_cancelled pr \<longrightarrow> pr_cancelled pr') \<and>
     pr' = pr\<lparr>pr_cancelled := pr_cancelled pr'\<rparr>"
  using assms by (auto simp: patch_sh_def shell_def emit_def shells_def)

lemma phase_refresh_shells:
  assumes "run_state (phase_refresh e ctx pr) w = (Some pr', w')"
  shows "shells w' = shells w @ [''pkgman refresh'']"
proof -
  obtain r v where r: "run_state (patch_sh e ctx ''pkgman refresh'' 300 pr) w = (r, v)" by fastforce
  with assms obtain x pr1 where "r = Some (x, pr1)" by (auto simp: phase_refresh_def)
  with patch_sh_shells [of e ctx _ _ pr w x pr1 v] r assms show ?thesis
    by (auto simp: phase_refresh_def)
qed

lemma phase_scan_shells:
  assumes "run_state (phase_scan e ctx pr) w = (Some pr', w')"
  shows "shells w' = shells w @ (if pr_cancelled pr then [] else [scan_command]) \<and>
     (pr_cancelled pr \<longrightarrow> pr_cancelled pr')"
proof (cases "pr_cancelled pr")
  case False
  obtain r v where r: "run_state (patch_sh e ctx scan_command 600 pr) w = (r, v)" by fastforce
  with assms False obtain x pr1 where "r = Some (x, pr1)" by (auto simp: phase_scan_def)
  with patch_sh_shells [of e ctx _ _ pr w x pr1 v] r assms False show ?thesis
    by (auto simp: phase_scan_def)
qed (use assms in \<open>auto simp: phase_scan_def\<close>)

text \<open>The commands of the apply phase: none, the installation, or that and a second scan.\<close>

lemma phase_apply_shells:
  assumes "run_state (phase_apply e ctx p pr) w = (Some pr', w')"
  shows "\<exists>cs \<in> {[], [install_command], [install_command, scan_command]}.
     shells w' = shells w @ cs \<and>
     (cs \<noteq> [] \<longrightarrow> \<not> pr_cancelled pr \<and> \<not> pr_failed pr \<and> pp_operation p = ''Install'' \<and> pr_available pr \<noteq> []) \<and>
     (cs = [install_command] \<or> pr_cancelled pr \<longrightarrow> pr_cancelled pr')"
proof (cases "\<not> pr_cancelled pr \<and> \<not> pr_failed pr \<and> pp_operation p = ''Install'' \<and> pr_available pr \<noteq> []")
  case False
  with assms have "w' = w" "pr_cancelled pr' = pr_cancelled pr"
    by (auto simp: phase_apply_def Let_def add_out_def set_missing_def split: if_splits)
  then show ?thesis by auto
next
  case True
  let ?pr = "add_out (show_nat (length (pr_available pr)) @ '' update(s) to install:'' @ nl @ list_updates (pr_available pr)) pr"
  obtain r v where r: "run_state (patch_sh e ctx install_command 3300 ?pr) w = (r, v)" by fastforce
  with assms True obtain x pr1 where x: "r = Some (x, pr1)" by (auto simp: phase_apply_def Let_def split: option.splits)
  from patch_sh_shells [OF r [unfolded x]] have sh1: "shells v = shells w @ [install_command]" by simp
  show ?thesis
  proof (cases "pr_cancelled pr1")
    case True
    with assms r x \<open>\<not> pr_cancelled pr \<and> _\<close> sh1 show ?thesis by (auto simp: phase_apply_def Let_def)
  next
    case False
    obtain r2 v2 where r2: "run_state (patch_sh e ctx scan_command 600 (install_outcome x pr1)) v = (r2, v2)" by fastforce
    with assms r x True False obtain y pr2 where y: "r2 = Some (y, pr2)"
      by (auto simp: phase_apply_def Let_def split: option.splits)
    from patch_sh_shells [OF r2 [unfolded y]] sh1 have "shells v2 = shells w @ [install_command, scan_command]" by simp
    moreover from assms r x True False r2 y have "w' = v2" by (auto simp: phase_apply_def Let_def)
    ultimately show ?thesis using True by auto
  qed
qed

lemma phase_count_shells:
  assumes "run_state (phase_count e ctx pr) w = (Some pr', w')"
  shows "shells w' = shells w @ (if pr_cancelled pr then [] else [count_command]) \<and>
     (pr_cancelled pr \<longrightarrow> pr_cancelled pr')"
proof (cases "pr_cancelled pr")
  case False
  obtain r v where r: "run_state (patch_sh e ctx count_command 60 pr) w = (r, v)" by fastforce
  with assms False obtain x pr1 where x: "r = Some (x, pr1)" by (auto simp: phase_count_def split: option.splits)
  from patch_sh_shells [OF r [unfolded x]] r x assms False show ?thesis
    by (auto simp: phase_count_def run_now_s shells_def)
qed (use assms in \<open>auto simp: phase_count_def\<close>)

lemma keeps_aws_call [keeps_rules]:
  assumes "\<And>s. I s \<Longrightarrow> I (s\<lparr>at_clock := Suc (at_clock s)\<rparr>)"
    and "\<And>s. I s \<Longrightarrow> I (s\<lparr>at_peer := Suc (at_peer s)\<rparr>)"
    and "\<And>s req r. I s \<Longrightarrow> I (s\<lparr>trace := trace s @ [EvHttp req r]\<rparr>)"
  shows "keeps I (aws_call e service prefix operation region creds body timeout)"
  unfolding aws_call_def by (intro keeps_rules assms)

lemma phase_report_shells:
  assumes "run_state (phase_report e ctx pr) w = (pr', w')"
  shows "shells w' = shells w"
proof -
  have "keeps (\<lambda>v. shells v = shells w) (phase_report e ctx pr)"
    unfolding phase_report_def put_inventory_def Let_def
    by (intro keeps_rules) (simp_all add: shells_def)
  from keepsD [OF this, of w] assms show ?thesis by simp
qed

text \<open>The full sequence of commands of an operation, with or without an installation.\<close>

definition patch_sequence :: "bool \<Rightarrow> string list" where
  "patch_sequence inst =
     [''pkgman refresh'', scan_command] @ (if inst then [install_command, scan_command] else []) @ [count_command]"

lemma run_operation_shells:
  assumes "run_state (run_operation e ctx p) w = (Some pr, w')"
  shows "\<exists>n inst. shells w' = shells w @ take n (patch_sequence inst) \<and>
     (inst \<longrightarrow> pp_operation p = ''Install'') \<and>
     (\<not> pr_cancelled pr \<longrightarrow> length (patch_sequence inst) \<le> n)"
proof -
  let ?w0 = "w\<lparr>at_clock := Suc (at_clock w)\<rparr>"
  let ?pr0 = "add_out (''Haiku patch baseline via pkgman: operation='' @ pp_operation p @
          '' reboot-option='' @ pp_reboot_option p @ nl)
          (patch_start\<lparr>pr_report := empty_report
             \<lparr>rp_operation := pp_operation p, rp_start := iso8601_seconds (e_clock e (at_clock w) div 1000),
              rp_snapshot_id := pp_snapshot_id p, rp_execution_id := pc_command_id ctx,
              rp_reboot_option := pp_reboot_option p\<rparr>\<rparr>)"
  obtain a w1 where a: "run_state (phase_refresh e ctx ?pr0) ?w0 = (a, w1)" by fastforce
  with assms obtain pr1 where 1: "a = Some pr1"
    by (cases a) (auto simp: run_operation_def run_now_s Let_def)
  obtain b w2 where b: "run_state (phase_scan e ctx pr1) w1 = (b, w2)" by fastforce
  with assms a 1 obtain pr2 where 2: "b = Some pr2"
    by (cases b) (auto simp: run_operation_def run_now_s Let_def)
  obtain c w3 where c: "run_state (phase_apply e ctx p pr2) w2 = (c, w3)" by fastforce
  with assms a 1 b 2 obtain pr3 where 3: "c = Some pr3"
    by (cases c) (auto simp: run_operation_def run_now_s Let_def)
  obtain d w4 where d: "run_state (phase_count e ctx (phase_pending pr3)) w3 = (d, w4)" by fastforce
  with assms a 1 b 2 c 3 obtain pr4 where 4: "d = Some pr4"
    by (cases d) (auto simp: run_operation_def run_now_s Let_def)
  from assms a 1 b 2 c 3 d 4 have r: "run_state (phase_report e ctx pr4) w4 = (pr, w')"
    by (auto simp: run_operation_def run_now_s Let_def split: prod.splits)
  have rc: "pr_cancelled pr = pr_cancelled pr4"
  proof -
    have "yields (\<lambda>x. pr_cancelled x = pr_cancelled pr4) (phase_report e ctx pr4)"
      unfolding phase_report_def Let_def by (intro yields_rules) (auto simp: add_out_def add_err_def)
    from yieldsD [OF this r] show ?thesis .
  qed
  have pend: "pr_cancelled (phase_pending pr3) = pr_cancelled pr3"
    by (simp add: phase_pending_def add_err_def)
  have s1: "shells w1 = shells w @ [''pkgman refresh'']"
    using phase_refresh_shells [OF a [unfolded 1]] by (simp add: shells_def)
  note s2 = phase_scan_shells [OF b [unfolded 2]]
  note s3 = phase_apply_shells [OF c [unfolded 3]]
  note s4 = phase_count_shells [OF d [unfolded 4], unfolded pend]
  note s5 = phase_report_shells [OF r]
  show ?thesis
  proof (cases "pr_cancelled pr1")
    case True
    with s1 s2 s3 s4 s5 rc show ?thesis
      by (intro exI [of _ 1] exI [of _ False]) (auto simp: patch_sequence_def)
  next
    case False
    show ?thesis
    proof (cases "pr_cancelled pr2")
      case True
      with False s1 s2 s3 s4 s5 rc show ?thesis
        by (intro exI [of _ 2] exI [of _ False]) (auto simp: patch_sequence_def)
    next
      case ok2: False
      from s3 obtain cs where cs: "cs \<in> {[], [install_command], [install_command, scan_command]}"
        "shells w3 = shells w2 @ cs" "cs \<noteq> [] \<longrightarrow> pp_operation p = ''Install''"
        "cs = [install_command] \<longrightarrow> pr_cancelled pr3" by blast
      show ?thesis
      proof (cases "pr_cancelled pr3")
        case True
        with False ok2 s1 s2 s4 s5 rc cs show ?thesis
          by (intro exI [of _ "2 + length cs"] exI [of _ "cs \<noteq> []"]) (auto simp: patch_sequence_def)
      next
        case ok3: False
        with False ok2 s1 s2 s4 s5 rc cs show ?thesis
          by (intro exI [of _ 5] exI [of _ "cs \<noteq> []"]) (auto simp: patch_sequence_def)
      qed
    qed
  qed
qed


subsection \<open>A listing is read back\<close>

text \<open>The line \<open>pkgman\<close> prints for an update, and the updates whose lines are unambiguous:
  no blanks, no dash in the name, and a new version that does not repeat the name.\<close>

definition listed :: "pkg_update \<Rightarrow> string" where
  "listed u = pu_kind u @ '' package '' @ pu_name u @ ''-'' @
     (if pu_from u = [] then pu_to u else pu_from u @ '' to '' @ pu_to u)"

definition no_blank :: "string \<Rightarrow> bool" where
  "no_blank s \<longleftrightarrow> (\<forall>c \<in> set s. \<not> is_trimmed c)"

definition listable :: "pkg_update \<Rightarrow> bool" where
  "listable u \<longleftrightarrow>
     pu_kind u \<in> set update_kinds \<and> no_blank (pu_name u) \<and> no_blank (pu_from u) \<and> no_blank (pu_to u) \<and>
     pu_name u \<noteq> [] \<and> CHR ''-'' \<notin> set (pu_name u) \<and> pu_to u \<noteq> [] \<and>
     \<not> starts_with (pu_to u) (pu_name u @ ''-'')"

lemma no_blank_append [simp]: "no_blank (s @ t) \<longleftrightarrow> no_blank s \<and> no_blank t"
  by (auto simp: no_blank_def)

lemma no_blank_space: "no_blank s \<Longrightarrow> CHR '' '' \<notin> set s" and no_blank_newline: "no_blank s \<Longrightarrow> CHR 0x0A \<notin> set s"
  by (auto simp: no_blank_def is_trimmed_def)

lemma trim_no_blank: "no_blank s \<Longrightarrow> trim s = s"
  by (cases "s = []") (auto intro!: trim_id simp: no_blank_def)

lemma find_after_no_blank:
  assumes "no_blank s"
  shows "find_sub (CHR '' '' # p) (s @ t) = map_option ((+) (length s)) (find_sub (CHR '' '' # p) t)"
proof (rule find_sub_skip)
  fix j assume "j < length s"
  then have "drop j (s @ t) = s ! j # drop (Suc j) s @ t"
    by (simp add: Cons_nth_drop_Suc [symmetric])
  moreover have "s ! j \<noteq> CHR '' ''"
    using assms \<open>j < length s\<close> by (metis no_blank_space nth_mem)
  ultimately show "take (length (CHR '' '' # p)) (drop j (s @ t)) \<noteq> CHR '' '' # p" by simp
qed

lemma find_no_blank: "no_blank s \<Longrightarrow> find_sub (CHR '' '' # p) s = None"
  using find_after_no_blank [of s p "[]"] by simp

lemma take_no_blank: "no_blank t \<Longrightarrow> CHR '' '' \<in> set q \<Longrightarrow> take k t \<noteq> q"
  using no_blank_space [of t] by (auto dest: in_set_takeD)

lemma split_name_version_listed:
  "CHR ''-'' \<notin> set n \<Longrightarrow> split_name_version (n @ CHR ''-'' # v) = (n, v)"
  by (simp add: split_name_version_def find_sub_singleton_append)

text \<open>The part of the line behind the kind.\<close>

definition listed_rest :: "pkg_update \<Rightarrow> string" where
  "listed_rest u = pu_name u @ CHR ''-'' #
     (if pu_from u = [] then pu_to u else pu_from u @ '' to '' @ pu_to u)"

lemma dash_no_blank: "no_blank ''-''"
  by (simp add: no_blank_def is_trimmed_def)

lemma parse_update_listed:
  assumes "listable u" and "pu_from u = [] \<longrightarrow> pu_kind u = k"
  shows "cut_repository (listed_rest u) = listed_rest u"
    and "parse_update (pu_kind u) (listed_rest u) = u"
proof -
  let ?n = "pu_name u" and ?f = "pu_from u" and ?t = "pu_to u"
  have nb: "no_blank ?n" "no_blank ?f" "no_blank ?t" "no_blank (?n @ CHR ''-'' # ?f)" "no_blank (?n @ CHR ''-'' # ?t)"
    using assms(1) dash_no_blank by (auto simp: listable_def no_blank_def)
  have ends: "hd (listed_rest u) = hd ?n" "last (listed_rest u) = last ?t" "listed_rest u \<noteq> []"
    using assms(1) by (auto simp: listed_rest_def listable_def)
  have "\<not> is_trimmed (hd ?n)" "\<not> is_trimmed (last ?t)"
    using assms(1) nb by (auto simp: listable_def no_blank_def)
  with ends have trimmed: "trim (listed_rest u) = listed_rest u" by (intro trim_id) simp_all
  show "cut_repository (listed_rest u) = listed_rest u"
  proof (cases "?f = []")
    case True
    then have "find_sub '' from repository '' (listed_rest u) = None"
      using find_no_blank [OF nb(5)] by (simp add: listed_rest_def)
    with trimmed show ?thesis by (simp add: cut_repository_def)
  next
    case False
    have "find_sub '' from repository '' ('' to '' @ ?t) = None"
      using find_no_blank [OF nb(3)] take_no_blank [OF nb(3)] by simp
    with False have "find_sub '' from repository '' (listed_rest u) = None"
      using find_after_no_blank [OF nb(4), of "''from repository ''" "'' to '' @ ?t"] by (simp add: listed_rest_def)
    with trimmed show ?thesis by (simp add: cut_repository_def)
  qed
  show "parse_update (pu_kind u) (listed_rest u) = u"
  proof (cases "?f = []")
    case True
    then have "listed_rest u = ?n @ CHR ''-'' # ?t" by (simp add: listed_rest_def)
    with find_no_blank [OF nb(5)] assms(1) True show ?thesis
      by (simp add: parse_update_def Let_def split_name_version_listed listable_def)
  next
    case False
    have "find_sub '' to version '' ('' to '' @ ?t) = None" "find_sub '' to '' ('' to '' @ ?t) = Some 0"
      using find_no_blank [OF nb(3)] take_no_blank [OF nb(3)] by simp_all
    with False have f: "find_sub '' to version '' (listed_rest u) = None"
      "find_sub '' to '' (listed_rest u) = Some (length (?n @ CHR ''-'' # ?f))"
      using find_after_no_blank [OF nb(4), of "''to version ''" "'' to '' @ ?t"]
        find_after_no_blank [OF nb(4), of "''to ''" "'' to '' @ ?t"]
      by (simp_all add: listed_rest_def)
    have r: "listed_rest u = (?n @ CHR ''-'' # ?f) @ '' to '' @ ?t" using False by (simp add: listed_rest_def)
    have d: "drop (length x + 4) (x @ '' to '' @ t) = t" for x t by simp
    have "take (length (?n @ CHR ''-'' # ?f)) (listed_rest u) = ?n @ CHR ''-'' # ?f"
      "drop (length (?n @ CHR ''-'' # ?f) + 4) (listed_rest u) = ?t"
      unfolding r by (simp, rule d)
    with f nb assms(1) show ?thesis
      by (simp add: parse_update_def Let_def trim_no_blank split_name_version_listed listable_def)
  qed
qed

lemma parse_line_listed:
  assumes "listable u"
  shows "parse_transaction_line (listed u) = [u]"
proof -
  have l: "listed u = pu_kind u @ '' package '' @ listed_rest u"
    by (simp add: listed_def listed_rest_def)
  have k: "pu_kind u = ''upgrade'' \<or> pu_kind u = ''install'' \<or> pu_kind u = ''downgrade''"
    using assms by (auto simp: listable_def update_kinds_def)
  have "last (listed u) = last (pu_to u)" "\<not> is_trimmed (last (pu_to u))"
    using assms by (auto simp: listed_def listable_def no_blank_def)
  moreover have "listed u \<noteq> []" "\<not> is_trimmed (hd (listed u))"
    using k by (auto simp: l is_trimmed_def)
  ultimately have t: "trim (listed u) = listed u" by (intro trim_id) simp_all
  have "line_kind (listed u) = Some (pu_kind u, listed_rest u)"
    using k by (auto simp: l line_kind_def update_kinds_def starts_with_def)
  with t parse_update_listed [OF assms, of "pu_kind u"] assms show ?thesis
    by (simp add: parse_transaction_line_def Let_def listable_def)
qed

text \<open>C37: a listing of updates, one line each, is read back as these updates, in order.\<close>

theorem parse_pkgman_listing:
  assumes "\<forall>u \<in> set us. listable u"
  shows "parse_pkgman_transaction (concat (map (\<lambda>u. listed u @ nl) us)) = us"
  using assms
proof (induction us)
  case Nil
  then show ?case
    by (simp add: parse_pkgman_transaction_def split_no_sep parse_transaction_line_def line_kind_def
        update_kinds_def starts_with_def)
next
  case (Cons u us)
  then have u: "listable u" by simp
  then have "CHR 0x0A \<notin> set (listed u)"
    using no_blank_newline by (auto simp: listed_def listable_def update_kinds_def)
  then have "split (concat (map (\<lambda>u. listed u @ nl) (u # us))) CHR 0x0A =
      listed u # split (concat (map (\<lambda>u. listed u @ nl) us)) CHR 0x0A"
    using split_sep [of "CHR 0x0A" "listed u" "concat (map (\<lambda>u. listed u @ nl) us)"] by (simp add: nl_def)
  with Cons parse_line_listed [OF u] show ?case by (simp add: parse_pkgman_transaction_def)
qed

definition sample_updates :: "pkg_update list" where
  "sample_updates =
     [\<lparr>pu_kind = ''upgrade'', pu_name = ''openssl3'', pu_from = ''3.0.15-1'', pu_to = ''3.0.16-1''\<rparr>,
      \<lparr>pu_kind = ''install'', pu_name = ''zlib'', pu_from = [], pu_to = ''1.3-2''\<rparr>]"

theorem parse_pkgman_listing_witness:
  "parse_pkgman_transaction (concat (map (\<lambda>u. listed u @ nl) sample_updates)) = sample_updates"
  by (rule parse_pkgman_listing) code_simp

definition sample_context :: patch_context where
  "sample_context = \<lparr>pc_has_creds = False, pc_region = ''us-east-1'', pc_instance_id = ''i-1'',
     pc_command_id = ''c-1'', pc_cancel = False, pc_report_inventory = True\<rparr>"

definition scan_parameters :: json where
  "scan_parameters = mk_obj [(''Operation'', VArr [VString ''Scan''])]"

text \<open>If commands return, the run does.\<close>

definition commands_return :: "'e env_scheme \<Rightarrow> bool" where
  "commands_return e \<longleftrightarrow>
     (\<forall>i script t cap hc. 60 \<le> t \<longrightarrow> max_stdout_length \<le> cap \<longrightarrow> run_shell (e_child e i) script t [] cap hc \<noteq> None)"

lemma patch_sh_returns:
  "commands_return e \<Longrightarrow> 60 \<le> t \<Longrightarrow> yields (\<lambda>r. r \<noteq> None) (patch_sh e ctx script t pr)"
  by (auto simp: yields_def patch_sh_def shell_def emit_def commands_return_def split: option.splits)

lemma run_baseline_returns:
  assumes "commands_return e"
  shows "yields (\<lambda>r. r \<noteq> None) (run_baseline e ctx parameters)"
proof -
  have sh: "60 \<le> t \<Longrightarrow> yields (\<lambda>r. r \<noteq> None) (patch_sh e ctx script t pr)" for script t pr
    using patch_sh_returns [OF assms] .
  have refresh: "yields (\<lambda>r. r \<noteq> None) (phase_refresh e ctx pr)" for pr
    unfolding phase_refresh_def by (rule yields_seq [OF sh]) (auto intro: yields_ret)
  have scan: "yields (\<lambda>r. r \<noteq> None) (phase_scan e ctx pr)" for pr
    unfolding phase_scan_def by (intro yields_if yields_seq [OF sh]) (auto intro: yields_ret)
  have step: "yields (\<lambda>r. r \<noteq> None) (m \<bind> (\<lambda>a. case a of None \<Rightarrow> ret None | Some x \<Rightarrow> f x))"
    if "yields (\<lambda>r. r \<noteq> None) m" and "\<And>x. yields (\<lambda>r. r \<noteq> None) (f x)"
    for m :: "('s, 'x option) state" and f :: "'x \<Rightarrow> ('s, 'y option) state"
  proof (rule yields_seq [OF that(1)])
    fix x :: "'x option"
    assume "x \<noteq> None"
    then obtain y where "x = Some y" by blast
    then show "yields (\<lambda>r. r \<noteq> None) (case x of None \<Rightarrow> ret None | Some x \<Rightarrow> f x)"
      by (simp only: option.case that(2))
  qed
  have install: "yields (\<lambda>r. r \<noteq> None) (phase_apply e ctx p pr)" for p pr
    unfolding phase_apply_def Let_def
    by (intro yields_if step sh)
      (auto split: prod.split intro!: yields_if yields_ret yields_seq [OF sh])
  have count: "yields (\<lambda>r. r \<noteq> None) (phase_count e ctx pr)" for pr
    unfolding phase_count_def by (intro yields_if step sh) (auto split: prod.split intro!: yields_ret yields_bind)
  have "yields (\<lambda>r. r \<noteq> None) (run_operation e ctx p)" for p
    unfolding run_operation_def Let_def
    by (intro yields_bind step refresh scan install count yields_ret) simp
  then show ?thesis
    unfolding run_baseline_def Let_def
    by (intro yields_bind step yields_if yields_ret) simp_all
qed


end
