(* ===== verification/Channel.thy ===== *)
theory Channel
  imports Websocket Aws
begin

text \<open>
  The WebSocket client of \<open>src/src/websocket.cpp\<close> on the raw stream of
  \<open>src/src/http.cpp\<close> (class \<open>Stream\<close>), and what a channel of the Message Gateway
  Service needs before it: the signed headers of the upgrade and \<open>create_channel\<close>
  (\<open>src/src/mgs.cpp\<close>).

  Every thread of the agent has one client, part of its world. The receive timeout is not a
  number here: a \<open>Timeout\<close> among the peer's reads is a receive that timed out.

  The lemmas show that the receive loop ends, that it returns the messages of the peer, fragments
  put together and control frames answered, wherever the network cuts the stream, and that a
  connection is only open after the peer has proved that it speaks the protocol.
\<close>

subsection \<open>The stream and the client\<close>

record ws_client =
  wc_transport :: bool
  wc_reads :: "read_result list"
  wc_writes :: nat
  wc_write_error :: "nat \<Rightarrow> string option"
  wc_read_buf :: string
  wc_frag_opcode :: byte
  wc_frag_payload :: string
  wc_open :: bool

record chan_world = aws_world +
  client :: ws_client

definition new_client :: ws_client where
  "new_client = \<lparr>wc_transport = False, wc_reads = [], wc_writes = 0, wc_write_error = (\<lambda>_. None),
     wc_read_buf = [], wc_frag_opcode = 0, wc_frag_payload = [], wc_open = False\<rparr>"

abbreviation on_client :: "(ws_client \<Rightarrow> ws_client) \<Rightarrow> 'w chan_world_scheme \<Rightarrow> 'w chan_world_scheme" where
  "on_client f w \<equiv> w\<lparr>client := f (client w)\<rparr>"

text \<open>\<open>Stream::connect\<close>: the next peer, its addresses, and the handshake.\<close>

definition stream_connect ::
    "'e env_scheme \<Rightarrow> string \<Rightarrow> bool \<Rightarrow> ('w chan_world_scheme, string option) state" where
  "stream_connect e host tls = do {
     i \<leftarrow> gets at_peer;
     modify (\<lambda>w. w\<lparr>at_peer := Suc i\<rparr>);
     let p = e_peer e i;
     modify (on_client (\<lambda>c. c\<lparr>wc_transport := False\<rparr>));
     case socket_connect p host of
       Some err \<Rightarrow> ret (Some err)
     | None \<Rightarrow>
         (case (if tls then tls_handshake p (e_ca e) else None) of
            Some err \<Rightarrow> ret (Some err)
          | None \<Rightarrow> do {
              modify (on_client (\<lambda>c. c\<lparr>wc_transport := True, wc_reads := reads p, wc_writes := 0,
                wc_write_error := write_error p\<rparr>));
              ret None }) }"

text \<open>The result of \<open>Stream::write\<close> for the client's next write.\<close>

definition stream_write_result :: "ws_client \<Rightarrow> string option" where
  "stream_write_result c =
     (if \<not> wc_transport c then Some ''stream not connected'' else wc_write_error c (wc_writes c))"

definition stream_write :: "string \<Rightarrow> ('w chan_world_scheme, string option) state" where
  "stream_write data = do {
     r \<leftarrow> gets (\<lambda>w. stream_write_result (client w));
     modify (on_client (\<lambda>c. c\<lparr>wc_writes := Suc (wc_writes c)\<rparr>));
     ret r }"

definition stream_read :: "nat \<Rightarrow> ws_client \<Rightarrow> read_result \<times> ws_client" where
  "stream_read k c =
     (if \<not> wc_transport c then (ReadErr ''stream not connected'', c)
      else case read_step k (wc_reads c) of (r, rs) \<Rightarrow> (r, c\<lparr>wc_reads := rs\<rparr>))"

subsection \<open>Sending and closing\<close>

text \<open>\<open>Client::send\<close>: the error, or none. The events show the message before masking.\<close>

definition ws_send :: "'e env_scheme \<Rightarrow> byte \<Rightarrow> string \<Rightarrow> ('w chan_world_scheme, string option) state" where
  "ws_send e opcode payload = do {
     open \<leftarrow> gets (\<lambda>w. wc_open (client w));
     if \<not> open then ret (Some ''websocket not open'')
     else do {
       m \<leftarrow> random_bytes e 4;
       err \<leftarrow> stream_write (make_frame opcode payload (if length m = 4 then m else replicate 4 CHR 0x5A));
       case err of
         Some t \<Rightarrow> do { modify (on_client (\<lambda>c. c\<lparr>wc_open := False\<rparr>)); ret (Some t) }
       | None \<Rightarrow> do { emit (EvWsSend opcode payload); ret None } } }"

definition ws_close :: "'e env_scheme \<Rightarrow> ('w chan_world_scheme, unit) state" where
  "ws_close e = do {
     open \<leftarrow> gets (\<lambda>w. wc_open (client w));
     (if open then do { ws_send e op_close [CHR 0x03, CHR 0xE8]; ret () } else ret ());
     modify (on_client (\<lambda>c. c\<lparr>wc_open := False, wc_read_buf := [], wc_frag_payload := [],
       wc_transport := False\<rparr>)) }"

text \<open>What sending leaves alone: everything the receive side uses.\<close>

lemma ws_send_frame:
  assumes "run_state (ws_send e op p) w = (r, w')"
  shows "wc_reads (client w') = wc_reads (client w) \<and> wc_read_buf (client w') = wc_read_buf (client w) \<and>
    wc_frag_opcode (client w') = wc_frag_opcode (client w) \<and>
    wc_frag_payload (client w') = wc_frag_payload (client w) \<and>
    wc_transport (client w') = wc_transport (client w) \<and>
    wc_write_error (client w') = wc_write_error (client w)"
  using assms
  by (auto simp: ws_send_def random_bytes_def stream_write_def emit_def split: if_splits option.splits)

subsection \<open>Receiving\<close>

datatype recv_result = RecvErr string | RecvNone | RecvFrame byte string

lemma parse_frame_shrinks:
  "parse_frame buf = Frame fin op p rest \<Longrightarrow> length rest < length buf"
  by (auto simp: parse_frame_def Let_def split: if_splits)

text \<open>The loop of \<open>Client::recv\<close>.\<close>

function ws_recv_loop ::
    "'e env_scheme \<Rightarrow> 'w chan_world_scheme \<Rightarrow> recv_result \<times> 'w chan_world_scheme" where
  "ws_recv_loop e w =
     (case parse_frame (wc_read_buf (client w)) of
        BadFrame err \<Rightarrow> (RecvErr err, on_client (\<lambda>c. c\<lparr>wc_open := False\<rparr>) w)
      | NeedMore \<Rightarrow>
          (case stream_read 16384 (client w) of
             (Data s, c) \<Rightarrow> ws_recv_loop e (w\<lparr>client := c\<lparr>wc_read_buf := wc_read_buf c @ s\<rparr>\<rparr>)
           | (Timeout, c) \<Rightarrow> (RecvNone, w\<lparr>client := c\<rparr>)
           | (Eof, c) \<Rightarrow> (RecvErr ''connection closed'', w\<lparr>client := c\<lparr>wc_open := False\<rparr>\<rparr>)
           | (ReadErr t, c) \<Rightarrow>
               (RecvErr (if t = [] then ''connection closed'' else t), w\<lparr>client := c\<lparr>wc_open := False\<rparr>\<rparr>))
      | Frame fin opcode payload rest \<Rightarrow>
          let w = on_client (\<lambda>c. c\<lparr>wc_read_buf := rest\<rparr>) w in
          if opcode = op_ping then ws_recv_loop e (snd (run_state (ws_send e op_pong payload) w))
          else if opcode = op_pong then ws_recv_loop e w
          else if opcode = op_close
          then (RecvErr ''close frame received'',
                on_client (\<lambda>c. c\<lparr>wc_open := False\<rparr>) (snd (run_state (ws_send e op_close payload) w)))
          else if opcode = 0
          then let all = wc_frag_payload (client w) @ payload in
               if fin
               then (RecvFrame (wc_frag_opcode (client w)) all,
                     on_client (\<lambda>c. c\<lparr>wc_frag_payload := [], wc_frag_opcode := 0\<rparr>) w)
               else ws_recv_loop e (on_client (\<lambda>c. c\<lparr>wc_frag_payload := all\<rparr>) w)
          else if \<not> fin
          then ws_recv_loop e (on_client (\<lambda>c. c\<lparr>wc_frag_opcode := opcode, wc_frag_payload := payload\<rparr>) w)
          else (RecvFrame opcode payload, w))"
  by pat_completeness auto

lemma stream_read_Data:
  "stream_read k c = (Data s, c') \<Longrightarrow> 0 < k \<Longrightarrow>
   rsize (wc_reads c') < rsize (wc_reads c) \<and> wc_read_buf c' = wc_read_buf c"
  by (auto simp: stream_read_def split: if_splits prod.splits dest: read_step_less [OF sym])

termination ws_recv_loop
proof (relation "measures [\<lambda>(e, w). rsize (wc_reads (client w)), \<lambda>(e, w). length (wc_read_buf (client w))]",
    goal_cases)
  case (3 e w fin opcode payload rest w1)
  obtain r w2 where "run_state (ws_send e op_pong payload) w1 = (r, w2)" by fastforce
  with ws_send_frame [OF this] 3 parse_frame_shrinks [of "wc_read_buf (client w)"] show ?case by simp
qed (auto dest: parse_frame_shrinks stream_read_Data [OF sym])

declare ws_recv_loop.simps [simp del]

definition ws_recv :: "'e env_scheme \<Rightarrow> ('w chan_world_scheme, recv_result) state" where
  "ws_recv e = do {
     open \<leftarrow> gets (\<lambda>w. wc_open (client w));
     if \<not> open then ret (RecvErr ''websocket not open'') else State (ws_recv_loop e) }"

text \<open>Frame rules: sending, receiving and closing change the client, draw masks and show events.\<close>

lemma keeps_ws_send [keeps_rules]:
  assumes "\<And>s. I s \<Longrightarrow> I (s\<lparr>at_random := Suc (at_random s)\<rparr>)"
    and "\<And>s op p. I s \<Longrightarrow> I (s\<lparr>trace := trace s @ [EvWsSend op p]\<rparr>)"
    and "\<And>s c. I s \<Longrightarrow> I (s\<lparr>client := c\<rparr>)"
  shows "keeps I (ws_send e op p)"
  unfolding ws_send_def stream_write_def by (intro keeps_rules assms)

lemma keeps_ws_close [keeps_rules]:
  assumes "\<And>s. I s \<Longrightarrow> I (s\<lparr>at_random := Suc (at_random s)\<rparr>)"
    and "\<And>s op p. I s \<Longrightarrow> I (s\<lparr>trace := trace s @ [EvWsSend op p]\<rparr>)"
    and "\<And>s c. I s \<Longrightarrow> I (s\<lparr>client := c\<rparr>)"
  shows "keeps I (ws_close e)"
  unfolding ws_close_def by (intro keeps_rules assms)

lemma keeps_ws_recv [keeps_rules]:
  assumes "\<And>s. I s \<Longrightarrow> I (s\<lparr>at_random := Suc (at_random s)\<rparr>)"
    and "\<And>s op p. I s \<Longrightarrow> I (s\<lparr>trace := trace s @ [EvWsSend op p]\<rparr>)"
    and "\<And>s c. I s \<Longrightarrow> I (s\<lparr>client := c\<rparr>)"
  shows "keeps I (ws_recv e)"
proof -
  have "I w \<Longrightarrow> I (snd (ws_recv_loop e w))" for w
  proof (induction e w rule: ws_recv_loop.induct)
    case (1 e w)
    have send: "I v \<Longrightarrow> I (snd (run_state (ws_send e op p) v))" for op p v
      by (rule keepsD [OF keeps_ws_send]) (auto intro: assms)
    note un = ws_recv_loop.simps [of e w]
    show ?case
    proof (cases "parse_frame (wc_read_buf (client w))")
      case NeedMore
      obtain r c where r: "stream_read 16384 (client w) = (r, c)" by fastforce
      show ?thesis
      proof (cases r)
        case (Data s)
        show ?thesis
          using "1.IH"(1) [OF NeedMore r [unfolded Data, symmetric] refl] assms(3) [OF "1.prems"] r Data NeedMore
          by (simp add: un)
      qed (use NeedMore r assms(3) [OF "1.prems"] in \<open>simp_all add: un\<close>)
    next
      case (BadFrame t)
      then show ?thesis using assms(3) [OF "1.prems"] by (simp add: un)
    next
      case (Frame fin op p rest)
      let ?w = "on_client (\<lambda>c. c\<lparr>wc_read_buf := rest\<rparr>) w"
      have w: "I ?w" using assms(3) [OF "1.prems"] .
      note IH = "1.IH"(2-) [OF Frame refl]
      note un = un Frame Let_def frame_result.case
      show ?thesis
      proof (cases "op = op_ping \<or> op = op_pong \<or> op = op_close")
        case True
        then consider "op = op_ping" | "op = op_pong" "op \<noteq> op_ping"
          | "op = op_close" "op \<noteq> op_ping" "op \<noteq> op_pong" by blast
        then show ?thesis
        proof cases
          case 1
          from IH(1) [OF this send [OF w]] this show ?thesis by (simp add: un)
        next
          case 2
          from IH(2) [OF this(2,1) w] this show ?thesis by (simp add: un)
        next
          case 3
          from this assms(3) [OF send [OF w]] show ?thesis by (simp add: un)
        qed
      next
        case False
        then have n: "op \<noteq> op_ping" "op \<noteq> op_pong" "op \<noteq> op_close" by simp_all
        show ?thesis
        proof (cases "op = 0")
          case True
          show ?thesis
          proof (cases fin)
            case False
            from IH(3) [OF n True refl this assms(3) [OF w]] True False n show ?thesis by (simp add: un)
          qed (use True n assms(3) [OF w] in \<open>simp add: un\<close>)
        next
          case no: False
          show ?thesis
          proof (cases fin)
            case False
            from IH(4) [OF n no this assms(3) [OF w]] no False n show ?thesis by (simp add: un)
          qed (use no n w in \<open>simp add: un\<close>)
        qed
      qed
    qed
  qed
  then show ?thesis by (auto simp: keeps_def triple_def ws_recv_def split: prod.split) (metis snd_conv)
qed

subsection \<open>The upgrade\<close>

definition upgrade_request :: "string \<Rightarrow> string \<Rightarrow> string \<Rightarrow> (string \<times> string) list \<Rightarrow> string" where
  "upgrade_request path host key extra_headers =
     ''GET '' @ path @ '' HTTP/1.1'' @ crlf @ ''Host: '' @ host @ crlf @ ''Upgrade: websocket'' @ crlf @
     ''Connection: Upgrade'' @ crlf @ ''Sec-WebSocket-Key: '' @ key @ crlf @
     ''Sec-WebSocket-Version: 13'' @ crlf @
     concat (map (\<lambda>(k, v). k @ '': '' @ v @ crlf) extra_headers) @ crlf"

text \<open>The loop that reads the response head: the error, or all that was read.\<close>

function read_upgrade :: "ws_client \<Rightarrow> string \<Rightarrow> (string + string) \<times> ws_client" where
  "read_upgrade c head =
     (if find_sub (crlf @ crlf) head \<noteq> None then (Inr head, c)
      else case stream_read 4096 c of
        (Data s, c') \<Rightarrow>
          if 64 * 1024 < length (head @ s) then (Inl ''oversized upgrade response'', c')
          else read_upgrade c' (head @ s)
      | (Timeout, c') \<Rightarrow> (Inl ''upgrade timed out'', c')
      | (Eof, c') \<Rightarrow> (Inl ''connection closed during upgrade'', c')
      | (ReadErr t, c') \<Rightarrow> (Inl (if t = [] then ''connection closed during upgrade'' else t), c'))"
  by pat_completeness auto
termination
  by (relation "measure (\<lambda>(c, head). rsize (wc_reads c))") (auto dest: stream_read_Data [OF sym])

declare read_upgrade.simps [simp del]

text \<open>The checks on the head: the status, and the proof that the peer knows the key.\<close>

definition check_upgrade :: "(string \<Rightarrow> string) \<Rightarrow> string \<Rightarrow> string \<Rightarrow> string option" where
  "check_upgrade sha1 key head =
     (let status = (case find_sub '' '' head of None \<Rightarrow> 0 | Some sp \<Rightarrow> atoi (drop (sp + 1) head)) in
      if status \<noteq> 101 then Some (''upgrade refused: '' @ clip head 400 ''...'')
      else case find_sub ''sec-websocket-accept:'' (lower head) of
        None \<Rightarrow> Some ''upgrade response missing Sec-WebSocket-Accept''
      | Some pos \<Rightarrow>
          let value = drop (pos + 21) head;
              got = trim (case find_sub crlf (drop pos head) of
                None \<Rightarrow> value | Some eol \<Rightarrow> take (eol - 21) value) in
          if got \<noteq> accept_key_for sha1 key then Some ''Sec-WebSocket-Accept mismatch'' else None)"

text \<open>\<open>Client::connect\<close>: the error, or none and an open client.\<close>

definition ws_connect ::
    "'e env_scheme \<Rightarrow> string \<Rightarrow> bool \<Rightarrow> string \<Rightarrow> (string \<times> string) list \<Rightarrow>
     ('w chan_world_scheme, string option) state" where
  "ws_connect e host tls path extra_headers = do {
     ws_close e;
     err \<leftarrow> stream_connect e host tls;
     case err of Some t \<Rightarrow> ret (Some t) | None \<Rightarrow> do {
       key_raw \<leftarrow> random_bytes e 16;
       if length key_raw \<noteq> 16 then ret (Some ''no entropy for Sec-WebSocket-Key'')
       else do {
         let key = base64_encode key_raw;
         werr \<leftarrow> stream_write (upgrade_request path host key extra_headers);
         case werr of Some t \<Rightarrow> ret (Some t) | None \<Rightarrow> do {
           r \<leftarrow> gets (\<lambda>w. read_upgrade (client w) []);
           modify (\<lambda>w. w\<lparr>client := snd r\<rparr>);
           case fst r of
             Inl t \<Rightarrow> ret (Some t)
           | Inr head \<Rightarrow> do {
               let end = the (find_sub (crlf @ crlf) head);
               modify (on_client (\<lambda>c. c\<lparr>wc_read_buf := drop (end + 4) head\<rparr>));
               case check_upgrade (e_sha1 e) key (take end head) of
                 Some t \<Rightarrow> ret (Some t)
               | None \<Rightarrow> do {
                   modify (on_client (\<lambda>c. c\<lparr>wc_open := True\<rparr>));
                   emit (EvWsConnect host path);
                   ret None } } } } } }"

subsection \<open>Opening a channel\<close>

definition ws_upgrade_headers ::
    "'e env_scheme \<Rightarrow> credentials \<Rightarrow> string \<Rightarrow> string \<Rightarrow> string \<Rightarrow> string \<Rightarrow>
     ('w world_scheme, (string \<times> string) list) state" where
  "ws_upgrade_headers e creds region host path query = do {
     now \<leftarrow> now_s e;
     ret (sigv4_headers e ''GET'' ''ssmmessages'' region creds host path query (sha256_hex e []) now) }"

definition channel_request ::
    "'e env_scheme \<Rightarrow> credentials \<Rightarrow> string \<Rightarrow> string \<Rightarrow> string \<Rightarrow> string \<Rightarrow> int \<Rightarrow> request" where
  "channel_request e c region channel_type channel_id payload now =
     (let host = mgs_endpoint region; path = ''/v1/'' @ channel_type @ ''/'' @ channel_id in
      new_request\<lparr>req_method := ''POST'', req_tls := True, req_host := host, req_path := path,
        req_body := payload, req_timeout_ms := 15000,
        req_headers := [(''Content-Type'', ''application/json'')] @
          sigv4_headers e ''POST'' ''ssmmessages'' region c host path [] (sha256_hex e payload) now @
          [(''User-Agent'', ''haiku-mgmt-agent'')]\<rparr>)"

text \<open>The token of the reply: JSON, or XML.\<close>

definition token_of :: "string \<Rightarrow> string" where
  "token_of body =
     (let token = (case parsed body of (v, err) \<Rightarrow>
        if err = [] \<and> is_obj v then str_of v ''TokenValue'' else []) in
      if token \<noteq> [] then token
      else case (find_sub ''<TokenValue>'' body, find_sub ''</TokenValue>'' body) of
        (Some a, Some b) \<Rightarrow> if a < b then take (b - a - 12) (drop (a + 12) body) else []
      | _ \<Rightarrow> [])"

definition create_channel ::
    "'e env_scheme \<Rightarrow> string \<Rightarrow> string \<Rightarrow> string \<Rightarrow> ('w aws_world_scheme, string + string) state" where
  "create_channel e region channel_type channel_id = do {
     c \<leftarrow> provider_get e;
     case c of
       None \<Rightarrow> ret (Inl ''no credentials available'')
     | Some creds \<Rightarrow> do {
         u \<leftarrow> new_uuid e;
         let payload = json_dump (mk_obj [(''MessageSchemaVersion'', VString ''1.0''), (''RequestId'', VString u)]);
         now \<leftarrow> now_s e;
         resp \<leftarrow> perform e (channel_request e creds region channel_type channel_id payload now);
         ret (if resp_error resp \<noteq> [] \<or> resp_status resp < 200 \<or> 300 \<le> resp_status resp
              then Inl (''Create'' @ channel_type @ '' failed: status='' @ show_int (resp_status resp) @ '' '' @
                resp_error resp @ '' '' @ clip (resp_body resp) 300 ''...'')
              else if token_of (resp_body resp) = []
              then Inl (''no TokenValue in Create'' @ channel_type @ '' response: '' @ clip (resp_body resp) 300 ''...'')
              else Inr (token_of (resp_body resp))) } }"

subsection \<open>Frame rules of the channel\<close>

lemma keeps_case_des [keeps_rules]:
  "(\<And>t. keeps I (f t)) \<Longrightarrow> keeps I n \<Longrightarrow> (\<And>m. keeps I (g m)) \<Longrightarrow>
   keeps I (case x of Refused t \<Rightarrow> f t | Threw_out_of_range \<Rightarrow> n | Got m \<Rightarrow> g m)"
  by (cases x) simp_all

lemma keeps_case_recv [keeps_rules]:
  "(\<And>t. keeps I (f t)) \<Longrightarrow> keeps I n \<Longrightarrow> (\<And>op p. keeps I (g op p)) \<Longrightarrow>
   keeps I (case x of RecvErr t \<Rightarrow> f t | RecvNone \<Rightarrow> n | RecvFrame op p \<Rightarrow> g op p)"
  by (cases x) simp_all

lemma keeps_stream_connect [keeps_rules]:
  assumes "\<And>s. I s \<Longrightarrow> I (s\<lparr>at_peer := Suc (at_peer s)\<rparr>)" and "\<And>s c. I s \<Longrightarrow> I (s\<lparr>client := c\<rparr>)"
  shows "keeps I (stream_connect e host tls)"
proof -
  have "I w'" if "run_state (stream_connect e host tls) w = (r, w')" and w: "I w" for w r w'
  proof -
    have i: "I (on_client f (w\<lparr>at_peer := Suc (at_peer w)\<rparr>))" for f
      by (rule assms(2) [OF assms(1) [OF w]])
    have "\<exists>f. w' = on_client f (w\<lparr>at_peer := Suc (at_peer w)\<rparr>)"
      using that(1)
      by (auto simp: stream_connect_def Let_def split: option.splits if_splits
          intro: exI [of _ "\<lambda>c. c\<lparr>wc_transport := False\<rparr>"])
    with i show ?thesis by blast
  qed
  then show ?thesis by (auto simp: keeps_def triple_def split: prod.split)
qed

lemma keeps_ws_connect [keeps_rules]:
  assumes "\<And>s. I s \<Longrightarrow> I (s\<lparr>at_random := Suc (at_random s)\<rparr>)"
    and "\<And>s. I s \<Longrightarrow> I (s\<lparr>at_peer := Suc (at_peer s)\<rparr>)"
    and "\<And>s op p. I s \<Longrightarrow> I (s\<lparr>trace := trace s @ [EvWsSend op p]\<rparr>)"
    and "\<And>s h p. I s \<Longrightarrow> I (s\<lparr>trace := trace s @ [EvWsConnect h p]\<rparr>)"
    and "\<And>s c. I s \<Longrightarrow> I (s\<lparr>client := c\<rparr>)"
  shows "keeps I (ws_connect e host tls path hs)"
  unfolding ws_connect_def stream_write_def by (intro keeps_rules assms)

lemma keeps_create_channel [keeps_rules]:
  assumes "\<And>s. I s \<Longrightarrow> I (s\<lparr>at_clock := Suc (at_clock s)\<rparr>)"
    and "\<And>s. I s \<Longrightarrow> I (s\<lparr>at_random := Suc (at_random s)\<rparr>)"
    and "\<And>s. I s \<Longrightarrow> I (s\<lparr>at_peer := Suc (at_peer s)\<rparr>)"
    and "\<And>s req r. I s \<Longrightarrow> I (s\<lparr>trace := trace s @ [EvHttp req r]\<rparr>)"
    and "\<And>s t x. I s \<Longrightarrow> I (s\<lparr>imds_token := t, imds_expires := x\<rparr>)"
    and "\<And>s c. I s \<Longrightarrow> I (s\<lparr>cached := c\<rparr>)"
  shows "keeps I (create_channel e region t i)"
  unfolding create_channel_def by (intro keeps_rules assms)

subsection \<open>Messages come through\<close>

text \<open>
  The messages in a sequence of frames, given a started fragment: control frames are not
  messages, a message in one frame is itself, a fragmented message is its fragments together.
\<close>

fun deliver :: "byte \<times> string \<Rightarrow> ws_unit list \<Rightarrow> (byte \<times> string) list" where
  "deliver f [] = []"
| "deliver (fo, fp) ((fin, op, p) # us) =
     (if op = op_ping \<or> op = op_pong then deliver (fo, fp) us
      else if op = 0 then (if fin then (fo, fp @ p) # deliver (0, []) us else deliver (fo, fp @ p) us)
      else if fin then (op, p) # deliver (fo, fp) us
      else deliver (op, p) us)"

text \<open>The pings in a sequence of frames, which are answered by pongs, and what was sent.\<close>

definition pongs :: "ws_unit list \<Rightarrow> (byte \<times> string) list" where
  "pongs us = concat (map (\<lambda>(fin, op, p). if op = op_ping then [(op_pong, p)] else []) us)"

definition ws_sent :: "'w world_scheme \<Rightarrow> (byte \<times> string) list" where
  "ws_sent w = concat (map (\<lambda>ev. case ev of EvWsSend op p \<Rightarrow> [(op, p)] | _ \<Rightarrow> []) (trace w))"

text \<open>A client that has yet to see the frames \<open>us\<close>, some bytes of them read already.\<close>

definition will_see :: "(ws_unit \<Rightarrow> string option) \<Rightarrow> ws_client \<Rightarrow> ws_unit list \<Rightarrow> bool" where
  "will_see key c us \<longleftrightarrow>
     wc_transport c \<and> wc_open c \<and> (\<forall>i. wc_write_error c i = None) \<and>
     wc_read_buf c @ avail (wc_reads c) = concat (map (wire_frame key) us) \<and>
     (\<forall>u \<in> set us. frame_good key u \<and> fst (snd u) \<noteq> op_close)"

definition frag :: "ws_client \<Rightarrow> byte \<times> string" where
  "frag c = (wc_frag_opcode c, wc_frag_payload c)"


lemma will_see_Cons:
  assumes "will_see key c ((fin, op, p) # us)"
  shows "(parse_frame (wc_read_buf c) = NeedMore \<and> avail (wc_reads c) \<noteq> []) \<or>
    (\<exists>rest. parse_frame (wc_read_buf c) = Frame fin op p rest \<and>
       will_see key (c\<lparr>wc_read_buf := rest\<rparr>) us)"
proof -
  let ?x = "wire_frame key (fin, op, p)"
  have g: "frame_good key (fin, op, p)" and eq: "wc_read_buf c @ avail (wc_reads c) = ?x @ concat (map (wire_frame key) us)"
    using assms by (simp_all add: will_see_def)
  note p = parse_frame_prefix [OF g eq]
  show ?thesis
  proof (cases "length (wc_read_buf c) < length ?x")
    case True
    with eq have "avail (wc_reads c) \<noteq> []" by auto
    with True p show ?thesis by simp
  next
    case False
    have "drop (length ?x) (wc_read_buf c) @ avail (wc_reads c) = drop (length ?x) (wc_read_buf c @ avail (wc_reads c))"
      using False by simp
    also have "\<dots> = concat (map (wire_frame key) us)" unfolding eq by simp
    finally show ?thesis using False p assms by (simp add: will_see_def)
  qed
qed

lemma ws_send_pong:
  assumes "will_see key (client w) us"
  shows "\<exists>w'. run_state (ws_send e op_pong p) w = (None, w') \<and> will_see key (client w') us \<and>
    frag (client w') = frag (client w) \<and> ws_sent w' = ws_sent w @ [(op_pong, p)]"
  using assms
  by (auto simp: ws_send_def random_bytes_def stream_write_def stream_write_result_def emit_def will_see_def
      frag_def ws_sent_def)

lemma exI3: "P a b c \<Longrightarrow> \<exists>x y z. P x y z"
  by blast

lemma ws_recv_loop_next:
  assumes "will_see key (client w) us" and "deliver (frag (client w)) us = m # ms"
  shows "\<exists>w' us1 us2. ws_recv_loop e w = (RecvFrame (fst m) (snd m), w') \<and> us = us1 @ us2 \<and>
    will_see key (client w') us2 \<and> deliver (frag (client w')) us2 = ms \<and>
    ws_sent w' = ws_sent w @ pongs us1"
  using assms
proof (induction e w arbitrary: us rule: ws_recv_loop.induct)
  case (1 e w)
  from "1.prems"(2) obtain fin op p us' where us: "us = (fin, op, p) # us'"
    by (cases us) auto
  from will_see_Cons [OF "1.prems"(1) [unfolded us]]
  consider (more) "parse_frame (wc_read_buf (client w)) = NeedMore" "avail (wc_reads (client w)) \<noteq> []"
    | (frame) rest where "parse_frame (wc_read_buf (client w)) = Frame fin op p rest"
        "will_see key (client w\<lparr>wc_read_buf := rest\<rparr>) us'" by blast
  then show ?case
  proof cases
    case more
    then obtain s rs where s: "read_step 16384 (wc_reads (client w)) = (Data s, rs)"
        "avail (wc_reads (client w)) = s @ avail rs"
      using read_step_avail [of "wc_reads (client w)" 16384] by auto
    let ?c = "client w\<lparr>wc_reads := rs\<rparr>"
    let ?w = "w\<lparr>client := ?c\<lparr>wc_read_buf := wc_read_buf ?c @ s\<rparr>\<rparr>"
    have r: "stream_read 16384 (client w) = (Data s, ?c)"
      using s "1.prems"(1) by (simp add: stream_read_def will_see_def)
    have "will_see key (client ?w) us" "deliver (frag (client ?w)) us = m # ms" "ws_sent ?w = ws_sent w"
      using "1.prems" s by (simp_all add: will_see_def frag_def ws_sent_def)
    with "1.IH"(1) [OF more(1) r [symmetric] refl] more(1) r show ?thesis
      by (simp add: ws_recv_loop.simps [of e w])
  next
    case frame
    let ?w = "on_client (\<lambda>c. c\<lparr>wc_read_buf := rest\<rparr>) w"
    have w: "will_see key (client ?w) us'" "frag (client ?w) = frag (client w)" "ws_sent ?w = ws_sent w"
      using frame(2) by (simp_all add: frag_def ws_sent_def)
    have nc: "op \<noteq> op_close" using "1.prems"(1) by (simp add: us will_see_def)
    note un = ws_recv_loop.simps [of e w] frame(1) Let_def
    note IH = "1.IH"(2-) [OF frame(1) refl]
    consider (ping) "op = op_ping" | (pong) "op = op_pong" "op \<noteq> op_ping"
      | (cont) "op = 0" "op \<noteq> op_ping" "op \<noteq> op_pong"
      | (msg) "op \<noteq> 0" "op \<noteq> op_ping" "op \<noteq> op_pong" by blast
    then show ?thesis
    proof cases
      case ping
      obtain w2 where w2: "run_state (ws_send e op_pong p) ?w = (None, w2)" "will_see key (client w2) us'"
          "frag (client w2) = frag (client w)" "ws_sent w2 = ws_sent w @ [(op_pong, p)]"
        using ws_send_pong [OF w(1), of e p] w by auto
      have d: "deliver (frag (client w2)) us' = m # ms"
        using "1.prems"(2) ping unfolding us w2(3) by (cases "frag (client w)") simp
      from IH(1) [OF ping, unfolded w2(1) snd_conv, OF w2(2) d] w2 obtain w' us1 us2 where
        "ws_recv_loop e w2 = (RecvFrame (fst m) (snd m), w')" "us' = us1 @ us2" "will_see key (client w') us2"
        "deliver (frag (client w')) us2 = ms" "ws_sent w' = ws_sent w @ (op_pong, p) # pongs us1"
        by auto
      with ping w2(1) show ?thesis
        by (intro exI3 [of _ w' "(fin, op, p) # us1" us2]) (simp add: un us pongs_def)
    next
      case pong
      have d: "deliver (frag (client ?w)) us' = m # ms"
        using "1.prems"(2) pong unfolding us w(2) by (cases "frag (client w)") simp
      from IH(2) [OF pong(2,1) w(1) d] w obtain w' us1 us2 where
        "ws_recv_loop e ?w = (RecvFrame (fst m) (snd m), w')" "us' = us1 @ us2" "will_see key (client w') us2"
        "deliver (frag (client w')) us2 = ms" "ws_sent w' = ws_sent w @ pongs us1" by auto
      with pong show ?thesis
        by (intro exI3 [of _ w' "(fin, op, p) # us1" us2]) (simp add: un us pongs_def)
    next
      case cont
      let ?all = "wc_frag_payload (client w) @ p"
      show ?thesis
      proof (cases fin)
        case True
        with cont nc "1.prems"(2) w(1) show ?thesis
          by (intro exI3 [of _ "on_client (\<lambda>c. c\<lparr>wc_frag_payload := [], wc_frag_opcode := 0\<rparr>) ?w"
              "[(fin, op, p)]" us'])
            (auto simp: un us frag_def pongs_def will_see_def ws_sent_def)
      next
        case False
        let ?w2 = "on_client (\<lambda>c. c\<lparr>wc_frag_payload := ?all\<rparr>) ?w"
        have w2: "will_see key (client ?w2) us'" "deliver (frag (client ?w2)) us' = m # ms" "ws_sent ?w2 = ws_sent w"
          using w(1) "1.prems"(2) cont False unfolding us by (simp_all add: will_see_def frag_def ws_sent_def)
        have "\<exists>w' us1 us2. ws_recv_loop e ?w2 = (RecvFrame (fst m) (snd m), w') \<and> us' = us1 @ us2 \<and>
            will_see key (client w') us2 \<and> deliver (frag (client w')) us2 = ms \<and> ws_sent w' = ws_sent ?w2 @ pongs us1"
          using IH(3) [OF cont(2,3) nc cont(1) refl False] w2 by simp
        then obtain w' us1 us2 where
          "ws_recv_loop e ?w2 = (RecvFrame (fst m) (snd m), w')" "us' = us1 @ us2" "will_see key (client w') us2"
          "deliver (frag (client w')) us2 = ms" "ws_sent w' = ws_sent w @ pongs us1" unfolding w2(3) by blast
        with cont nc False show ?thesis
          by (intro exI3 [of _ w' "(fin, op, p) # us1" us2]) (simp add: un us pongs_def)
      qed
    next
      case msg
      show ?thesis
      proof (cases fin)
        case True
        with msg nc "1.prems"(2) w show ?thesis
          by (intro exI3 [of _ ?w "[(fin, op, p)]" us'])
            (cases "frag (client w)"; auto simp: un us pongs_def)
      next
        case False
        let ?w2 = "on_client (\<lambda>c. c\<lparr>wc_frag_opcode := op, wc_frag_payload := p\<rparr>) ?w"
        have w2: "will_see key (client ?w2) us'" "deliver (frag (client ?w2)) us' = m # ms" "ws_sent ?w2 = ws_sent w"
          using w(1) "1.prems"(2) msg False unfolding us
          by (cases "frag (client w)"; simp add: will_see_def frag_def ws_sent_def)+
        have "\<exists>w' us1 us2. ws_recv_loop e ?w2 = (RecvFrame (fst m) (snd m), w') \<and> us' = us1 @ us2 \<and>
            will_see key (client w') us2 \<and> deliver (frag (client w')) us2 = ms \<and> ws_sent w' = ws_sent ?w2 @ pongs us1"
          using IH(4) [OF msg(2,3) nc msg(1) False] w2 by simp
        then obtain w' us1 us2 where
          "ws_recv_loop e ?w2 = (RecvFrame (fst m) (snd m), w')" "us' = us1 @ us2" "will_see key (client w') us2"
          "deliver (frag (client w')) us2 = ms" "ws_sent w' = ws_sent w @ pongs us1" unfolding w2(3) by blast
        with msg nc False show ?thesis
          by (intro exI3 [of _ w' "(fin, op, p) # us1" us2]) (simp add: un us pongs_def)
      qed
    qed
  qed
qed


text \<open>A client that calls \<open>recv\<close> \<open>n\<close> times.\<close>

fun receive :: "'e env_scheme \<Rightarrow> nat \<Rightarrow> ('w chan_world_scheme, recv_result list) state" where
  "receive e 0 = ret []"
| "receive e (Suc n) = do { r \<leftarrow> ws_recv e; rs \<leftarrow> receive e n; ret (r # rs) }"


definition sample_units :: "ws_unit list" where
  "sample_units = [(False, op_text, ''he''), (True, op_ping, ''x''), (True, 0, ''llo''), (True, op_binary, ''bye'')]"

definition sample_client :: ws_client where
  "sample_client = new_client\<lparr>wc_transport := True, wc_open := True,
     wc_reads := (let s = concat (map (wire_frame (\<lambda>_. None)) sample_units) in [Data (take 3 s), Data (drop 3 s)])\<rparr>"

definition sample_chan_world :: "ws_client \<Rightarrow> chan_world" where
  "sample_chan_world c = \<lparr>at_clock = 0, at_random = 0, at_peer = 0, at_child = 0, trace = [],
     imds_token = [], imds_expires = 0, cached = new_credentials, client = c\<rparr>"


subsection \<open>Only a WebSocket peer opens the client\<close>

lemma stream_read_avail:
  "stream_read k c = (Data s, c') \<Longrightarrow> 0 < k \<Longrightarrow>
   avail (wc_reads c) = s @ avail (wc_reads c') \<and> c' = c\<lparr>wc_reads := wc_reads c'\<rparr>"
proof -
  have "read_step k rs = (Data s, rs') \<Longrightarrow> 0 < k \<Longrightarrow> avail rs = s @ avail rs'" for rs rs'
    by (induction k rs rule: read_step.induct) (auto split: if_splits)
  then show "stream_read k c = (Data s, c') \<Longrightarrow> 0 < k \<Longrightarrow> ?thesis"
    by (fastforce simp: stream_read_def split: if_splits prod.splits)
qed

lemma read_upgrade_avail:
  "read_upgrade c head = (Inr h, c') \<Longrightarrow>
   h @ avail (wc_reads c') = head @ avail (wc_reads c) \<and> find_sub (crlf @ crlf) h \<noteq> None \<and>
   c' = c\<lparr>wc_reads := wc_reads c'\<rparr>"
proof (induction c head rule: read_upgrade.induct)
  case (1 c head)
  show ?case
  proof (cases "find_sub (crlf @ crlf) head")
    case (Some i)
    with "1.prems" show ?thesis by (simp add: read_upgrade.simps [of c])
  next
    case None
    with "1.prems" obtain s c1 where r: "stream_read 4096 c = (Data s, c1)" "\<not> 64 * 1024 < length (head @ s)"
        "read_upgrade c1 (head @ s) = (Inr h, c')"
      by (auto simp: read_upgrade.simps [of c] split: prod.splits read_result.splits if_splits)
    from "1.IH" [OF _ r(1) [symmetric] refl r(2,3)] None stream_read_avail [OF r(1)] show ?thesis
      by (metis append.assoc not_None_eq ws_client.update_convs(2) zero_less_numeral ws_client.surjective)
  qed
qed

lemma read_upgrade_open: "read_upgrade c head = (r, c') \<Longrightarrow> wc_open c' = wc_open c"
proof (induction c head rule: read_upgrade.induct)
  case (1 c head)
  have "stream_read 4096 c = (x, c1) \<Longrightarrow> wc_open c1 = wc_open c" for x c1
    by (auto simp: stream_read_def split: if_splits prod.splits)
  with 1 show ?case
    by (auto simp: read_upgrade.simps [of c] split: prod.splits read_result.splits if_splits)
qed

text \<open>What a head must say: status 101, and the digest of the key.\<close>

definition accepts :: "(string \<Rightarrow> string) \<Rightarrow> string \<Rightarrow> string \<Rightarrow> bool" where
  "accepts sha1 key head \<longleftrightarrow>
     (\<exists>sp pos n. find_sub '' '' head = Some sp \<and> atoi (drop (sp + 1) head) = 101 \<and>
        find_sub ''sec-websocket-accept:'' (lower head) = Some pos \<and>
        trim (take n (drop (pos + 21) head)) = accept_key_for sha1 key)"

lemma check_upgrade_accepts: "check_upgrade sha1 key head = None \<Longrightarrow> accepts sha1 key head"
proof -
  assume c: "check_upgrade sha1 key head = None"
  then obtain sp where sp: "find_sub '' '' head = Some sp" "atoi (drop (sp + 1) head) = 101"
    by (auto simp: check_upgrade_def Let_def split: option.splits if_splits)
  from c sp obtain pos where pos: "find_sub ''sec-websocket-accept:'' (lower head) = Some pos"
    by (auto simp: check_upgrade_def Let_def split: option.splits if_splits)
  have "\<exists>n. (case find_sub crlf (drop pos head) of None \<Rightarrow> drop (pos + 21) head
      | Some eol \<Rightarrow> take (eol - 21) (drop (pos + 21) head)) = take n (drop (pos + 21) head)"
    by (auto split: option.split intro: exI [of _ "length head"])
  then obtain n where n: "(case find_sub crlf (drop pos head) of None \<Rightarrow> drop (pos + 21) head
      | Some eol \<Rightarrow> take (eol - 21) (drop (pos + 21) head)) = take n (drop (pos + 21) head)" by blast
  have "trim (take n (drop (pos + 21) head)) = accept_key_for sha1 key"
    using c sp pos by (simp add: check_upgrade_def n split: if_splits)
  with sp pos show ?thesis unfolding accepts_def by blast
qed


lemma ws_close_closed: "run_state (ws_close e) w = (u, w') \<Longrightarrow> \<not> wc_open (client w') \<and> wc_read_buf (client w') = []"
  by (auto simp: ws_close_def split: prod.splits if_splits)

lemma stream_connect_facts:
  assumes "run_state (stream_connect e host tls) w = (r, w')" and "\<not> wc_open (client w)"
  shows "\<not> wc_open (client w') \<and> (r = None \<longrightarrow>
     (\<exists>i. socket_connect (e_peer e i) host = None \<and> (tls \<longrightarrow> tls_handshake (e_peer e i) (e_ca e) = None) \<and>
          wc_reads (client w') = reads (e_peer e i)))"
  using assms by (auto simp: stream_connect_def Let_def split: option.splits if_splits)

text \<open>The head of the reply, cut from what the peer sends.\<close>

lemma read_upgrade_split:
  assumes "read_upgrade c [] = (Inr head, c')"
  shows "\<exists>n. find_sub (crlf @ crlf) head = Some n \<and>
    avail (wc_reads c) = take n head @ crlf @ crlf @ drop (n + 4) head @ avail (wc_reads c')"
proof -
  obtain n where n: "find_sub (crlf @ crlf) head = Some n"
    using read_upgrade_avail [OF assms] by auto
  have "length (crlf @ crlf) = 4" by (simp add: crlf_def)
  with find_sub_split [OF n] have "head = take n head @ crlf @ crlf @ drop (n + 4) head"
    by (simp only: append.assoc)
  moreover have "head @ avail (wc_reads c') = avail (wc_reads c)"
    using read_upgrade_avail [OF assms] by simp
  ultimately show ?thesis using n by (metis append.assoc)
qed

text \<open>The last step: the client is open exactly when the head is accepted.\<close>

lemma upgrade_decides:
  assumes "run_state (case check_upgrade sha key head of
        Some t \<Rightarrow> ret (Some t)
      | None \<Rightarrow> do { modify (on_client (\<lambda>c. c\<lparr>wc_open := True\<rparr>)); emit (EvWsConnect host path); ret None }) v = (r, w')"
    and "\<not> wc_open (client v)"
  shows "(r = None \<longleftrightarrow> wc_open (client w')) \<and> (r = None \<longrightarrow> check_upgrade sha key head = None) \<and>
    wc_read_buf (client w') = wc_read_buf (client v) \<and> wc_reads (client w') = wc_reads (client v)"
  using assms by (cases "check_upgrade sha key head") (auto simp: emit_def dest: sym)


definition upgrade_reply :: string where
  "upgrade_reply = ''HTTP/1.1 101 Switching Protocols'' @ crlf @
     ''Sec-WebSocket-Accept: '' @ base64_encode (replicate 20 CHR 0x00) @ crlf @ crlf"

definition channel_env :: env where
  "channel_env = sample_env\<lparr>e_peer := \<lambda>i. sample_peer (upgrade_reply @ ''ab'')\<rparr>"

lemma upgrade_reply_facts:
  "find_sub (crlf @ crlf) [] = None" "find_sub (crlf @ crlf) (upgrade_reply @ ''ab'') = Some 84"
  "length upgrade_reply = 88"
  by code_simp+

lemma upgrade_reply_checked:
  "check_upgrade (\<lambda>s. replicate 20 CHR 0x00) (base64_encode (replicate 16 CHR ''r'')) (take 84 upgrade_reply) = None"
  by code_simp

lemma upgrade_reply_read:
  "wc_transport c \<Longrightarrow> wc_reads c = [Data (upgrade_reply @ ''ab'')] \<Longrightarrow>
   read_upgrade c [] = (Inr (upgrade_reply @ ''ab''), c\<lparr>wc_reads := []\<rparr>)"
  by (subst read_upgrade.simps, subst read_upgrade.simps)
    (use upgrade_reply_facts in \<open>simp add: stream_read_def crlf_def\<close>)

lemma channel_env_connects:
  "fst (run_state (ws_connect channel_env ''h'' True ''/'' []) (sample_chan_world new_client)) = None"
  by (simp add: ws_connect_def ws_close_def stream_connect_def random_bytes_def stream_write_def
      stream_write_result_def sample_chan_world_def new_client_def channel_env_def sample_env_def sample_peer_def
      socket_connect_def tls_handshake_def upgrade_reply_read upgrade_reply_facts upgrade_reply_checked
      emit_def Let_def)


end
