(* ===== verification/Session.thy ===== *)
theory Session
  imports Channel Outbox
begin

text \<open>
  Interactive sessions, \<open>src/src/session.cpp\<close>: the data channel with its sequence numbers,
  retransmission and acknowledgements, the handshake, the bridge to a shell on a pseudo terminal, and
  the control channel that starts sessions.

  The state of a session thread extends that of its channel. The terminal is a sequence of reads and
  a sequence of answers to writes; a write past these answers takes everything.

  The lemmas show that both loops end, that input is applied exactly once and in order although
  the service repeats and reorders it, and that a session is started at most once and never with
  an encryption or of a type the agent does not implement.
\<close>

subsection \<open>State\<close>

datatype pty_write = Wrote nat | WriteAgain | WriteFail

datatype pty_spawn =
    OpenFails string
  | GrantFails string
  | NoName
  | ForkFails string
  | Spawned

record session_env = env +
  e_stop :: "nat \<Rightarrow> bool"
  e_spawn :: pty_spawn
  e_pid :: nat
  e_pty_reads :: "read_result list"
  e_pty_writes :: "pty_write list"
  e_exit :: "nat option"

record session_world = chan_world +
  at_stop :: nat
  out_seq :: int
  outbox :: "entry list"
  pty_reads :: "read_result list"
  pty_writes :: "pty_write list"
  next_expected :: int
  last_activity :: int

record session_options =
  so_region :: string
  so_instance_id :: string
  so_agent_version :: string

record start_request =
  sq_session_id :: string
  sq_document_name :: string
  sq_session_type :: string
  sq_kms_key_id :: string
  sq_run_as_enabled :: bool
  sq_run_as_user :: string
  sq_shell_commands :: string
  sq_error :: string

definition idle_timeout :: int where "idle_timeout = 20 * 60"
definition pty_read_chunk :: nat where "pty_read_chunk = 8192"

text \<open>\<open>opts.stop->load()\<close>.\<close>

definition stopped :: "'e session_env_scheme \<Rightarrow> ('w session_world_scheme, bool) state" where
  "stopped e = do {
     i \<leftarrow> gets at_stop;
     modify (\<lambda>w. w\<lparr>at_stop := Suc i\<rparr>);
     ret (e_stop e i) }"

subsection \<open>Messages out\<close>

definition stream_message :: "u32 \<Rightarrow> string \<Rightarrow> int \<Rightarrow> int \<Rightarrow> string \<Rightarrow> agent_message" where
  "stream_message payload_type data seq now uuid =
     \<lparr>am_message_type = msg_output_stream_data, am_schema_version = 1, am_created_ms = of_int now,
      am_sequence = seq, am_flags = (if seq = 0 then 1 else 0), am_message_id = uuid,
      am_payload_type = payload_type, am_payload = data\<rparr>"

definition send_stream ::
    "'e env_scheme \<Rightarrow> u32 \<Rightarrow> string \<Rightarrow> ('w session_world_scheme, string option) state" where
  "send_stream e payload_type data = do {
     now \<leftarrow> now_ms e;
     seq \<leftarrow> gets out_seq;
     uuid \<leftarrow> new_uuid e;
     let frame = serialize (e_sha256 e) (stream_message payload_type data seq now uuid);
     modify (\<lambda>w. w\<lparr>out_seq := seq + 1\<rparr>);
     now2 \<leftarrow> now_ms e;
     modify (\<lambda>w. w\<lparr>outbox := outbox_add seq frame now2 (outbox w)\<rparr>);
     ws_send e op_binary frame }"

definition pump_outbox :: "'e env_scheme \<Rightarrow> ('w session_world_scheme, bool) state" where
  "pump_outbox e = do {
     now \<leftarrow> now_ms e;
     d \<leftarrow> gets (\<lambda>w. due_resend now (outbox w));
     case d of (frame, dead, buf) \<Rightarrow> do {
       modify (\<lambda>w. w\<lparr>outbox := buf\<rparr>);
       if dead then ret False
       else (case frame of
               None \<Rightarrow> ret True
             | Some f \<Rightarrow> do { ws_send e op_binary f; ret True }) } }"

definition acked_sequence :: "string \<Rightarrow> int option" where
  "acked_sequence payload =
     (case parsed payload of (v, jerr) \<Rightarrow>
        if jerr = [] \<and> is_obj v
        then Some (double_to_int64 (num_at v ''AcknowledgedMessageSequenceNumber'' (double_of_int (- 1))))
        else None)"

definition handle_ack :: "agent_message \<Rightarrow> ('w session_world_scheme, unit) state" where
  "handle_ack m = modify (\<lambda>w. w\<lparr>outbox :=
     (case acked_sequence (am_payload m) of None \<Rightarrow> outbox w | Some q \<Rightarrow> outbox_ack q (outbox w))\<rparr>)"

definition send_control ::
    "'e env_scheme \<Rightarrow> string \<Rightarrow> string \<Rightarrow> ('w chan_world_scheme, string option) state" where
  "send_control e message_type json_payload = do {
     now \<leftarrow> now_ms e;
     uuid \<leftarrow> new_uuid e;
     ws_send e op_binary (serialize (e_sha256 e)
       \<lparr>am_message_type = message_type, am_schema_version = 1, am_created_ms = of_int now,
        am_sequence = 0, am_flags = 3, am_message_id = uuid, am_payload_type = 0,
        am_payload = json_payload\<rparr>) }"

definition ack_payload :: "agent_message \<Rightarrow> string" where
  "ack_payload m = json_dump (mk_obj
     [(''AcknowledgedMessageType'', VString (am_message_type m)),
      (''AcknowledgedMessageId'', VString (am_message_id m)),
      (''AcknowledgedMessageSequenceNumber'', num_int (am_sequence m)),
      (''IsSequentialMessage'', VBool True)])"

definition send_ack :: "'e env_scheme \<Rightarrow> agent_message \<Rightarrow> ('w chan_world_scheme, string option) state" where
  "send_ack e m = send_control e msg_acknowledge (ack_payload m)"

subsection \<open>Requests and the handshake\<close>

definition no_start_request :: start_request where
  "no_start_request = \<lparr>sq_session_id = [], sq_document_name = [], sq_session_type = [], sq_kms_key_id = [],
     sq_run_as_enabled = False, sq_run_as_user = [], sq_shell_commands = [], sq_error = []\<rparr>"

text \<open>A member that is an object, as \<open>find\<close> followed by \<open>is_obj\<close>.\<close>

definition obj_at :: "json \<Rightarrow> string \<Rightarrow> json option" where
  "obj_at v key = (case find_key v key of Some o1 \<Rightarrow> if is_obj o1 then Some o1 else None | None \<Rightarrow> None)"

definition start_fields :: "json \<Rightarrow> start_request" where
  "start_fields task =
     (let sr = no_start_request\<lparr>sq_session_id := str_of task ''SessionId'',
                 sq_document_name := str_of task ''DocumentName''\<rparr> in
      case obj_at task ''DocumentContent'' of
        None \<Rightarrow> sr
      | Some doc \<Rightarrow>
          let sr = sr\<lparr>sq_session_type := str_of doc ''sessionType''\<rparr> in
          (case obj_at doc ''inputs'' of
             None \<Rightarrow> sr
           | Some inputs \<Rightarrow>
               sr\<lparr>sq_kms_key_id := str_of inputs ''kmsKeyId'',
                  sq_run_as_enabled :=
                    (case find_key inputs ''runAsEnabled'' of None \<Rightarrow> False | Some b \<Rightarrow> bl_or b False),
                  sq_run_as_user := str_of inputs ''runAsDefaultUser'',
                  sq_shell_commands :=
                    (case obj_at inputs ''shellProfile'' of None \<Rightarrow> [] | Some p \<Rightarrow> str_of p ''linux'')\<rparr>))"

definition start_request_of :: "json \<Rightarrow> start_request" where
  "start_request_of task =
     (let sr = start_fields task in
      if sq_session_id sr = [] then sr\<lparr>sq_error := ''interactive_shell payload has no SessionId''\<rparr> else sr)"

definition parse_start_request :: "string \<Rightarrow> start_request" where
  "parse_start_request mgs_payload =
     (case parsed mgs_payload of (envelope, err) \<Rightarrow>
        if err \<noteq> [] \<or> \<not> is_obj envelope
        then no_start_request\<lparr>sq_error := ''interactive_shell payload is not JSON: '' @ err\<rparr>
        else let inner = (if str_of envelope ''content'' \<noteq> [] then str_of envelope ''content''
                          else str_of envelope ''Content'') in
             case parsed inner of (task, err) \<Rightarrow>
               if err \<noteq> [] \<or> \<not> is_obj task
               then no_start_request\<lparr>sq_error := ''interactive_shell Content is not JSON: '' @ err\<rparr>
               else start_request_of task)"

definition build_handshake_request :: "string \<Rightarrow> string \<Rightarrow> json \<Rightarrow> string" where
  "build_handshake_request agent_version session_type properties = json_dump (mk_obj
     [(''AgentVersion'', VString agent_version),
      (''RequestedClientActions'', VArr [mk_obj
         [(''ActionType'', VString ''SessionType''),
          (''ActionParameters'', mk_obj
             [(''SessionType'', VString session_type), (''Properties'', properties)])]])])"

text \<open>\<open>ActionStatus\<close> is 1, or the text \<open>1\<close> or \<open>success\<close>.\<close>

definition action_ok :: "json \<Rightarrow> bool" where
  "action_ok a \<longleftrightarrow>
     (let status = str_of a ''ActionStatus'' in
      status = ''1'' \<or> lower status = ''success'' \<or>
      num_at a ''ActionStatus'' (double_of_int 0) = double_of_int 1)"

text \<open>The error of \<open>handshake_response_ok\<close>, or the client's version.\<close>

definition handshake_response :: "string \<Rightarrow> string + string" where
  "handshake_response response_json =
     (case parsed response_json of (v, jerr) \<Rightarrow>
        if jerr \<noteq> [] \<or> \<not> is_obj v then Inl (''handshake response is not JSON: '' @ jerr)
        else case find_key v ''ProcessedClientActions'' of
          Some (VArr actions) \<Rightarrow>
            (case List.find (\<lambda>a. \<not> action_ok a) actions of
               None \<Rightarrow> Inr (str_of v ''ClientVersion'')
             | Some a \<Rightarrow> Inl (str_of a ''ActionType'' @ '' failed on client: '' @ str_of a ''Error''))
        | _ \<Rightarrow> Inl ''handshake response has no ProcessedClientActions'')"

subsection \<open>The shell on its terminal\<close>

text \<open>The arguments the child passes to \<open>/bin/sh\<close>.\<close>

definition shell_argv :: "string \<Rightarrow> bool \<Rightarrow> string \<Rightarrow> string list" where
  "shell_argv commands run_as user =
     (if run_as \<and> user \<noteq> []
      then [''sh'', ''-c'', ''exec su - '' @ quoted user @
              (if commands \<noteq> [] then '' -c '' @ quoted commands else [])]
      else if commands \<noteq> [] then [''sh'', ''-c'', commands]
      else [''-sh''])"

fun spawn_error :: "pty_spawn \<Rightarrow> string option" where
  "spawn_error (OpenFails t) = Some (''posix_openpt: '' @ t)"
| "spawn_error (GrantFails t) = Some (''grantpt/unlockpt: '' @ t)"
| "spawn_error NoName = Some ''ptsname failed''"
| "spawn_error (ForkFails t) = Some (''fork: '' @ t)"
| "spawn_error Spawned = None"

definition spawn_shell ::
    "'e session_env_scheme \<Rightarrow> string \<Rightarrow> bool \<Rightarrow> string \<Rightarrow> ('w session_world_scheme, string option) state" where
  "spawn_shell e commands run_as user =
     (case spawn_error (e_spawn e) of
        Some t \<Rightarrow> ret (Some t)
      | None \<Rightarrow> do {
          emit (EvPtySpawn (shell_argv commands run_as user));
          modify (\<lambda>w. w\<lparr>pty_reads := e_pty_reads e, pty_writes := e_pty_writes e\<rparr>);
          ret None })"

text \<open>A size is kept in 16 bits.\<close>

definition set_pty_size :: "int \<Rightarrow> int \<Rightarrow> ('w world_scheme, unit) state" where
  "set_pty_size cols rows = emit (EvPtySize (cols mod 2 ^ 16) (rows mod 2 ^ 16))"

text \<open>The loop that writes keystrokes: what was written, whether the terminal still takes input,
  and its remaining answers.\<close>

fun write_input :: "pty_write list \<Rightarrow> string \<Rightarrow> string \<times> bool \<times> pty_write list" where
  "write_input qs [] = ([], True, qs)"
| "write_input [] data = (data, True, [])"
| "write_input (Wrote n # qs) data =
     (if n = 0 then ([], False, qs)
      else case write_input qs (drop n data) of (a, ok, r) \<Rightarrow> (take n data @ a, ok, r))"
| "write_input (WriteAgain # qs) data = write_input qs data"
| "write_input (WriteFail # qs) data = ([], False, qs)"

definition write_keys :: "string \<Rightarrow> ('w session_world_scheme, bool) state" where
  "write_keys data = do {
     qs \<leftarrow> gets pty_writes;
     case write_input qs data of (a, ok, qs') \<Rightarrow> do {
       modify (\<lambda>w. w\<lparr>pty_writes := qs'\<rparr>);
       emit (EvPtyWrite a);
       ret ok } }"

text \<open>Drain the output that is ready: whether something was sent, whether the session goes on.
  A failed send ends the session but not this loop.\<close>

function drain_output ::
    "'e env_scheme \<Rightarrow> bool \<Rightarrow> bool \<Rightarrow> 'w session_world_scheme \<Rightarrow> (bool \<times> bool) \<times> 'w session_world_scheme" where
  "drain_output e sent running w =
     (case read_step pty_read_chunk (pty_reads w) of
        (Data s, rs) \<Rightarrow>
          (case run_state (send_stream e payload_output s) (w\<lparr>pty_reads := rs\<rparr>) of
             (err, w') \<Rightarrow> drain_output e True (running \<and> err = None) w')
      | (Timeout, rs) \<Rightarrow> ((sent, running), w\<lparr>pty_reads := rs\<rparr>)
      | (_, rs) \<Rightarrow> ((sent, False), w\<lparr>pty_reads := rs\<rparr>))"
  by pat_completeness auto

lemma send_stream_frame:
  assumes "run_state (send_stream e pt data) w = (r, w')"
  shows "pty_reads w' = pty_reads w \<and> wc_reads (client w') = wc_reads (client w) \<and>
    wc_read_buf (client w') = wc_read_buf (client w)"
  using assms
  by (auto simp: send_stream_def now_ms_def new_uuid_def random_bytes_def Let_def ws_send_def stream_write_def
      emit_def split: if_splits option.splits)

termination drain_output
  by (relation "measure (\<lambda>(e, sent, running, w). rsize (pty_reads w))")
    (auto simp: pty_read_chunk_def dest!: sym [of "(_, _)" "run_state _ _"] send_stream_frame read_step_less)

declare drain_output.simps [simp del]

subsection \<open>Inbound messages\<close>

text \<open>
  How a step ends: the loop goes on, the session is over, or the exception of \<open>deserialize\<close>
  has left the thread, which ends the process.
\<close>

datatype step_end = Goes_on | Over | Died

definition apply_input :: "agent_message \<Rightarrow> ('w session_world_scheme, step_end) state" where
  "apply_input m =
     (if am_payload_type m = payload_size
      then (case parsed (am_payload m) of (sz, jerr) \<Rightarrow>
        if jerr = []
        then do {
          set_pty_size (double_to_uint32 (num_at sz ''cols'' (double_of_int 80)))
            (double_to_uint32 (num_at sz ''rows'' (double_of_int 24)));
          ret Goes_on }
        else ret Goes_on)
      else if am_payload_type m = payload_output
      then do { ok \<leftarrow> write_keys (am_payload m); ret (if ok then Goes_on else Over) }
      else ret Goes_on)"

text \<open>Acknowledge always, apply only what is next.\<close>

definition ordered_input :: "'e env_scheme \<Rightarrow> agent_message \<Rightarrow> ('w session_world_scheme, step_end) state" where
  "ordered_input e m = do {
     send_ack e m;
     expected \<leftarrow> gets next_expected;
     if am_sequence m \<noteq> expected then ret Goes_on
     else do {
       modify (\<lambda>w. w\<lparr>next_expected := expected + 1\<rparr>);
       apply_input m } }"

definition session_message :: "'e env_scheme \<Rightarrow> agent_message \<Rightarrow> ('w session_world_scheme, step_end) state" where
  "session_message e m = do {
     now \<leftarrow> now_s e;
     modify (\<lambda>w. w\<lparr>last_activity := now\<rparr>);
     if am_message_type m = msg_channel_closed then ret Over
     else if am_message_type m = msg_acknowledge then do { handle_ack m; ret Goes_on }
     else if am_message_type m \<noteq> msg_input_stream_data then do { send_ack e m; ret Goes_on }
     else ordered_input e m }"

text \<open>The body of the main loop.\<close>

definition session_step :: "'e env_scheme \<Rightarrow> ('w session_world_scheme, step_end) state" where
  "session_step e = do {
     alive \<leftarrow> pump_outbox e;
     if \<not> alive then ret Over
     else do {
       now \<leftarrow> now_s e;
       active \<leftarrow> gets last_activity;
       if idle_timeout < now - active then ret Over
       else do {
         d \<leftarrow> State (drain_output e False True);
         if \<not> snd d then ret Over
         else do {
           r \<leftarrow> ws_recv e;
           case r of
             RecvErr _ \<Rightarrow> ret Over
           | RecvNone \<Rightarrow> ret Goes_on
           | RecvFrame _ payload \<Rightarrow>
               (case deserialize payload of
                  Refused _ \<Rightarrow> ret Goes_on
                | Threw_out_of_range \<Rightarrow> ret Died
                | Got m \<Rightarrow> session_message e m) } } } }"

text \<open>A step that goes on has read the terminal until nothing was ready.\<close>

lemma drain_output_shrinks:
  "drain_output e s r w = ((s', True), w') \<Longrightarrow> rsize (pty_reads w') < rsize (pty_reads w)"
proof (induction e s r w rule: drain_output.induct)
  case (1 e s r w)
  obtain x rs where x: "read_step pty_read_chunk (pty_reads w) = (x, rs)" by fastforce
  show ?case
  proof (cases x)
    case (Data d)
    obtain err w1 where w1: "run_state (send_stream e payload_output d) (w\<lparr>pty_reads := rs\<rparr>) = (err, w1)"
      by fastforce
    have "rsize (pty_reads w1) < rsize (pty_reads w)"
      using send_stream_frame [OF w1] read_step_less [of d rs pty_read_chunk "pty_reads w"] x Data
      by (simp add: pty_read_chunk_def)
    moreover have "rsize (pty_reads w') < rsize (pty_reads w1)"
      using "1.IH" [OF x [unfolded Data, symmetric] refl w1 [symmetric]] "1.prems" x Data w1
      by (simp add: drain_output.simps [of e s r w])
    ultimately show ?thesis by simp
  next
    case Timeout
    have "read_step k q = (Timeout, q') \<Longrightarrow> rsize q' < rsize q" for k q q'
      by (induction k q rule: read_step.induct) (auto split: if_splits)
    then show ?thesis using "1.prems" x Timeout by (auto simp: drain_output.simps [of e s r w])
  qed (use "1.prems" x in \<open>auto simp: drain_output.simps [of e s r w]\<close>)
qed

text \<open>The steps after that leave the terminal's output alone.\<close>

lemma keeps_session_message:
  "keeps (\<lambda>w. pty_reads w = x) (session_message e m)"
  unfolding session_message_def ordered_input_def apply_input_def handle_ack_def send_ack_def send_control_def
    set_pty_size_def write_keys_def by (intro keeps_rules) simp_all

lemma keeps_pump_outbox: "keeps (\<lambda>w. pty_reads w = x) (pump_outbox e)"
  unfolding pump_outbox_def by (intro keeps_rules) simp_all

lemma session_step_shrinks:
  assumes "run_state (session_step e) w = (Goes_on, w')"
  shows "rsize (pty_reads w') < rsize (pty_reads w)"
proof -
  obtain alive w1 where w1: "run_state (pump_outbox e) w = (alive, w1)" by fastforce
  have p1: "pty_reads w1 = pty_reads w" using keepsD [OF keeps_pump_outbox [of "pty_reads w" e], of w] w1 by simp
  let ?w2 = "w1\<lparr>at_clock := Suc (at_clock w1)\<rparr>"
  obtain d w3 where w3: "drain_output e False True ?w2 = (d, w3)" by fastforce
  obtain r w4 where w4: "run_state (ws_recv e) w3 = (r, w4)" by fastforce
  have go: "alive" "snd d" using assms w1 w3 by (auto simp: session_step_def run_now_s split: if_splits)
  then have p3: "rsize (pty_reads w3) < rsize (pty_reads w)"
    using drain_output_shrinks [of e False True ?w2 "fst d" w3] w3 p1 by (cases d) simp
  have "keeps (\<lambda>v. pty_reads v = pty_reads w3) (ws_recv e)" by (intro keeps_rules) simp_all
  from keepsD [OF this, of w3] w4 have p4: "pty_reads w4 = pty_reads w3" by simp
  have "w' = w4 \<or> (\<exists>m x. run_state (session_message e m) w4 = (x, w'))"
    using assms w1 w3 w4 go by (auto simp: session_step_def run_now_s split: if_splits recv_result.splits des_result.splits)
  with p3 p4 keeps_run [OF keeps_session_message [of "pty_reads w4" e] refl] show ?thesis by auto
qed


text \<open>\<open>while (running && !stop)\<close>. The result tells whether the process died.\<close>

function session_loop ::
    "'e session_env_scheme \<Rightarrow> 'w session_world_scheme \<Rightarrow> step_end \<times> 'w session_world_scheme" where
  "session_loop e w =
     (case run_state (stopped e) w of (stop, w1) \<Rightarrow>
        if stop then (Over, w1)
        else case run_state (session_step e) w1 of
          (Goes_on, w2) \<Rightarrow> session_loop e w2
        | (x, w2) \<Rightarrow> (x, w2))"
  by pat_completeness auto
termination
  by (relation "measure (\<lambda>(e, w). rsize (pty_reads w))")
    (auto simp: stopped_def dest!: sym [of "(_, _)" "run_state _ _"] session_step_shrinks)

declare session_loop.simps [simp del]

subsection \<open>The handshake\<close>

datatype handshake = Waiting | Shaken int | Given_up | Crashed

definition handshake_message :: "'e env_scheme \<Rightarrow> agent_message \<Rightarrow> ('w session_world_scheme, handshake) state" where
  "handshake_message e m =
     (if am_message_type m = msg_acknowledge then do { handle_ack m; ret Waiting }
      else if am_message_type m = msg_input_stream_data \<and> am_payload_type m = payload_handshake_response
      then do {
        send_ack e m;
        ret (case handshake_response (am_payload m) of Inl _ \<Rightarrow> Given_up | Inr _ \<Rightarrow> Shaken (am_sequence m)) }
      else if am_message_type m = msg_channel_closed then ret Given_up
      else do { send_ack e m; ret Waiting })"

definition handshake_step :: "'e env_scheme \<Rightarrow> int \<Rightarrow> ('w session_world_scheme, handshake) state" where
  "handshake_step e deadline = do {
     now \<leftarrow> now_s e;
     if deadline < now then ret Given_up
     else do {
       alive \<leftarrow> pump_outbox e;
       if \<not> alive then ret Given_up
       else do {
         r \<leftarrow> ws_recv e;
         case r of
           RecvErr _ \<Rightarrow> ret Given_up
         | RecvNone \<Rightarrow> ret Waiting
         | RecvFrame _ payload \<Rightarrow>
             (case deserialize payload of
                Refused _ \<Rightarrow> ret Waiting
              | Threw_out_of_range \<Rightarrow> ret Crashed
              | Got m \<Rightarrow> handshake_message e m) } } }"

text \<open>Every receive that is not an error takes something off the wire.\<close>

definition unread :: "ws_client \<Rightarrow> nat \<times> nat" where
  "unread c = (rsize (wc_reads c), length (wc_read_buf c))"

abbreviation fewer :: "ws_client \<Rightarrow> ws_client \<Rightarrow> bool" where
  "fewer c d \<equiv> (unread c, unread d) \<in> less_than <*lex*> less_than"

lemma ws_recv_loop_step:
  "(\<exists>w2. ws_recv_loop e w = ws_recv_loop e w2 \<and> fewer (client w2) (client w)) \<or>
   (\<exists>t. fst (ws_recv_loop e w) = RecvErr t) \<or> fewer (client (snd (ws_recv_loop e w))) (client w)"
proof -
  note un = ws_recv_loop.simps [of e w]
  show ?thesis
  proof (cases "parse_frame (wc_read_buf (client w))")
    case NeedMore
    obtain r c where r: "stream_read 16384 (client w) = (r, c)" by fastforce
    show ?thesis
    proof (cases r)
      case (Data s)
      then have "ws_recv_loop e w = ws_recv_loop e (w\<lparr>client := c\<lparr>wc_read_buf := wc_read_buf c @ s\<rparr>\<rparr>)"
        using NeedMore r by (simp add: un)
      moreover have "rsize (wc_reads c) < rsize (wc_reads (client w))"
        using stream_read_Data [of 16384 "client w" s c] r Data by simp
      ultimately show ?thesis by (intro disjI1 exI) (auto simp: unread_def)
    next
      case Timeout
      have "read_step k q = (Timeout, q') \<Longrightarrow> rsize q' < rsize q" for k q q'
        by (induction k q rule: read_step.induct) (auto split: if_splits)
      then have "rsize (wc_reads c) < rsize (wc_reads (client w))"
        using r Timeout by (auto simp: stream_read_def split: if_splits prod.splits)
      then show ?thesis using NeedMore r Timeout by (simp add: un unread_def)
    qed (use NeedMore r in \<open>simp_all add: un\<close>)
  next
    case (Frame fin op p rest)
    let ?w = "on_client (\<lambda>c. c\<lparr>wc_read_buf := rest\<rparr>) w"
    have l: "length rest < length (wc_read_buf (client w))" by (rule parse_frame_shrinks [OF Frame])
    obtain x w2 where w2: "run_state (ws_send e op_pong p) ?w = (x, w2)" by fastforce
    have f: "fewer (client w2) (client w)" using ws_send_frame [OF w2] l by (simp add: unread_def)
    note un = un Frame Let_def frame_result.case
    consider (ping) "op = op_ping" | (close) "op = op_close" "op \<noteq> op_ping"
      | (skip) "op \<noteq> op_ping" "op \<noteq> op_close" "op = op_pong \<or> \<not> fin"
      | (whole) "op \<noteq> op_ping" "op \<noteq> op_close" "op \<noteq> op_pong" "fin" by blast
    then show ?thesis
    proof cases
      case ping
      then have "ws_recv_loop e w = ws_recv_loop e w2" by (simp add: un w2)
      with f show ?thesis by blast
    next
      case close
      then show ?thesis by (simp add: un op_defs)
    next
      case skip
      show ?thesis
      proof (rule disjI1, cases "op = op_pong")
        case True
        then show "\<exists>w2. ws_recv_loop e w = ws_recv_loop e w2 \<and> fewer (client w2) (client w)"
          using skip l by (intro exI [of _ ?w]) (simp add: un unread_def)
      next
        case False
        then show "\<exists>w2. ws_recv_loop e w = ws_recv_loop e w2 \<and> fewer (client w2) (client w)"
          using skip l
          by (intro exI [of _ "if op = 0 then on_client (\<lambda>c. c\<lparr>wc_frag_payload := wc_frag_payload c @ p\<rparr>) ?w
              else on_client (\<lambda>c. c\<lparr>wc_frag_opcode := op, wc_frag_payload := p\<rparr>) ?w"]) (simp add: un unread_def)
      qed
    next
      case whole
      then show ?thesis using l by (simp add: un unread_def)
    qed
  qed (simp add: un)
qed

lemma ws_recv_loop_takes:
  "fewer (client (snd (ws_recv_loop e w))) (client w) \<or> (\<exists>t. fst (ws_recv_loop e w) = RecvErr t)"
proof (induction "unread (client w)" arbitrary: w rule: wf_induct_rule [OF wf_lex_prod [OF wf_less_than wf_less_than]])
  case 1
  from ws_recv_loop_step [of e w] show ?case
  proof (elim disjE exE conjE)
    fix w2
    assume "ws_recv_loop e w = ws_recv_loop e w2" and f: "fewer (client w2) (client w)"
    with 1 [OF f] show ?case by (auto intro: trans_lex_prod [THEN transD])
  qed auto
qed

lemma ws_recv_takes:
  "run_state (ws_recv e) w = (r, w') \<Longrightarrow> (\<forall>t. r \<noteq> RecvErr t) \<Longrightarrow> fewer (client w') (client w)"
  using ws_recv_loop_takes [of e w] by (auto simp: ws_recv_def split: if_splits)


lemma keeps_unread_send: "keeps (\<lambda>w. unread (client w) = x) (ws_send e op p)"
  by (auto simp: keeps_def triple_def unread_def split: prod.split dest: ws_send_frame)

lemma keeps_unread_ack: "keeps (\<lambda>w. unread (client w) = x) (send_ack e m)"
  unfolding send_ack_def send_control_def by (intro keeps_rules keeps_unread_send) simp_all

lemma keeps_unread_pump: "keeps (\<lambda>w. unread (client w) = x) (pump_outbox e)"
  unfolding pump_outbox_def by (intro keeps_rules keeps_unread_send) simp_all

lemma keeps_unread_handshake: "keeps (\<lambda>w. unread (client w) = x) (handshake_message e m)"
  unfolding handshake_message_def handle_ack_def by (intro keeps_rules keeps_unread_ack) simp_all

lemma handshake_step_takes:
  assumes "run_state (handshake_step e deadline) w = (Waiting, w')"
  shows "fewer (client w') (client w)"
proof -
  let ?w1 = "w\<lparr>at_clock := Suc (at_clock w)\<rparr>"
  obtain alive w2 where w2: "run_state (pump_outbox e) ?w1 = (alive, w2)" by fastforce
  obtain r w3 where w3: "run_state (ws_recv e) w2 = (r, w3)" by fastforce
  have u2: "unread (client w2) = unread (client w)"
    using keeps_run [OF keeps_unread_pump [of "unread (client ?w1)"] refl w2] by simp
  have r: "\<forall>t. r \<noteq> RecvErr t" "w' = w3 \<or> (\<exists>m x. run_state (handshake_message e m) w3 = (x, w'))"
    using assms w2 w3
    by (auto simp: handshake_step_def run_now_s split: if_splits recv_result.splits des_result.splits)
  have "fewer (client w3) (client w2)" by (rule ws_recv_takes [OF w3 r(1)])
  moreover have "unread (client w') = unread (client w3)"
    using r(2) keeps_run [OF keeps_unread_handshake [of "unread (client w3)"] refl] by blast
  ultimately show ?thesis using u2 by simp
qed

function handshake_loop ::
    "'e session_env_scheme \<Rightarrow> int \<Rightarrow> 'w session_world_scheme \<Rightarrow> handshake \<times> 'w session_world_scheme" where
  "handshake_loop e deadline w =
     (case run_state (stopped e) w of (stop, w1) \<Rightarrow>
        if stop then (Given_up, w1)
        else case run_state (handshake_step e deadline) w1 of
          (Waiting, w2) \<Rightarrow> handshake_loop e deadline w2
        | (x, w2) \<Rightarrow> (x, w2))"
  by pat_completeness auto
termination
proof (relation "inv_image (less_than <*lex*> less_than) (\<lambda>(e, d, w). unread (client w))")
  show "wf (inv_image (less_than <*lex*> less_than) (\<lambda>(e, d, w). unread (client w)))"
    by (intro wf_inv_image wf_lex_prod wf_less_than)
qed (auto simp: stopped_def dest!: sym [of "(_, _)" "run_state _ _"] handshake_step_takes)

declare handshake_loop.simps [simp del]

subsection \<open>A session from start to end\<close>

definition session_state :: "string \<Rightarrow> string \<Rightarrow> string" where
  "session_state st session_id = json_dump (mk_obj
     [(''SchemaVersion'', num_int 1), (''SessionState'', VString st), (''SessionId'', VString session_id)])"

definition open_data_channel :: "string \<Rightarrow> string \<Rightarrow> string \<Rightarrow> string \<Rightarrow> string" where
  "open_data_channel request_id token instance_id client_id = json_dump (mk_obj
     [(''MessageSchemaVersion'', VString ''1.0''), (''RequestId'', VString request_id),
      (''TokenValue'', VString token), (''ClientInstanceId'', VString instance_id),
      (''ClientId'', VString client_id)])"

text \<open>Opening the data channel: true when the handshake can begin.\<close>

definition open_session ::
    "'e env_scheme \<Rightarrow> session_options \<Rightarrow> start_request \<Rightarrow> ('w session_world_scheme, bool) state" where
  "open_session e opts sr = do {
     t \<leftarrow> create_channel e (so_region opts) ''data-channel'' (sq_session_id sr);
     case t of Inl _ \<Rightarrow> ret False | Inr token \<Rightarrow> do {
       c \<leftarrow> provider_get e;
       case c of None \<Rightarrow> ret False | Some creds \<Rightarrow> do {
         let host = mgs_endpoint (so_region opts);
         let path = ''/v1/data-channel/'' @ sq_session_id sr;
         let query = ''role=publish_subscribe'';
         headers \<leftarrow> ws_upgrade_headers e creds (so_region opts) host path query;
         err \<leftarrow> ws_connect e host True (path @ ''?'' @ query) headers;
         if err \<noteq> None then ret False
         else do {
           request_id \<leftarrow> new_uuid e;
           client_id \<leftarrow> new_uuid e;
           err \<leftarrow> ws_send e op_text (open_data_channel request_id token (so_instance_id opts) client_id);
           if err \<noteq> None then ret False
           else do {
             send_control e msg_agent_session_state (session_state ''Connected'' (sq_session_id sr));
             modify (\<lambda>w. w\<lparr>out_seq := 0, outbox := []\<rparr>);
             err \<leftarrow> send_stream e payload_handshake_request
               (build_handshake_request (so_agent_version opts) (sq_session_type sr) (mk_obj []));
             ret (err = None) } } } } }"

text \<open>Kill the shell, report its exit, close.\<close>

definition close_session ::
    "'e session_env_scheme \<Rightarrow> start_request \<Rightarrow> ('w session_world_scheme, unit) state" where
  "close_session e sr = do {
     emit (EvKill (e_pid e));
     send_stream e payload_exit_code
       (show_nat (case e_exit e of None \<Rightarrow> 1 | Some code \<Rightarrow> code));
     send_control e msg_agent_session_state (session_state ''Terminating'' (sq_session_id sr));
     ws_close e }"

definition handshake_complete :: string where
  "handshake_complete = json_dump (mk_obj
     [(''HandshakeTimeToComplete'', num_int 0), (''CustomerMessage'', VString [])])"

text \<open>From the handshake response on.\<close>

definition shell_session ::
    "'e session_env_scheme \<Rightarrow> start_request \<Rightarrow> int \<Rightarrow> ('w session_world_scheme, step_end) state" where
  "shell_session e sr handshake_seq = do {
     send_stream e payload_handshake_complete handshake_complete;
     err \<leftarrow> spawn_shell e (sq_shell_commands sr) (sq_run_as_enabled sr) (sq_run_as_user sr);
     case err of
       Some t \<Rightarrow> do {
         send_stream e payload_stderr (''Failed to start shell: '' @ t @ crlf);
         ret Over }
     | None \<Rightarrow> do {
         modify (\<lambda>w. w\<lparr>next_expected := handshake_seq + 1\<rparr>);
         now \<leftarrow> now_s e;
         modify (\<lambda>w. w\<lparr>last_activity := now\<rparr>);
         x \<leftarrow> State (session_loop e);
         if x = Died then ret Died
         else do { close_session e sr; ret Over } } }"

definition run_session ::
    "'e session_env_scheme \<Rightarrow> session_options \<Rightarrow> start_request \<Rightarrow> ('w session_world_scheme, step_end) state" where
  "run_session e opts sr = do {
     opened \<leftarrow> open_session e opts sr;
     if \<not> opened then ret Over
     else do {
       now \<leftarrow> now_s e;
       h \<leftarrow> State (handshake_loop e (now + 20));
       case h of
         Shaken seq \<Rightarrow> shell_session e sr seq
       | Crashed \<Rightarrow> ret Died
       | _ \<Rightarrow> ret Over } }"

end
