(* ===== verification/Session_Facts.thy ===== *)
theory Session_Facts
  imports Session "HOL-Library.Sublist"
begin

text \<open>
  What a session of \<open>Session\<close> guarantees: its input reaches the terminal exactly once and in
  order, its retransmission buffer holds consecutive sequence numbers throughout, and it ends when its
  client is gone.
\<close>

subsection \<open>Input is applied exactly once, in order\<close>

text \<open>What reached the terminal.\<close>

definition pty_events :: "'w world_scheme \<Rightarrow> event list" where
  "pty_events w =
     filter (\<lambda>ev. case ev of EvPtyWrite _ \<Rightarrow> True | EvPtySize _ _ \<Rightarrow> True | _ \<Rightarrow> False) (trace w)"

text \<open>What one input message is to do there, and which messages are due.\<close>

definition input_events :: "agent_message \<Rightarrow> event list" where
  "input_events m =
     (if am_payload_type m = payload_size
      then (case parsed (am_payload m) of (sz, jerr) \<Rightarrow>
        if jerr = []
        then [EvPtySize (double_to_uint32 (num_at sz ''cols'' (double_of_int 80)) mod 2 ^ 16)
                (double_to_uint32 (num_at sz ''rows'' (double_of_int 24)) mod 2 ^ 16)]
        else [])
      else if am_payload_type m = payload_output then [EvPtyWrite (am_payload m)]
      else [])"

definition is_input :: "agent_message \<Rightarrow> bool" where
  "is_input m \<longleftrightarrow> am_message_type m = msg_input_stream_data"

fun in_order :: "int \<Rightarrow> agent_message list \<Rightarrow> agent_message list" where
  "in_order n [] = []"
| "in_order n (m # ms) =
     (if is_input m \<and> am_sequence m = n then m # in_order (n + 1) ms else in_order n ms)"

text \<open>A session that receives these messages one after the other.\<close>

fun session_messages :: "'e env_scheme \<Rightarrow> agent_message list \<Rightarrow> ('w session_world_scheme, step_end) state" where
  "session_messages e [] = ret Goes_on"
| "session_messages e (m # ms) = do {
     x \<leftarrow> session_message e m;
     if x = Goes_on then session_messages e ms else ret x }"

lemma keeps_send_ack:
  "keeps (\<lambda>w. pty_events w = x \<and> next_expected w = n \<and> pty_writes w = q) (send_ack e m)"
  unfolding send_ack_def send_control_def by (intro keeps_rules) (simp_all add: pty_events_def)

lemma session_message_input:
  assumes "am_message_type m \<noteq> msg_channel_closed" and "pty_writes w = []"
  shows "\<exists>w'. run_state (session_message e m) w = (Goes_on, w') \<and> pty_writes w' = [] \<and>
    (if is_input m \<and> am_sequence m = next_expected w
     then next_expected w' = next_expected w + 1 \<and> pty_events w' = pty_events w @ input_events m
     else next_expected w' = next_expected w \<and> pty_events w' = pty_events w)"
proof -
  let ?w1 = "w\<lparr>at_clock := Suc (at_clock w), last_activity := e_clock e (at_clock w) div 1000\<rparr>"
  obtain x w2 where w2: "run_state (send_ack e m) ?w1 = (x, w2)" by fastforce
  have k: "pty_events w2 = pty_events w" "next_expected w2 = next_expected w" "pty_writes w2 = []"
    using keeps_run [OF keeps_send_ack [of "pty_events ?w1" "next_expected ?w1" "pty_writes ?w1" e m] _ w2] assms(2)
    by (simp_all add: pty_events_def)
  have input: "\<exists>w'. run_state (apply_input m) v = (Goes_on, w') \<and> pty_writes w' = [] \<and>
      next_expected w' = next_expected v \<and> pty_events w' = pty_events v @ input_events m"
    if "pty_writes v = []" for v :: "'a session_world_scheme"
    using that by (cases "am_payload m")
      (auto simp: apply_input_def input_events_def set_pty_size_def emit_def write_keys_def pty_events_def
        split: prod.split)
  show ?thesis
  proof (cases "is_input m")
    case False
    with assms k w2 show ?thesis
      by (auto simp: session_message_def run_now_s is_input_def handle_ack_def pty_events_def)
  next
    case True
    then have n: "am_message_type m = msg_input_stream_data" "am_message_type m \<noteq> msg_acknowledge"
      by (simp_all add: is_input_def msg_type_defs)
    show ?thesis
    proof (cases "am_sequence m = next_expected w")
      case False
      with True n assms k w2 show ?thesis
        by (simp add: session_message_def run_now_s ordered_input_def)
    next
      case seq: True
      let ?w3 = "w2\<lparr>next_expected := next_expected w + 1\<rparr>"
      have "pty_writes ?w3 = []" using k by simp
      from input [OF this] obtain w' where "run_state (apply_input m) ?w3 = (Goes_on, w')" "pty_writes w' = []"
          "next_expected w' = next_expected w + 1" "pty_events w' = pty_events w @ input_events m"
        using k by (auto simp: pty_events_def)
      with True seq n assms k w2 show ?thesis
        by (simp add: session_message_def run_now_s ordered_input_def)
    qed
  qed
qed

lemma session_messages_in_order:
  assumes "\<forall>m \<in> set ms. am_message_type m \<noteq> msg_channel_closed" and "pty_writes w = []"
  shows "\<exists>w'. run_state (session_messages e ms) w = (Goes_on, w') \<and>
    pty_events w' = pty_events w @ concat (map input_events (in_order (next_expected w) ms))"
  using assms
proof (induction ms arbitrary: w)
  case (Cons m ms)
  from session_message_input [of m w e] Cons.prems obtain w1 where
    w1: "run_state (session_message e m) w = (Goes_on, w1)" "pty_writes w1 = []"
      "if is_input m \<and> am_sequence m = next_expected w
       then next_expected w1 = next_expected w + 1 \<and> pty_events w1 = pty_events w @ input_events m
       else next_expected w1 = next_expected w \<and> pty_events w1 = pty_events w" by auto
  from Cons.IH [of w1] Cons.prems w1(2) obtain w2 where
    "run_state (session_messages e ms) w1 = (Goes_on, w2)"
    "pty_events w2 = pty_events w1 @ concat (map input_events (in_order (next_expected w1) ms))" by auto
  with w1 show ?case by (auto split: if_splits)
qed simp

text \<open>The client's stream, numbered from \<open>n\<close>.\<close>

definition numbered :: "int \<Rightarrow> agent_message list \<Rightarrow> bool" where
  "numbered n xs \<longleftrightarrow> (\<forall>x \<in> set xs. is_input x) \<and> map am_sequence xs = [n..n + int (length xs) - 1]"

lemma numbered_Cons: "numbered n (x # xs) \<longleftrightarrow> is_input x \<and> am_sequence x = n \<and> numbered (n + 1) xs"
  by (auto simp: numbered_def upto_rec1 [of n])

lemma numbered_ge: "numbered n xs \<Longrightarrow> x \<in> set xs \<Longrightarrow> n \<le> am_sequence x"
proof -
  assume "numbered n xs" "x \<in> set xs"
  then have "am_sequence x \<in> set [n..n + int (length xs) - 1]" by (metis numbered_def image_eqI set_map)
  then show ?thesis by simp
qed

lemma in_order_stream:
  assumes "numbered n xs" and "subseq xs ms"
    and "\<forall>m \<in> set ms. is_input m \<longrightarrow> m \<in> set xs \<or> am_sequence m < n"
  shows "in_order n ms = xs"
  using assms
proof (induction ms arbitrary: n xs)
  case (Cons m ms)
  show ?case
  proof (cases "is_input m \<and> am_sequence m = n")
    case True
    with Cons.prems(3) have "m \<in> set xs" by auto
    then obtain x ys where xs: "xs = x # ys" by (cases xs) auto
    have x: "m = x" using \<open>m \<in> set xs\<close> True Cons.prems(1) numbered_ge [of "n + 1" ys m]
      by (auto simp: xs numbered_Cons)
    have "in_order (n + 1) ms = ys"
      using Cons.prems by (intro Cons.IH) (auto simp: xs x numbered_Cons)
    with True show ?thesis by (simp add: xs x)
  next
    case False
    have "subseq xs ms"
    proof (cases xs)
      case (Cons x ys)
      with Cons.prems(1) False have "x \<noteq> m" by (auto simp: numbered_Cons)
      with Cons.prems(2) show ?thesis by (simp add: Cons)
    qed simp
    with Cons.IH [of n xs] Cons.prems False show ?thesis by auto
  qed
qed (auto dest: list_emb_Nil2)



definition sample_session_world :: session_world where
  "sample_session_world = chan_world.extend (sample_chan_world new_client)
     \<lparr>at_stop = 0, out_seq = 0, outbox = [], pty_reads = [], pty_writes = [], next_expected = 0,
      last_activity = 0\<rparr>"

definition key_message :: "int \<Rightarrow> string \<Rightarrow> agent_message" where
  "key_message n s = \<lparr>am_message_type = msg_input_stream_data, am_schema_version = 1, am_created_ms = 0,
     am_sequence = n, am_flags = 0, am_message_id = [], am_payload_type = payload_output, am_payload = s\<rparr>"


subsection \<open>The buffer of the session\<close>

text \<open>The waiting frames have the latest consecutive sequence numbers.\<close>

definition outbox_wf :: "'w session_world_scheme \<Rightarrow> bool" where
  "outbox_wf w \<longleftrightarrow> 0 \<le> out_seq w \<and> length (outbox w) \<le> max_buffered \<and>
     (\<exists>k \<le> out_seq w. 0 \<le> k \<and> map oe_seq (outbox w) = [k..out_seq w - 1])"

lemma outbox_wf_add:
  assumes "outbox_wf w"
  shows "outbox_wf (w\<lparr>out_seq := out_seq w + 1, outbox := outbox_add (out_seq w) f t (outbox w)\<rparr>)"
proof -
  from assms obtain k where k: "k \<le> out_seq w" "0 \<le> k" "map oe_seq (outbox w) = [k..out_seq w - 1]"
      "length (outbox w) \<le> max_buffered" "0 \<le> out_seq w" by (auto simp: outbox_wf_def)
  show ?thesis
  proof (cases "max_buffered \<le> length (outbox w)")
    case True
    have m: "0 < max_buffered" by (simp add: max_buffered_def)
    with True have "outbox w \<noteq> []" by auto
    with k(3) have "k < out_seq w" by (cases "outbox w") (auto simp: upto.simps [of k] split: if_splits)
    then have "map oe_seq (tl (outbox w)) = [k + 1..out_seq w - 1]" using k(3) by (simp add: map_tl upto_rec1)
    with \<open>k < out_seq w\<close> True k m show ?thesis
      by (auto simp: outbox_wf_def outbox_add_def upto_rec2 [of "k + 1" "out_seq w"] intro!: exI [of _ "k + 1"])
  next
    case False
    with k show ?thesis
      by (auto simp: outbox_wf_def outbox_add_def upto_rec2 [of k "out_seq w"] intro!: exI [of _ k])
  qed
qed

lemma outbox_wf_ack:
  assumes "outbox_wf w"
  shows "outbox_wf (w\<lparr>outbox := outbox_ack q (outbox w)\<rparr>)"
proof -
  have seqs: "map oe_seq buf = [k..n - 1] \<Longrightarrow> k \<le> n \<Longrightarrow> 0 \<le> k \<Longrightarrow>
      \<exists>k' \<le> n. 0 \<le> k' \<and> map oe_seq (outbox_ack q buf) = [k'..n - 1]" for buf k n
  proof (induction buf arbitrary: k)
    case (Cons a buf)
    then have "k \<le> n - 1" "oe_seq a = k" "map oe_seq buf = [k + 1..n - 1]"
      by (auto simp: upto.simps [of k] split: if_splits)
    with Cons.IH [of "k + 1"] Cons.prems show ?case
      by (cases "oe_seq a \<le> q") (auto intro: exI [of _ k])
  qed auto
  have len: "length (outbox_ack q buf) \<le> length buf" for buf
    by (induction buf) auto
  from assms obtain k where "k \<le> out_seq w" "0 \<le> k" "map oe_seq (outbox w) = [k..out_seq w - 1]"
      "length (outbox w) \<le> max_buffered" "0 \<le> out_seq w" by (auto simp: outbox_wf_def)
  with seqs [of "outbox w" k "out_seq w"] order_trans [OF len [of "outbox w"]] show ?thesis
    by (simp add: outbox_wf_def)
qed

lemma outbox_wf_resend:
  assumes "outbox_wf w" and "due_resend t (outbox w) = (f, dead, buf)"
  shows "outbox_wf (w\<lparr>outbox := buf\<rparr>)"
proof -
  have "due_resend t b = (f, dead, b') \<Longrightarrow> map oe_seq b' = map oe_seq b" for b b'
    by (cases b) (auto split: if_splits)
  from this [OF assms(2)] have m: "map oe_seq buf = map oe_seq (outbox w)" .
  moreover have "length buf = length (outbox w)" using m by (rule map_eq_imp_length_eq)
  ultimately show ?thesis using assms(1) by (simp add: outbox_wf_def)
qed


lemma outbox_wf_other [simp]:
  "outbox_wf (w\<lparr>at_clock := a\<rparr>) = outbox_wf w" "outbox_wf (w\<lparr>at_random := b\<rparr>) = outbox_wf w"
  "outbox_wf (w\<lparr>at_peer := c\<rparr>) = outbox_wf w" "outbox_wf (w\<lparr>trace := t\<rparr>) = outbox_wf w"
  "outbox_wf (w\<lparr>imds_token := d\<rparr>) = outbox_wf w" "outbox_wf (w\<lparr>imds_expires := f\<rparr>) = outbox_wf w"
  "outbox_wf (w\<lparr>cached := g\<rparr>) = outbox_wf w"
  "outbox_wf (w\<lparr>client := h\<rparr>) = outbox_wf w" "outbox_wf (w\<lparr>at_stop := i\<rparr>) = outbox_wf w"
  "outbox_wf (w\<lparr>pty_reads := j\<rparr>) = outbox_wf w" "outbox_wf (w\<lparr>pty_writes := k\<rparr>) = outbox_wf w"
  "outbox_wf (w\<lparr>next_expected := l\<rparr>) = outbox_wf w" "outbox_wf (w\<lparr>last_activity := m\<rparr>) = outbox_wf w"
  "outbox_wf (w\<lparr>out_seq := 0, outbox := []\<rparr>)"
  by (auto simp: outbox_wf_def intro: exI [of _ 0])

lemma wf_send_stream: "keeps outbox_wf (send_stream e pt data)"
proof -
  have "outbox_wf w' " if "run_state (send_stream e pt data) w = (r, w')" and w: "outbox_wf w" for w r w'
  proof -
    let ?w1 = "w\<lparr>at_clock := Suc (at_clock w)\<rparr>"
    obtain u w2 where w2: "run_state (new_uuid e) ?w1 = (u, w2)" by fastforce
    have "outbox_wf w2 \<and> out_seq w2 = out_seq w"
      by (rule keeps_run [OF _ _ w2, where I = "\<lambda>v. outbox_wf v \<and> out_seq v = out_seq w"])
        (use w in \<open>auto intro!: keeps_new_uuid\<close>)
    then have k: "outbox_wf w2" "out_seq w2 = out_seq w" by simp_all
    let ?f = "serialize (e_sha256 e) (stream_message pt data (out_seq w) (e_clock e (at_clock w)) u)"
    let ?w3 = "w2\<lparr>out_seq := out_seq w + 1, at_clock := Suc (at_clock w2),
      outbox := outbox_add (out_seq w) ?f (e_clock e (at_clock w2)) (outbox w2)\<rparr>"
    have "outbox_wf ?w3"
      using outbox_wf_add [OF k(1), of ?f "e_clock e (at_clock w2)"] k(2) by (simp add: outbox_wf_def)
    moreover have "run_state (ws_send e op_binary ?f) ?w3 = (r, w')"
      using that(1) w2 by (simp add: send_stream_def now_ms_def Let_def)
    ultimately show ?thesis
      by (rule keeps_run [OF keeps_ws_send, rotated 3]) simp_all
  qed
  then show ?thesis by (auto simp: keeps_def triple_def split: prod.split)
qed


lemma wf_handle_ack: "keeps outbox_wf (handle_ack m)"
  unfolding handle_ack_def by (intro keeps_rules) (auto split: option.split intro: outbox_wf_ack)

lemma wf_send_control: "keeps outbox_wf (send_control e t p)"
  unfolding send_control_def by (intro keeps_rules) simp_all

lemma wf_pump_outbox: "keeps outbox_wf (pump_outbox e)"
proof -
  have "outbox_wf w'" if "run_state (pump_outbox e) w = (r, w')" and w: "outbox_wf w" for w r w'
  proof -
    obtain f dead buf where d: "due_resend (e_clock e (at_clock w)) (outbox w) = (f, dead, buf)"
      using prod_cases3 by blast
    have i: "outbox_wf (w\<lparr>at_clock := Suc (at_clock w), outbox := buf\<rparr>)"
      using outbox_wf_resend [OF w d] by (simp add: outbox_wf_def)
    have k: "keeps outbox_wf (ws_send e op_binary g)" for g
      by (intro keeps_rules) simp_all
    from i that(1) d show ?thesis
      by (auto simp: pump_outbox_def now_ms_def split: if_splits option.splits prod.splits
          dest: keeps_run [OF k i])
  qed
  then show ?thesis by (auto simp: keeps_def triple_def split: prod.split)
qed

lemmas wf_rules = wf_send_stream wf_handle_ack wf_send_control wf_pump_outbox

lemma wf_session_message: "keeps outbox_wf (session_message e m)"
  unfolding session_message_def ordered_input_def apply_input_def send_ack_def set_pty_size_def write_keys_def
  by (intro keeps_rules wf_rules; simp)

lemma wf_handshake_message: "keeps outbox_wf (handshake_message e m)"
  unfolding handshake_message_def send_ack_def by (intro keeps_rules wf_rules; simp)

lemma wf_drain_output: "outbox_wf w \<Longrightarrow> outbox_wf (snd (drain_output e s r w))"
proof (induction e s r w rule: drain_output.induct)
  case (1 e s r w)
  obtain x rs where x: "read_step pty_read_chunk (pty_reads w) = (x, rs)" by fastforce
  show ?case
  proof (cases x)
    case (Data d)
    obtain err w1 where w1: "run_state (send_stream e payload_output d) (w\<lparr>pty_reads := rs\<rparr>) = (err, w1)"
      by fastforce
    have "outbox_wf w1" by (rule keeps_run [OF wf_send_stream _ w1]) (use "1.prems" in simp)
    from "1.IH" [OF x [unfolded Data, symmetric] refl w1 [symmetric] this] x Data w1 show ?thesis
      by (simp add: drain_output.simps [of e s r w])
  qed (use "1.prems" x in \<open>simp_all add: drain_output.simps [of e s r w]\<close>)
qed

lemma keeps_case_handshake [keeps_rules]:
  "keeps I a \<Longrightarrow> (\<And>n. keeps I (f n)) \<Longrightarrow> keeps I b \<Longrightarrow> keeps I c \<Longrightarrow>
   keeps I (case x of Waiting \<Rightarrow> a | Shaken n \<Rightarrow> f n | Given_up \<Rightarrow> b | Crashed \<Rightarrow> c)"
  by (cases x) simp_all

lemma wf_session_step: "keeps outbox_wf (session_step e)"
  unfolding session_step_def
  by (intro keeps_rules wf_rules keeps_loop wf_drain_output wf_session_message; simp)

lemma wf_handshake_step: "keeps outbox_wf (handshake_step e deadline)"
  unfolding handshake_step_def
  by (intro keeps_rules wf_rules wf_handshake_message; simp)

lemma wf_session_loop: "outbox_wf w \<Longrightarrow> outbox_wf (snd (session_loop e w))"
proof (induction e w rule: session_loop.induct)
  case (1 e w)
  let ?w1 = "w\<lparr>at_stop := Suc (at_stop w)\<rparr>"
  obtain x w2 where w2: "run_state (session_step e) ?w1 = (x, w2)" by fastforce
  have i: "outbox_wf ?w1" using "1.prems" by simp
  then have i2: "outbox_wf w2" by (rule keeps_run [OF wf_session_step _ w2])
  show ?case
  proof (cases "e_stop e (at_stop w)")
    case True
    with i show ?thesis by (simp add: session_loop.simps [of e w] stopped_def)
  next
    case False
    with "1.IH" [of _ ?w1 x w2] w2 i2 show ?thesis
      by (cases x) (simp_all add: session_loop.simps [of e w] stopped_def)
  qed
qed

lemma wf_handshake_loop: "outbox_wf w \<Longrightarrow> outbox_wf (snd (handshake_loop e deadline w))"
proof (induction e deadline w rule: handshake_loop.induct)
  case (1 e deadline w)
  let ?w1 = "w\<lparr>at_stop := Suc (at_stop w)\<rparr>"
  obtain x w2 where w2: "run_state (handshake_step e deadline) ?w1 = (x, w2)" by fastforce
  have i: "outbox_wf ?w1" using "1.prems" by simp
  then have i2: "outbox_wf w2" by (rule keeps_run [OF wf_handshake_step _ w2])
  show ?case
  proof (cases "e_stop e (at_stop w)")
    case True
    with i show ?thesis by (simp add: handshake_loop.simps [of e _ w] stopped_def)
  next
    case False
    with "1.IH" [of _ ?w1 x w2] w2 i2 show ?thesis
      by (cases x) (simp_all add: handshake_loop.simps [of e _ w] stopped_def)
  qed
qed

lemma wf_run_session: "keeps outbox_wf (run_session e opts sr)"
  unfolding run_session_def open_session_def shell_session_def close_session_def spawn_shell_def
    ws_upgrade_headers_def Let_def
  by (intro keeps_rules wf_rules keeps_loop wf_session_loop wf_handshake_loop; simp)

text \<open>
  C6: through a whole session, however it goes, the frames that wait for an acknowledgement have
  consecutive sequence numbers that end with the last one given out, and are at most 8192.
\<close>

theorem session_outbox_consecutive:
  assumes "outbox_wf w" and "run_state (run_session e opts sr) w = (x, w')"
  shows "length (outbox w') \<le> 8192 \<and>
    (\<exists>k. 0 \<le> k \<and> k \<le> out_seq w' \<and> map oe_seq (outbox w') = [k..out_seq w' - 1])"
  using keeps_run [OF wf_run_session assms] by (auto simp: outbox_wf_def max_buffered_def)


definition sample_session_env :: session_env where
  "sample_session_env = env.extend sample_env
     \<lparr>e_stop = (\<lambda>i. False), e_spawn = Spawned, e_pid = 7, e_pty_reads = [], e_pty_writes = [], e_exit = Some 0\<rparr>"

definition sample_options :: session_options where
  "sample_options = \<lparr>so_region = ''us-east-1'', so_instance_id = ''i-1'', so_agent_version = ''0.4.0''\<rparr>"

theorem session_outbox_consecutive_witness:
  "\<exists>x w'. run_state (run_session sample_session_env sample_options no_start_request) sample_session_world = (x, w') \<and>
     length (outbox w') \<le> 8192"
proof -
  have "outbox_wf sample_session_world"
    by (auto simp: outbox_wf_def sample_session_world_def chan_world.defs sample_chan_world_def intro: exI [of _ 0])
  moreover obtain x w' where
    "run_state (run_session sample_session_env sample_options no_start_request) sample_session_world = (x, w')" by fastforce
  ultimately show ?thesis using session_outbox_consecutive by blast
qed

subsection \<open>Sessions end\<close>

text \<open>
  C26: an iteration of the session loop only goes on when the client was heard within the last twenty
  minutes and the oldest unacknowledged frame has not been sent 240 times again; otherwise the
  session is over before the terminal or the channel is read.
\<close>

theorem session_reaped:
  assumes "idle_timeout < e_clock e (Suc (at_clock w)) div 1000 - last_activity w \<or>
    (\<exists>f fs. outbox w = f # fs \<and> resend_interval \<le> e_clock e (at_clock w) - oe_last_sent f \<and> max_resends \<le> oe_resends f)"
  shows "\<exists>w'. run_state (session_step e) w = (Over, w') \<and> pty_reads w' = pty_reads w \<and>
    unread (client w') = unread (client w)"
proof -
  obtain alive w1 where w1: "run_state (pump_outbox e) w = (alive, w1)" by fastforce
  have "keeps (\<lambda>v. at_clock v = Suc (at_clock w) \<and> last_activity v = last_activity w) (ws_send e op_binary f)" for f
    by (intro keeps_rules) simp_all
  note k = keeps_run [OF this]
  have "at_clock w1 = Suc (at_clock w) \<and> last_activity w1 = last_activity w"
    using w1 by (auto simp: pump_outbox_def now_ms_def split: prod.splits if_splits option.splits dest: k [rotated])
  moreover have "pty_reads w1 = pty_reads w" by (rule keeps_run [OF keeps_pump_outbox refl w1])
  moreover have "unread (client w1) = unread (client w)" by (rule keeps_run [OF keeps_unread_pump refl w1])
  moreover have "\<not> alive" if "outbox w = f # fs" "resend_interval \<le> e_clock e (at_clock w) - oe_last_sent f"
      "max_resends \<le> oe_resends f" for f fs
    using w1 that by (auto simp: pump_outbox_def now_ms_def)
  ultimately show ?thesis using assms w1 by (auto simp: session_step_def run_now_s)
qed

theorem session_reaped_witness:
  "\<exists>w'. run_state (session_step sample_env) sample_session_world = (Over, w') \<and>
     pty_reads w' = [] \<and> unread (client w') = (0, 0)"
proof -
  have "idle_timeout < e_clock sample_env (Suc (at_clock sample_session_world)) div 1000 - last_activity sample_session_world"
    by (simp add: idle_timeout_def sample_env_def sample_session_world_def chan_world.defs sample_chan_world_def)
  from session_reaped [OF disjI1 [OF this]] show ?thesis
    by (simp add: sample_session_world_def chan_world.defs sample_chan_world_def unread_def new_client_def)
qed

end
