(* ===== verification/Dedup.thy ===== *)
theory Dedup
  imports Prelude
begin

text \<open>
  Redelivery: both services deliver a message again until it is acknowledged, so the agent keeps
  the identifiers it has acted on. \<open>SeenCommands\<close> of \<open>src/src/main.cpp\<close> keeps the
  latest 512, in a set and in a queue; the control channel of \<open>src/src/session.cpp\<close> keeps a
  set for as long as it is open.

  The locale \<open>dedup\<close> is what a client of either relies on; it is extended for a memory that
  never forgets and for one that keeps the latest. In each, the identifiers a client acts on are
  compared with the deliveries.
\<close>

subsection \<open>The interface\<close>

locale dedup =
  fixes empty :: 's
    and seen :: "'s \<Rightarrow> 'k \<Rightarrow> bool"
    and add :: "'k \<Rightarrow> 's \<Rightarrow> 's"
    and ok :: "'s \<Rightarrow> bool"
  assumes ok_empty: "ok empty"
    and seen_empty: "\<not> seen empty k"
    and ok_add: "ok s \<Longrightarrow> ok (add k s)"
    and seen_add: "ok s \<Longrightarrow> seen (add k s) k"
    and seen_add_only: "ok s \<Longrightarrow> seen (add k s) j \<Longrightarrow> j = k \<or> seen s j"
begin

text \<open>Act on a delivery unless its identifier has been seen.\<close>

definition step :: "'k \<Rightarrow> 's \<times> 'k list \<Rightarrow> 's \<times> 'k list" where
  "step k s = (if seen (fst s) k then s else (add k (fst s), snd s @ [k]))"

definition run :: "'k list \<Rightarrow> 's \<times> 'k list" where
  "run ks = fold step ks (empty, [])"

definition acted :: "'k list \<Rightarrow> 'k list" where
  "acted ks = snd (run ks)"

lemma run_snoc: "run (ks @ [k]) = step k (run ks)"
  by (simp add: run_def)

lemma run_ok: "ok (fst (run ks))"
  by (induction ks rule: rev_induct) (auto simp: run_snoc step_def ok_add ok_empty run_def)

lemma seen_acted: "seen (fst (run ks)) k \<Longrightarrow> k \<in> set (snd (run ks))"
  using run_ok
  by (induction ks rule: rev_induct)
    (auto simp: run_snoc step_def run_def [of "[]"] seen_empty dest: seen_add_only split: if_splits)

text \<open>Nothing is lost: what is delivered is acted on, and nothing else.\<close>

lemma acted_all: "set (acted ks) = set ks"
  by (induction ks rule: rev_induct)
    (auto simp: acted_def run_snoc step_def run_def [of "[]"] dest: seen_acted)

end

locale dedup_forever = dedup +
  assumes never_forgets: "ok s \<Longrightarrow> seen s j \<Longrightarrow> seen (add k s) j"
begin

lemma acted_seen: "k \<in> set (snd (run ks)) \<Longrightarrow> seen (fst (run ks)) k"
  using run_ok
  by (induction ks rule: rev_induct)
    (auto simp: run_snoc step_def run_def [of "[]"] seen_add never_forgets split: if_splits)

lemma acted_once: "distinct (acted ks)"
  by (induction ks rule: rev_induct)
    (auto simp: acted_def run_snoc step_def run_def [of "[]"] dest: acted_seen)

end

locale dedup_window = dedup empty seen add ok
  for empty :: 's and seen :: "'s \<Rightarrow> 'k \<Rightarrow> bool" and add :: "'k \<Rightarrow> 's \<Rightarrow> 's" and ok :: "'s \<Rightarrow> bool" +
  fixes capacity :: nat
    and order :: "'s \<Rightarrow> 'k list"
  assumes seen_order: "ok s \<Longrightarrow> seen s k \<longleftrightarrow> k \<in> set (order s)"
    and order_empty: "order empty = []"
    and order_add: "ok s \<Longrightarrow> \<not> seen s k \<Longrightarrow>
      order (add k s) = drop (Suc (length (order s)) - capacity) (order s @ [k])"
begin

lemma order_acted: "order (fst (run ks)) = drop (length (acted ks) - capacity) (acted ks)"
proof (induction ks rule: rev_induct)
  case Nil
  then show ?case by (simp add: run_def acted_def order_empty)
next
  case (snoc k ks)
  show ?case
  proof (cases "seen (fst (run ks)) k")
    case True
    with snoc show ?thesis by (simp add: run_snoc step_def acted_def)
  next
    case False
    note a = snoc order_add [OF run_ok False] False
    show ?thesis
    proof (cases "length (acted ks) \<le> capacity")
      case True
      with a show ?thesis by (simp add: run_snoc step_def acted_def)
    next
      case F: False
      then have "Suc (length (acted ks)) - (length (acted ks) - (length (acted ks) - capacity)) = 
          Suc (length (acted ks) - capacity)" by simp
      with a F show ?thesis by (simp add: run_snoc step_def acted_def)
    qed
  qed
qed

text \<open>Among any \<open>capacity\<close> successive actions, and one more, no two are for the same identifier.\<close>

lemma acted_window: "distinct (take (Suc capacity) (drop i (acted ks)))"
proof (induction ks arbitrary: i rule: rev_induct)
  case Nil
  then show ?case by (simp add: acted_def run_def)
next
  case (snoc k ks)
  show ?case
  proof (cases "seen (fst (run ks)) k")
    case True
    with snoc show ?thesis by (simp add: run_snoc step_def acted_def)
  next
    case False
    let ?a = "acted ks"
    have a: "acted (ks @ [k]) = ?a @ [k]" using False by (simp add: run_snoc step_def acted_def)
    have k: "k \<notin> set (drop (length ?a - capacity) ?a)"
      using False seen_order [OF run_ok] by (simp add: order_acted)
    show ?thesis
    proof (cases "length ?a - i < Suc capacity \<and> i \<le> length ?a")
      case True
      then have "set (drop i ?a) \<subseteq> set (drop (length ?a - capacity) ?a)"
        by (intro set_drop_subset_set_drop) linarith
      with k have "k \<notin> set (drop i ?a)" by blast
      moreover have "distinct (drop i ?a)" using snoc [of i] True by simp
      ultimately show ?thesis using True
        by (auto simp: a dest: in_set_takeD)
    next
      case False
      then show ?thesis using snoc [of i] by (auto simp: a)
    qed
  qed
qed

end

subsection \<open>The set of the control channel\<close>

interpretation seen_sessions: dedup_forever "{} :: string set" "\<lambda>s k. k \<in> s" insert "\<lambda>_. True"
  by unfold_locales auto

subsection \<open>SeenCommands\<close>

definition dedup_history :: nat where "dedup_history = 512"

record seen_commands =
  sc_set :: "string set"
  sc_order :: "string list"

definition no_commands :: seen_commands where
  "no_commands = \<lparr>sc_set = {}, sc_order = []\<rparr>"

definition seen_command :: "seen_commands \<Rightarrow> string \<Rightarrow> bool" where
  "seen_command s k \<longleftrightarrow> k \<in> sc_set s"

definition add_command :: "string \<Rightarrow> seen_commands \<Rightarrow> seen_commands" where
  "add_command k s =
     (if k \<in> sc_set s then s
      else let s = \<lparr>sc_set = insert k (sc_set s), sc_order = sc_order s @ [k]\<rparr> in
           if dedup_history < length (sc_order s)
           then \<lparr>sc_set = sc_set s - {hd (sc_order s)}, sc_order = tl (sc_order s)\<rparr>
           else s)"

text \<open>The invariant: the set holds what is in the queue, each once, and at most 512 of them.\<close>

definition commands_ok :: "seen_commands \<Rightarrow> bool" where
  "commands_ok s \<longleftrightarrow>
     sc_set s = set (sc_order s) \<and> distinct (sc_order s) \<and> length (sc_order s) \<le> dedup_history"

lemma add_command_ok: "commands_ok s \<Longrightarrow> commands_ok (add_command k s)"
  by (cases "sc_order s") (auto simp: commands_ok_def add_command_def Let_def dedup_history_def)

interpretation seen_commands: dedup_window no_commands seen_command add_command commands_ok
    dedup_history sc_order
proof
  show "commands_ok no_commands" by (simp add: commands_ok_def no_commands_def)
  show "\<not> seen_command no_commands k" for k by (simp add: seen_command_def no_commands_def)
  show "sc_order no_commands = []" by (simp add: no_commands_def)
  fix s k j
  assume ok: "commands_ok s"
  then show "commands_ok (add_command k s)" by (rule add_command_ok)
  show "seen_command s k \<longleftrightarrow> k \<in> set (sc_order s)"
    using ok by (simp add: seen_command_def commands_ok_def)
  show "seen_command (add_command k s) j \<Longrightarrow> j = k \<or> seen_command s j"
    by (auto simp: seen_command_def add_command_def Let_def split: if_splits)
  show "seen_command (add_command k s) k"
  proof (cases "sc_order s")
    case (Cons a as)
    with ok have "k \<notin> sc_set s \<Longrightarrow> k \<noteq> a" by (auto simp: commands_ok_def)
    with Cons show ?thesis by (auto simp: seen_command_def add_command_def Let_def)
  qed (auto simp: seen_command_def add_command_def Let_def dedup_history_def)
  assume "\<not> seen_command s k"
  with ok have k: "k \<notin> sc_set s" and l: "length (sc_order s) \<le> dedup_history"
    by (simp_all add: seen_command_def commands_ok_def)
  show "sc_order (add_command k s) = drop (Suc (length (sc_order s)) - dedup_history) (sc_order s @ [k])"
  proof (cases "length (sc_order s) = dedup_history")
    case True
    with k show ?thesis by (simp add: add_command_def Let_def drop_Suc del: drop_append)
  next
    case False
    with k l show ?thesis by (simp add: add_command_def Let_def)
  qed
qed

end
