(* ===== verification/Agent.thy ===== *)
theory Agent
  imports Runner S3 Patch Dedup Session
begin

text \<open>
  The agent of \<open>src/src/main.cpp\<close> (struct \<open>Agent\<close>): Run Command over the message
  delivery service. One poll takes the waiting messages; a send-command starts a worker thread, a
  cancel-command reaches it through \<open>InFlight\<close>.

  \<open>ag_jobs\<close> are the workers that have been started and have not finished, each with what its
  closure holds. \<open>ag_marked\<close> and \<open>ag_started\<close> are history: the commands entered in
  \<open>SeenCommands\<close> and those for which a worker was started. The poll loop and the workers meet in
  the registry of running commands and in the credential cache only; \<open>agent_step\<close> lets them take
  turns in any order.

  \<open>Agent_Facts\<close> and \<open>Agent_Order\<close> show the order of the replies, that no command is started
  twice within the window of \<open>SeenCommands\<close>, and that the registry counts exactly the running
  workers.
\<close>

subsection \<open>State\<close>

text \<open>A token is a number; \<open>if_requested\<close> are the tokens whose \<open>request()\<close> was called.\<close>

record in_flight =
  if_map :: "(string, nat) smap"
  if_count :: int
  if_next :: nat
  if_requested :: "nat list"

record job =
  jb_message_id :: string
  jb_command_id :: string
  jb_document :: json
  jb_parameters :: json
  jb_s3_bucket :: string
  jb_s3_prefix :: string
  jb_document_name :: string
  jb_token :: nat

record agent_world = aws_world +
  ag_id :: identity
  ag_info :: agent_info
  ag_seen :: seen_commands
  ag_inflight :: in_flight
  ag_jobs :: "job list"
  ag_stop :: nat
  ag_marked :: "string list"
  ag_started :: "string list"

definition s3_capture_bytes :: nat where "s3_capture_bytes = 8 * 1024 * 1024"
definition poll_http_timeout :: int where "poll_http_timeout = 25000"
definition agent_name :: string where "agent_name = ''haiku-mgmt-agent''"
definition agent_version :: string where "agent_version = ''0.4.0''"

subsection \<open>The registry of running commands\<close>

definition no_flights :: in_flight where
  "no_flights = \<lparr>if_map = [], if_count = 0, if_next = 0, if_requested = []\<rparr>"

definition flight_add :: "string \<Rightarrow> in_flight \<Rightarrow> nat \<times> in_flight" where
  "flight_add command_id f =
     (if_next f, f\<lparr>if_map := smap_put command_id (if_next f) (if_map f), if_count := if_count f + 1,
                    if_next := Suc (if_next f)\<rparr>)"

definition flight_done :: "string \<Rightarrow> in_flight \<Rightarrow> in_flight" where
  "flight_done command_id f = f\<lparr>if_map := smap_del command_id (if_map f), if_count := if_count f - 1\<rparr>"

definition flight_cancel :: "string \<Rightarrow> in_flight \<Rightarrow> bool \<times> in_flight" where
  "flight_cancel command_id f =
     (case map_of (if_map f) command_id of
        None \<Rightarrow> (False, f)
      | Some token \<Rightarrow> (True, f\<lparr>if_requested := token # if_requested f\<rparr>))"

definition flight_cancel_all :: "in_flight \<Rightarrow> in_flight" where
  "flight_cancel_all f = f\<lparr>if_requested := map snd (if_map f) @ if_requested f\<rparr>"

text \<open>The condition \<open>drain\<close> waits for.\<close>

definition flight_drained :: "in_flight \<Rightarrow> bool" where
  "flight_drained f \<longleftrightarrow> if_count f = 0"

subsection \<open>Replies\<close>

definition command_id_from :: "string \<Rightarrow> string" where
  "command_id_from message_id =
     (let parts = split message_id CHR ''.'' in
      if length parts < 2 then message_id else parts ! (length parts - 2))"

definition auth_expired :: "response \<Rightarrow> bool" where
  "auth_expired resp \<longleftrightarrow> resp_status resp \<in> {403, 400} \<and>
     (find_sub ''ExpiredToken'' (resp_body resp) \<noteq> None \<or> find_sub ''InvalidSignature'' (resp_body resp) \<noteq> None \<or>
      find_sub ''InvalidClientTokenId'' (resp_body resp) \<noteq> None)"

definition check_auth_failure :: "response \<Rightarrow> ('w aws_world_scheme, bool) state" where
  "check_auth_failure resp =
     (if resp_ok resp then ret False
      else if auth_expired resp then do { provider_invalidate; ret True }
      else ret True)"

definition agent_reply ::
    "'e env_scheme \<Rightarrow> string \<Rightarrow> string \<Rightarrow> ('w agent_world_scheme, bool) state" where
  "agent_reply e message_id payload = do {
     c \<leftarrow> provider_get e;
     case c of
       None \<Rightarrow> ret False
     | Some creds \<Rightarrow> do {
         i \<leftarrow> gets ag_id;
         r \<leftarrow> send_reply e (id_region i) creds message_id payload;
         if \<not> resp_ok r then do { check_auth_failure r; ret False } else ret True } }"

text \<open>A reply without steps: the payload is built before the credentials are asked for.\<close>

definition status_reply ::
    "'e env_scheme \<Rightarrow> string \<Rightarrow> string \<Rightarrow> string \<Rightarrow> step_result list \<Rightarrow> ('w agent_world_scheme, bool) state" where
  "status_reply e message_id status tr steps = do {
     info \<leftarrow> gets ag_info;
     payload \<leftarrow> reply_payload e info status tr steps;
     agent_reply e message_id payload }"

definition agent_acknowledge :: "'e env_scheme \<Rightarrow> string \<Rightarrow> ('w agent_world_scheme, response option) state" where
  "agent_acknowledge e message_id = do {
     c \<leftarrow> provider_get e;
     case c of
       None \<Rightarrow> ret None
     | Some creds \<Rightarrow> do {
         i \<leftarrow> gets ag_id;
         r \<leftarrow> acknowledge_message e (id_region i) creds message_id;
         ret (Some r) } }"

definition agent_fail :: "'e env_scheme \<Rightarrow> string \<Rightarrow> ('w agent_world_scheme, unit) state" where
  "agent_fail e message_id = do {
     c \<leftarrow> provider_get e;
     case c of
       None \<Rightarrow> ret ()
     | Some creds \<Rightarrow> do {
         i \<leftarrow> gets ag_id;
         fail_message e (id_region i) creds message_id ''InternalHandlerException'';
         ret () } }"

subsection \<open>The worker\<close>

text \<open>One output stream of a step: whether it was uploaded.\<close>

definition upload_stream ::
    "'e env_scheme \<Rightarrow> string \<Rightarrow> string \<Rightarrow> string \<Rightarrow> string \<Rightarrow> ('w agent_world_scheme, bool) state" where
  "upload_stream e bucket key_prefix name data =
     (if data = [] then ret False
      else do {
        i \<leftarrow> gets ag_id;
        r \<leftarrow> s3_put e (id_region i) bucket (key_prefix @ ''/'' @ name) [] data ''text/plain'';
        ret (resp_ok r) })"

definition output_prefix :: "string \<Rightarrow> string \<Rightarrow> string \<Rightarrow> step_result \<Rightarrow> string" where
  "output_prefix command_id prefix instance_id sr =
     (if prefix \<noteq> [] then prefix @ ''/'' else []) @ command_id @ ''/'' @ instance_id @
     ''/awsrunShellScript/'' @ sr_plugin_id sr"

definition upload_step ::
    "'e env_scheme \<Rightarrow> string \<Rightarrow> string \<Rightarrow> string \<Rightarrow> step_result \<Rightarrow> ('w agent_world_scheme, step_result) state" where
  "upload_step e command_id bucket prefix sr = do {
     i \<leftarrow> gets ag_id;
     let key_prefix = output_prefix command_id prefix (id_instance_id i) sr;
     ok1 \<leftarrow> upload_stream e bucket key_prefix ''stdout'' (sr_full_stdout sr);
     ok2 \<leftarrow> upload_stream e bucket key_prefix ''stderr'' (sr_full_stderr sr);
     ret (if ok1 \<or> ok2 then sr\<lparr>sr_s3_bucket := bucket, sr_s3_key_prefix := key_prefix\<rparr> else sr) }"

fun upload_steps ::
    "'e env_scheme \<Rightarrow> string \<Rightarrow> string \<Rightarrow> string \<Rightarrow> step_result list \<Rightarrow>
     ('w agent_world_scheme, step_result list) state" where
  "upload_steps e command_id bucket prefix [] = ret []"
| "upload_steps e command_id bucket prefix (sr # srs) = do {
     sr' \<leftarrow> upload_step e command_id bucket prefix sr;
     srs' \<leftarrow> upload_steps e command_id bucket prefix srs;
     ret (sr' # srs') }"

definition upload_outputs ::
    "'e env_scheme \<Rightarrow> string \<Rightarrow> string \<Rightarrow> string \<Rightarrow> outcome \<Rightarrow> ('w agent_world_scheme, outcome) state" where
  "upload_outputs e command_id bucket prefix out =
     (if bucket = [] then ret out
      else do {
        steps \<leftarrow> upload_steps e command_id bucket prefix (do_steps out);
        ret (out\<lparr>do_steps := steps\<rparr>) })"

text \<open>The document, or the patch operation it stands for.\<close>

definition job_outcome :: "'e env_scheme \<Rightarrow> job \<Rightarrow> ('w agent_world_scheme, outcome option) state" where
  "job_outcome e j =
     (if is_patch_document (jb_document_name j)
      then do {
        i \<leftarrow> gets ag_id;
        run_baseline e \<lparr>pc_has_creds = True, pc_region = id_region i, pc_instance_id = id_instance_id i,
          pc_command_id = jb_command_id j, pc_cancel = True, pc_report_inventory = True\<rparr> (jb_parameters j) }
      else run_document e (jb_document j) (jb_parameters j)
        (if jb_s3_bucket j \<noteq> [] then new_options\<lparr>op_cancel := True, op_max_capture := s3_capture_bytes\<rparr>
         else new_options\<lparr>op_cancel := True\<rparr>))"

text \<open>The worker thread; \<open>False\<close> when its command never returns.\<close>

definition run_job :: "'e env_scheme \<Rightarrow> job \<Rightarrow> ('w agent_world_scheme, bool) state" where
  "run_job e j = do {
     out \<leftarrow> job_outcome e j;
     case out of
       None \<Rightarrow> ret False
     | Some out \<Rightarrow> do {
         out \<leftarrow> upload_outputs e (jb_command_id j) (jb_s3_bucket j) (jb_s3_prefix j) out;
         status_reply e (jb_message_id j) (do_status out) (do_trace out) (do_steps out);
         modify (\<lambda>w. w\<lparr>ag_inflight := flight_done (jb_command_id j) (ag_inflight w)\<rparr>);
         ret True } }"


subsection \<open>Messages\<close>

text \<open>Reject a payload: tell the user, and tell the service to stop.\<close>

definition reject_command :: "'e env_scheme \<Rightarrow> string \<Rightarrow> string \<Rightarrow> ('w agent_world_scheme, unit) state" where
  "reject_command e message_id tr = do {
     status_reply e message_id ''Failed'' tr [];
     agent_fail e message_id }"

definition parse_error_trace :: "string \<Rightarrow> string" where
  "parse_error_trace err = ''haiku-mgmt-agent could not parse the document payload: '' @ err"

definition no_document_trace :: string where
  "no_document_trace = ''document payload has no DocumentContent object''"

text \<open>Start the worker of a command.\<close>

definition start_job :: "string \<Rightarrow> string \<Rightarrow> json \<Rightarrow> json \<Rightarrow> ('w agent_world_scheme, unit) state" where
  "start_job message_id command_id payload doc = do {
     f \<leftarrow> gets ag_inflight;
     let (token, f') = flight_add command_id f;
     modify (\<lambda>w. w\<lparr>ag_inflight := f'\<rparr>);
     modify (\<lambda>w. w\<lparr>ag_jobs := ag_jobs w @
       [\<lparr>jb_message_id = message_id, jb_command_id = command_id, jb_document = doc,
         jb_parameters = (case find_key payload ''Parameters'' of None \<Rightarrow> VNull | Some p \<Rightarrow> p),
         jb_s3_bucket = str_of payload ''OutputS3BucketName'',
         jb_s3_prefix = str_of payload ''OutputS3KeyPrefix'',
         jb_document_name = str_of payload ''DocumentName'', jb_token = token\<rparr>],
       ag_started := ag_started w @ [command_id]\<rparr>) }"

text \<open>A command with a document: InProgress, acknowledge, run.\<close>

definition accept_command ::
    "'e env_scheme \<Rightarrow> string \<Rightarrow> string \<Rightarrow> json \<Rightarrow> json \<Rightarrow> ('w agent_world_scheme, unit) state" where
  "accept_command e message_id command_id payload doc = do {
     status_reply e message_id ''InProgress'' [] [];
     ack \<leftarrow> agent_acknowledge e message_id;
     (case ack of
        None \<Rightarrow> ret ()
      | Some r \<Rightarrow> if resp_ok r then ret () else do { check_auth_failure r; ret () });
     start_job message_id command_id payload doc }"

definition handle_send_command :: "'e env_scheme \<Rightarrow> json \<Rightarrow> ('w agent_world_scheme, unit) state" where
  "handle_send_command e msg = do {
     let message_id = str_of msg ''MessageId'';
     let command_id = command_id_from message_id;
     seen \<leftarrow> gets ag_seen;
     if seen_command seen command_id then do { agent_acknowledge e message_id; ret () }
     else do {
       modify (\<lambda>w. w\<lparr>ag_seen := add_command command_id seen, ag_marked := ag_marked w @ [command_id]\<rparr>);
       case parsed (str_of msg ''Payload'') of (payload, err) \<Rightarrow>
         if err \<noteq> [] \<or> \<not> is_obj payload then reject_command e message_id (parse_error_trace err)
         else (case obj_at payload ''DocumentContent'' of
             None \<Rightarrow> reject_command e message_id no_document_trace
           | Some doc \<Rightarrow> accept_command e message_id command_id payload doc) } }"

definition handle_cancel_command :: "'e env_scheme \<Rightarrow> json \<Rightarrow> ('w agent_world_scheme, unit) state" where
  "handle_cancel_command e msg = do {
     let message_id = str_of msg ''MessageId'';
     let payload = fst (parsed (str_of msg ''Payload''));
     let target = (if is_obj payload then str_of payload ''CancelMessageId'' else []);
     let command_id = command_id_from (if target = [] then message_id else target);
     modify (\<lambda>w. w\<lparr>ag_inflight := snd (flight_cancel command_id (ag_inflight w))\<rparr>);
     agent_acknowledge e message_id;
     ret () }"

definition send_command_topic :: string where "send_command_topic = ''aws.ssm.sendCommand''"
definition cancel_command_topic :: string where "cancel_command_topic = ''aws.ssm.cancelCommand''"

definition handle_message :: "'e env_scheme \<Rightarrow> json \<Rightarrow> ('w agent_world_scheme, unit) state" where
  "handle_message e msg = do {
     let message_id = str_of msg ''MessageId'';
     let topic = str_of msg ''Topic'';
     if message_id = [] \<or> topic = [] then ret ()
     else if starts_with topic send_command_topic then handle_send_command e msg
     else if starts_with topic cancel_command_topic then handle_cancel_command e msg
     else agent_fail e message_id }"

subsection \<open>Polling\<close>

definition agent_stopped :: "'e session_env_scheme \<Rightarrow> ('w agent_world_scheme, bool) state" where
  "agent_stopped e = do {
     i \<leftarrow> gets ag_stop;
     modify (\<lambda>w. w\<lparr>ag_stop := Suc i\<rparr>);
     ret (e_stop e i) }"

text \<open>The messages of one poll, until the stop flag is seen.\<close>

fun handle_messages :: "'e session_env_scheme \<Rightarrow> json list \<Rightarrow> ('w agent_world_scheme, unit) state" where
  "handle_messages e [] = ret ()"
| "handle_messages e (m # ms) = do {
     stop \<leftarrow> agent_stopped e;
     if stop then ret () else do { handle_message e m; handle_messages e ms } }"

definition poll_messages :: "string \<Rightarrow> json list" where
  "poll_messages body =
     (case parsed body of (v, err) \<Rightarrow>
        if err \<noteq> [] then []
        else case find_key v ''Messages'' of Some (VArr ms) \<Rightarrow> ms | _ \<Rightarrow> [])"

text \<open>One cycle, and the time it took.\<close>

definition poll_once :: "'e session_env_scheme \<Rightarrow> ('w agent_world_scheme, int) state" where
  "poll_once e = do {
     started \<leftarrow> now_ms e;
     c \<leftarrow> provider_get e;
     (case c of
        None \<Rightarrow> ret ()
      | Some creds \<Rightarrow> do {
          i \<leftarrow> gets ag_id;
          resp \<leftarrow> get_messages e (id_region i) creds (id_instance_id i) poll_http_timeout;
          if \<not> resp_ok resp then do { check_auth_failure resp; ret () }
          else handle_messages e (poll_messages (resp_body resp)) });
     ended \<leftarrow> now_ms e;
     ret (ended - started) }"

definition health_ping :: "'e env_scheme \<Rightarrow> string \<Rightarrow> string \<Rightarrow> ('w agent_world_scheme, bool) state" where
  "health_ping e platform_name platform_version = do {
     c \<leftarrow> provider_get e;
     case c of
       None \<Rightarrow> ret False
     | Some creds \<Rightarrow> do {
         i \<leftarrow> gets ag_id;
         r \<leftarrow> update_instance_information e (id_region i) creds i platform_name platform_version
           agent_name agent_version;
         if \<not> resp_ok r then do { check_auth_failure r; ret False } else ret True } }"


subsection \<open>Threads taking turns\<close>

text \<open>
  The poll loop, the health ping and the workers; a worker that finishes leaves the list. Shutdown
  is \<open>cancel_all\<close>.
\<close>

inductive agent_step ::
    "'e session_env_scheme \<Rightarrow> 'w agent_world_scheme \<Rightarrow> 'w agent_world_scheme \<Rightarrow> bool" for e where
  poll: "run_state (poll_once e) w = (t, w') \<Longrightarrow> agent_step e w w'"
| ping: "run_state (health_ping e n v) w = (b, w') \<Longrightarrow> agent_step e w w'"
| work: "j \<in> set (ag_jobs w) \<Longrightarrow> run_state (run_job e j) w = (True, w') \<Longrightarrow>
    agent_step e w (w'\<lparr>ag_jobs := remove1 j (ag_jobs w')\<rparr>)"
| shutdown: "agent_step e w (w\<lparr>ag_inflight := flight_cancel_all (ag_inflight w)\<rparr>)"

inductive agent_reach ::
    "'e session_env_scheme \<Rightarrow> 'w agent_world_scheme \<Rightarrow> 'w agent_world_scheme \<Rightarrow> bool" for e w0 where
  start: "agent_reach e w0 w0"
| step: "agent_reach e w0 w \<Longrightarrow> agent_step e w w' \<Longrightarrow> agent_reach e w0 w'"

inductive_cases agent_step_cases: "agent_step e w w'"

text \<open>An agent before its first poll.\<close>

definition agent_fresh :: "'w agent_world_scheme \<Rightarrow> bool" where
  "agent_fresh w \<longleftrightarrow> ag_seen w = no_commands \<and> ag_inflight w = no_flights \<and> ag_jobs w = [] \<and>
     ag_marked w = [] \<and> ag_started w = []"

end
