(* ===== verification/Agent_Facts.thy ===== *)
theory Agent_Facts
  imports Agent Session_Facts "HOL-Library.Sublist"
begin

text \<open>
  What the agent of \<open>Agent\<close> guarantees: the replies of a command in their order, at most one
  worker per command, and a registry that counts the running workers, so that a cancellation reaches
  each of them and the shutdown waits for all.
\<close>

subsection \<open>What effects leave alone\<close>

text \<open>A property of the state that no effect can change: it looks at no counter, event or cache.\<close>

definition blind :: "('w aws_world_scheme \<Rightarrow> bool) \<Rightarrow> bool" where
  "blind I \<longleftrightarrow> (\<forall>s. I s \<longrightarrow>
     I (s\<lparr>at_clock := Suc (at_clock s)\<rparr>) \<and> I (s\<lparr>at_random := Suc (at_random s)\<rparr>) \<and>
     I (s\<lparr>at_peer := Suc (at_peer s)\<rparr>) \<and> I (s\<lparr>at_child := Suc (at_child s)\<rparr>) \<and>
     (\<forall>ev. I (s\<lparr>trace := trace s @ [ev]\<rparr>)) \<and> (\<forall>t x. I (s\<lparr>imds_token := t, imds_expires := x\<rparr>)) \<and>
     (\<forall>c. I (s\<lparr>cached := c\<rparr>)))"

lemma blindD:
  assumes "blind I" and "I s"
  shows "I (s\<lparr>at_clock := Suc (at_clock s)\<rparr>)" "I (s\<lparr>at_random := Suc (at_random s)\<rparr>)"
    "I (s\<lparr>at_peer := Suc (at_peer s)\<rparr>)" "I (s\<lparr>at_child := Suc (at_child s)\<rparr>)"
    "I (s\<lparr>trace := trace s @ [ev]\<rparr>)" "I (s\<lparr>imds_token := t, imds_expires := x\<rparr>)" "I (s\<lparr>cached := c\<rparr>)"
  using assms unfolding blind_def by blast+

lemma keeps_call: "blind I \<Longrightarrow> keeps I (aws_call e service target op region creds body timeout)"
  by (rule keeps_aws_call; rule blindD; assumption)

lemma keeps_get_credentials: "blind I \<Longrightarrow> keeps I (provider_get e)"
  by (rule keeps_provider_get; rule blindD; assumption)

lemma keeps_check_auth: "blind I \<Longrightarrow> keeps I (check_auth_failure r)"
  unfolding check_auth_failure_def provider_invalidate_def
  by (intro keeps_rules; rule blindD; assumption)

lemma keeps_uuid: "blind I \<Longrightarrow> keeps I (new_uuid e)"
  by (rule keeps_new_uuid; rule blindD; assumption)

lemma keeps_send_reply: "blind I \<Longrightarrow> keeps I (send_reply e region creds m p)"
  unfolding send_reply_def by (intro keeps_bind keeps_uuid keeps_call)

lemma keeps_get_messages: "blind I \<Longrightarrow> keeps I (get_messages e region creds i t)"
  unfolding get_messages_def by (intro keeps_bind keeps_uuid keeps_call)

text \<open>A request to the message delivery service, by the header that names its operation.\<close>

definition for_mds :: "request \<Rightarrow> bool" where
  "for_mds req \<longleftrightarrow> req_tls req \<and>
     (case map_of (req_headers req) ''X-Amz-Target'' of None \<Rightarrow> False | Some t \<Rightarrow> starts_with t mds_target_prefix)"

text \<open>
  A property that nothing changes but a request to the message delivery service: the work of a
  command, which has no business with it, keeps such a property.
\<close>

definition deaf :: "('w aws_world_scheme \<Rightarrow> bool) \<Rightarrow> bool" where
  "deaf I \<longleftrightarrow> (\<forall>s. I s \<longrightarrow>
     I (s\<lparr>at_clock := Suc (at_clock s)\<rparr>) \<and> I (s\<lparr>at_random := Suc (at_random s)\<rparr>) \<and>
     I (s\<lparr>at_peer := Suc (at_peer s)\<rparr>) \<and> I (s\<lparr>at_child := Suc (at_child s)\<rparr>) \<and>
     (\<forall>script. I (s\<lparr>trace := trace s @ [EvShell script]\<rparr>)) \<and>
     (\<forall>req r. \<not> for_mds req \<longrightarrow> I (s\<lparr>trace := trace s @ [EvHttp req r]\<rparr>)) \<and>
     (\<forall>t x. I (s\<lparr>imds_token := t, imds_expires := x\<rparr>)) \<and> (\<forall>c. I (s\<lparr>cached := c\<rparr>)))"

lemma blind_deaf: "blind I \<Longrightarrow> deaf I"
  unfolding blind_def deaf_def by blast

lemma deafD:
  assumes "deaf I" and "I s"
  shows "I (s\<lparr>at_clock := Suc (at_clock s)\<rparr>)" "I (s\<lparr>at_random := Suc (at_random s)\<rparr>)"
    "I (s\<lparr>at_peer := Suc (at_peer s)\<rparr>)" "I (s\<lparr>at_child := Suc (at_child s)\<rparr>)"
    "I (s\<lparr>trace := trace s @ [EvShell script]\<rparr>)" "I (s\<lparr>imds_token := t, imds_expires := x\<rparr>)" "I (s\<lparr>cached := c\<rparr>)"
  using assms unfolding deaf_def by blast+

lemma deaf_request: "deaf I \<Longrightarrow> \<not> for_mds req \<Longrightarrow> I s \<Longrightarrow> I (s\<lparr>trace := trace s @ [EvHttp req r]\<rparr>)"
  unfolding deaf_def by blast

lemma call_request_target:
  "map_of (req_headers (call_request e service p op region creds body t now)) ''X-Amz-Target'' = Some (p @ ''.'' @ op)"
  by (simp add: call_request_def Let_def)

lemma ssm_not_mds: "\<not> for_mds (call_request e service ssm_target_prefix op region creds body t now)"
  unfolding for_mds_def call_request_target
  by (simp add: ssm_target_prefix_def mds_target_prefix_def starts_with_def)

lemma s3_not_mds:
  "\<not> for_mds ((s3_request e meth region c bucket key now content_type)
     \<lparr>req_timeout_ms := n, req_body_path := f, req_body := b, req_sink_path := g\<rparr>)"
  by (simp add: for_mds_def s3_request_def Let_def)

lemma plain_not_mds: "\<not> req_tls req \<Longrightarrow> \<not> for_mds req"
  by (simp add: for_mds_def)

lemma deaf_get_credentials:
  assumes "deaf I"
  shows "keeps I (provider_get e)"
  by (rule keeps_provider_get)
    (assumption | rule deafD [OF assms] deaf_request [OF assms] plain_not_mds)+

lemma deaf_put_inventory:
  assumes "deaf I"
  shows "keeps I (put_inventory e region creds i items)"
  unfolding put_inventory_def aws_call_def
  by (intro keeps_rules) (assumption | rule deafD [OF assms] deaf_request [OF assms] ssm_not_mds)+

lemma deaf_uuid: "deaf I \<Longrightarrow> keeps I (new_uuid e)"
  by (rule keeps_new_uuid; rule deafD; assumption)

lemma deaf_clock: "deaf I \<Longrightarrow> keeps I (now_ms e)" "deaf I \<Longrightarrow> keeps I (now_s e)"
  by (rule keeps_now_ms, rule deafD, assumption+) (rule keeps_now_s, rule deafD, assumption+)

lemma deaf_command: "deaf I \<Longrightarrow> keeps I (shell e script t d c h)"
  by (rule keeps_shell; rule deafD; assumption)

lemma deaf_put:
  assumes "deaf I"
  shows "keeps I (s3_put e region bucket key src content ct)"
proof -
  have "keeps I (transfer_once e meth region bucket key f c g ct)" for meth f c g
    unfolding transfer_once_def
    by (intro keeps_rules deaf_get_credentials [OF assms] deaf_clock [OF assms])
      (assumption | rule deafD [OF assms] deaf_request [OF assms] s3_not_mds)+
  then show ?thesis unfolding s3_put_def provider_invalidate_def
    by (intro keeps_bind keeps_if keeps_ret keeps_modify) (assumption | rule deafD [OF assms])+
qed

lemmas deaf_rules = deaf_get_credentials deaf_put_inventory deaf_uuid deaf_clock deaf_command deaf_put

lemmas blind_rules = keeps_call keeps_get_credentials keeps_check_auth keeps_uuid keeps_send_reply
  keeps_get_messages deaf_clock [OF blind_deaf]

lemma keeps_run_step: "deaf I \<Longrightarrow> keeps I (run_step e opts p d st status)"
  unfolding run_step_def skipped_def unsupported_def Let_def by (intro keeps_rules deaf_rules)

lemma keeps_run_steps: "deaf I \<Longrightarrow> keeps I (run_steps e opts p d sts out)"
proof (induction sts arbitrary: out)
  case (Cons st sts)
  show ?case unfolding run_steps.simps Let_def
    by (intro keeps_rules keeps_run_step Cons.IH Cons.prems)
qed simp

lemma keeps_patch_phases:
  assumes "deaf I"
  shows "keeps I (patch_sh e ctx script t pr)" "keeps I (phase_refresh e ctx pr)" "keeps I (phase_scan e ctx pr)"
    "keeps I (phase_apply e ctx p pr)" "keeps I (phase_count e ctx pr)"
  unfolding phase_refresh_def phase_scan_def phase_apply_def phase_count_def patch_sh_def Let_def
  by (intro keeps_rules deaf_rules assms)+

lemma keeps_phase_report: "deaf I \<Longrightarrow> keeps I (phase_report e ctx pr)"
  unfolding phase_report_def Let_def by (intro keeps_rules deaf_rules)

lemma keeps_run_baseline: "deaf I \<Longrightarrow> keeps I (run_baseline e ctx p)"
  unfolding run_baseline_def run_operation_def Let_def
  by (intro keeps_rules deaf_rules keeps_patch_phases keeps_phase_report)

lemma keeps_job_outcome: "deaf I \<Longrightarrow> keeps I (job_outcome e j)"
  unfolding job_outcome_def run_document_def Let_def
  by (intro keeps_rules keeps_run_baseline keeps_run_steps)

lemma keeps_agent_reply: "blind I \<Longrightarrow> keeps I (agent_reply e m p)"
  unfolding agent_reply_def by (intro keeps_rules blind_rules)

lemma keeps_status_reply: "blind I \<Longrightarrow> keeps I (status_reply e m st tr steps)"
  unfolding status_reply_def reply_payload_def by (intro keeps_rules blind_rules keeps_agent_reply)

lemma keeps_agent_acknowledge: "blind I \<Longrightarrow> keeps I (agent_acknowledge e m)"
  unfolding agent_acknowledge_def acknowledge_message_def by (intro keeps_rules blind_rules)

lemma keeps_agent_fail: "blind I \<Longrightarrow> keeps I (agent_fail e m)"
  unfolding agent_fail_def fail_message_def by (intro keeps_rules blind_rules)

lemma keeps_upload_steps: "deaf I \<Longrightarrow> keeps I (upload_steps e c b p srs)"
proof (induction srs)
  case (Cons sr srs)
  show ?case unfolding upload_steps.simps upload_step_def upload_stream_def Let_def
    by (intro keeps_rules deaf_rules Cons.IH Cons.prems)
qed simp

lemma keeps_upload_outputs: "deaf I \<Longrightarrow> keeps I (upload_outputs e c b p out)"
  unfolding upload_outputs_def by (intro keeps_rules keeps_upload_steps)

lemma keeps_health_ping: "blind I \<Longrightarrow> keeps I (health_ping e n v)"
  unfolding health_ping_def update_instance_information_def by (intro keeps_rules blind_rules)

lemmas agent_blind_rules = keeps_agent_reply keeps_status_reply keeps_agent_acknowledge keeps_agent_fail
  keeps_upload_outputs [OF blind_deaf] keeps_job_outcome [OF blind_deaf] keeps_health_ping blind_rules


subsection \<open>What a message changes\<close>

text \<open>The part of the state the poll loop and the workers share.\<close>

definition fields ::
    "'w agent_world_scheme \<Rightarrow> seen_commands \<times> in_flight \<times> job list \<times> string list \<times> string list" where
  "fields w = (ag_seen w, ag_inflight w, ag_jobs w, ag_marked w, ag_started w)"

lemma blind_fields: "blind (\<lambda>w. fields w = x)"
  by (simp add: blind_def fields_def)

lemmas keeps_fields = agent_blind_rules [OF blind_fields]

lemma same_fields: "keeps (\<lambda>v. fields v = fields w) m \<Longrightarrow> run_state m w = (x, w') \<Longrightarrow> fields w' = fields w"
  by (rule keeps_run [where I = "\<lambda>v. fields v = fields w"]) auto

definition msg_command :: "json \<Rightarrow> string" where
  "msg_command msg = command_id_from (str_of msg ''MessageId'')"

text \<open>The document of a send-command, or what is reported when there is none.\<close>

definition document_of :: "json \<Rightarrow> string + json \<times> json" where
  "document_of msg =
     (case parsed (str_of msg ''Payload'') of (payload, err) \<Rightarrow>
        if err \<noteq> [] \<or> \<not> is_obj payload then Inl (parse_error_trace err)
        else (case obj_at payload ''DocumentContent'' of
            None \<Rightarrow> Inl no_document_trace
          | Some doc \<Rightarrow> Inr (payload, doc)))"

lemma handle_send_unseen:
  assumes "\<not> seen_command (ag_seen w) (msg_command msg)"
  shows "run_state (handle_send_command e msg) w =
    run_state (case document_of msg of
        Inl tr \<Rightarrow> reject_command e (str_of msg ''MessageId'') tr
      | Inr (payload, doc) \<Rightarrow> accept_command e (str_of msg ''MessageId'') (msg_command msg) payload doc)
      (w\<lparr>ag_seen := add_command (msg_command msg) (ag_seen w), ag_marked := ag_marked w @ [msg_command msg]\<rparr>)"
  using assms unfolding msg_command_def
  by (simp add: handle_send_command_def document_of_def Let_def split: prod.split option.split)

lemma keeps_reject: "keeps (\<lambda>v. fields v = x) (reject_command e m tr)"
  unfolding reject_command_def by (intro keeps_rules keeps_fields)

lemma accept_fields:
  assumes "run_state (accept_command e m k payload doc) w = (u, w')"
  shows "\<exists>j. jb_command_id j = k \<and> jb_message_id j = m \<and> jb_document j = doc \<and>
    jb_token j = if_next (ag_inflight w) \<and>
    fields w' = (ag_seen w, snd (flight_add k (ag_inflight w)), ag_jobs w @ [j], ag_marked w, ag_started w @ [k])"
proof -
  obtain b w1 where w1: "run_state (status_reply e m ''InProgress'' [] []) w = (b, w1)" by fastforce
  obtain a w2 where w2: "run_state (agent_acknowledge e m) w1 = (a, w2)" by fastforce
  let ?ack = "case a of None \<Rightarrow> ret () | Some r \<Rightarrow> if resp_ok r then ret () else do { check_auth_failure r; ret () }"
  obtain w3 where w3: "run_state ?ack w2 = ((), w3)" by (cases "run_state ?ack w2") auto
  have "fields w1 = fields w" by (rule same_fields [OF _ w1]) (intro keeps_fields)
  moreover have "fields w2 = fields w1" by (rule same_fields [OF _ w2]) (intro keeps_fields)
  moreover have "fields w3 = fields w2" by (rule same_fields [OF _ w3]) (intro keeps_rules keeps_fields)
  ultimately have "fields w3 = fields w" by simp
  moreover have "run_state (start_job m k payload doc) w3 = (u, w')"
    using assms w1 w2 w3 by (simp add: accept_command_def)
  ultimately show ?thesis
    by (auto simp: start_job_def flight_add_def fields_def Let_def)
qed

text \<open>A send-command: nothing, a mark, or a mark and a worker.\<close>

lemma handle_send_fields:
  assumes "run_state (handle_send_command e msg) w = (u, w')"
  shows "if seen_command (ag_seen w) (msg_command msg) then fields w' = fields w
    else fields w' = (add_command (msg_command msg) (ag_seen w), ag_inflight w, ag_jobs w,
                      ag_marked w @ [msg_command msg], ag_started w) \<or>
         (\<exists>j. jb_command_id j = msg_command msg \<and> jb_token j = if_next (ag_inflight w) \<and>
            fields w' = (add_command (msg_command msg) (ag_seen w),
              snd (flight_add (msg_command msg) (ag_inflight w)), ag_jobs w @ [j],
              ag_marked w @ [msg_command msg], ag_started w @ [msg_command msg]))"
proof (cases "seen_command (ag_seen w) (msg_command msg)")
  case True
  have "keeps (\<lambda>v. fields v = fields w) (do { agent_acknowledge e (str_of msg ''MessageId''); ret () })"
    by (intro keeps_rules keeps_fields)
  from same_fields [OF this, of u w'] assms True show ?thesis
    by (simp add: handle_send_command_def msg_command_def Let_def)
next
  case False
  let ?w1 = "w\<lparr>ag_seen := add_command (msg_command msg) (ag_seen w), ag_marked := ag_marked w @ [msg_command msg]\<rparr>"
  note run = assms [unfolded handle_send_unseen [OF False]]
  show ?thesis
  proof (cases "document_of msg")
    case (Inl tr)
    with run have "run_state (reject_command e (str_of msg ''MessageId'') tr) ?w1 = (u, w')" by simp
    from same_fields [OF keeps_reject this] False show ?thesis by (simp add: fields_def)
  next
    case (Inr d)
    obtain payload doc where "d = (payload, doc)" by fastforce
    with Inr run have "run_state (accept_command e (str_of msg ''MessageId'') (msg_command msg) payload doc) ?w1 = (u, w')"
      by simp
    from accept_fields [OF this] False show ?thesis by auto
  qed
qed

lemma handle_cancel_fields:
  assumes "run_state (handle_cancel_command e msg) w = (u, w')"
  shows "\<exists>k. fields w' = (ag_seen w, snd (flight_cancel k (ag_inflight w)), ag_jobs w, ag_marked w, ag_started w)"
proof -
  have a: "fields w' = fields v" if "run_state (agent_acknowledge e m) v = (x, w')" for m v x
    by (rule same_fields [OF _ that]) (intro keeps_fields)
  from assms show ?thesis
    by (auto simp: handle_cancel_command_def Let_def split: prod.splits dest!: a)
      (auto simp: fields_def)
qed


subsection \<open>The invariant\<close>

text \<open>
  The marks are those of \<open>SeenCommands\<close>; workers are started for marks, in their order; the
  registry counts the running workers and knows no others, and while no command was started twice it
  has the token of each.
\<close>

definition marks_ok :: "seen_commands \<Rightarrow> string list \<Rightarrow> bool" where
  "marks_ok s m \<longleftrightarrow> (\<exists>ks. s = fst (seen_commands.run ks) \<and> m = seen_commands.acted ks)"

definition registry_ok :: "in_flight \<Rightarrow> job list \<Rightarrow> string list \<Rightarrow> bool" where
  "registry_ok f js st \<longleftrightarrow>
     if_count f = int (length js) \<and> fst ` set (if_map f) \<subseteq> jb_command_id ` set js \<and>
     jb_command_id ` set js \<subseteq> set st \<and>
     (distinct st \<longrightarrow> distinct (map jb_command_id js) \<and>
        (\<forall>j \<in> set js. map_of (if_map f) (jb_command_id j) = Some (jb_token j)))"

definition fields_ok :: "seen_commands \<times> in_flight \<times> job list \<times> string list \<times> string list \<Rightarrow> bool" where
  "fields_ok x \<longleftrightarrow> (case x of (s, f, js, m, st) \<Rightarrow> marks_ok s m \<and> subseq st m \<and> registry_ok f js st)"

lemma marks_ok_add: "marks_ok s m \<Longrightarrow> \<not> seen_command s k \<Longrightarrow> marks_ok (add_command k s) (m @ [k])"
proof -
  assume "marks_ok s m" and "\<not> seen_command s k"
  then obtain ks where "s = fst (seen_commands.run ks)" "m = seen_commands.acted ks"
    by (auto simp: marks_ok_def)
  with \<open>\<not> seen_command s k\<close> show ?thesis unfolding marks_ok_def
    by (intro exI [of _ "ks @ [k]"])
      (simp add: seen_commands.run_snoc seen_commands.step_def seen_commands.acted_def)
qed

lemma registry_ok_start:
  assumes "registry_ok f js st" and "jb_command_id j = k" and "jb_token j = if_next f"
  shows "registry_ok (snd (flight_add k f)) (js @ [j]) (st @ [k])"
  using assms by (auto simp: registry_ok_def flight_add_def smap_put_keys)

lemma registry_ok_cancel: "registry_ok f js st \<Longrightarrow> registry_ok (snd (flight_cancel k f)) js st"
  by (simp add: registry_ok_def flight_cancel_def split: option.split)

lemma registry_ok_done:
  assumes "registry_ok f js st" and "j \<in> set js"
  shows "registry_ok (flight_done (jb_command_id j) f) (remove1 j js) st"
proof -
  have keys: "fst ` set (smap_del k m) = fst ` set m - {k}" for k and m :: "(string, nat) smap"
    by (auto simp: smap_del_def)
  have "jb_command_id ` set js - {jb_command_id j} \<subseteq> jb_command_id ` set (remove1 j js)"
  proof
    fix k
    assume "k \<in> jb_command_id ` set js - {jb_command_id j}"
    then obtain i where i: "i \<in> set js" "k = jb_command_id i" "i \<noteq> j" by auto
    then have "i \<in> set (remove1 j js)" by (simp add: in_set_remove1)
    with i(2) show "k \<in> jb_command_id ` set (remove1 j js)" by (rule image_eqI)
  qed
  then have dom: "fst ` set (smap_del (jb_command_id j) (if_map f)) \<subseteq> jb_command_id ` set (remove1 j js)"
    using assms(1) unfolding registry_ok_def keys by blast
  have sub: "set (remove1 j js) \<subseteq> set js" by (rule set_remove1_subset)
  have other: "i \<in> set js \<and> jb_command_id i \<noteq> jb_command_id j"
    if "distinct (map jb_command_id js)" "i \<in> set (remove1 j js)" for i
    using that sub assms(2) by (auto simp: distinct_map inj_on_def)
  have "map_of (smap_del (jb_command_id j) (if_map f)) (jb_command_id i) = Some (jb_token i)"
    if "distinct st" "i \<in> set (remove1 j js)" for i
    using assms(1) that other by (auto simp: registry_ok_def)
  moreover have "distinct (map jb_command_id (remove1 j js))" if "distinct st"
    using assms(1) that by (auto simp: registry_ok_def distinct_map intro: inj_on_diff)
  moreover have "int (length (remove1 j js)) = int (length js) - 1"
    using assms(2) length_pos_if_in_set [OF assms(2)] by (simp add: length_remove1 of_nat_diff Suc_leI)
  moreover have "jb_command_id ` set (remove1 j js) \<subseteq> set st"
    by (rule order_trans [OF image_mono [OF sub]]) (use assms(1) in \<open>simp add: registry_ok_def\<close>)
  ultimately show ?thesis using dom assms(1)
    by (simp add: registry_ok_def flight_done_def)
qed

lemma handle_message_ok:
  assumes "run_state (handle_message e msg) w = (u, w')" and "fields_ok (fields w)"
  shows "fields_ok (fields w')"
proof -
  let ?t = "str_of msg ''Topic''" and ?m = "str_of msg ''MessageId''"
  consider (none) "?m = [] \<or> ?t = []" | (send) "?m \<noteq> []" "?t \<noteq> []" "starts_with ?t send_command_topic"
    | (cancel) "?m \<noteq> []" "?t \<noteq> []" "\<not> starts_with ?t send_command_topic" "starts_with ?t cancel_command_topic"
    | (other) "?m \<noteq> []" "?t \<noteq> []" "\<not> starts_with ?t send_command_topic" "\<not> starts_with ?t cancel_command_topic"
    by blast
  then show ?thesis
  proof cases
    case none
    with assms show ?thesis by (auto simp: handle_message_def Let_def)
  next
    case send
    then have "run_state (handle_send_command e msg) w = (u, w')" using assms by (simp add: handle_message_def Let_def)
    from handle_send_fields [OF this] show ?thesis
    proof (cases "seen_command (ag_seen w) (msg_command msg)")
      case False
      let ?k = "msg_command msg"
      have i: "marks_ok (ag_seen w) (ag_marked w)" "subseq (ag_started w) (ag_marked w)"
          "registry_ok (ag_inflight w) (ag_jobs w) (ag_started w)"
        using assms(2) by (simp_all add: fields_ok_def fields_def)
      have m: "marks_ok (add_command ?k (ag_seen w)) (ag_marked w @ [?k])" by (rule marks_ok_add [OF i(1) False])
      have "subseq (ag_started w) (ag_marked w @ [?k])" "subseq (ag_started w @ [?k]) (ag_marked w @ [?k])"
        using i(2) by (auto intro: list_emb_prefix simp: subseq_append')
      with handle_send_fields [OF \<open>run_state (handle_send_command e msg) w = _\<close>] False m i
      show ?thesis by (auto simp: fields_ok_def intro: registry_ok_start)
    qed (use assms(2) in simp)
  next
    case cancel
    then have "run_state (handle_cancel_command e msg) w = (u, w')" using assms by (simp add: handle_message_def Let_def)
    from handle_cancel_fields [OF this] assms(2) show ?thesis
      by (auto simp: fields_ok_def fields_def intro: registry_ok_cancel)
  next
    case other
    then have "run_state (agent_fail e ?m) w = (u, w')" using assms by (simp add: handle_message_def Let_def)
    from same_fields [OF _ this] assms(2) show ?thesis by (simp add: keeps_fields)
  qed
qed


lemma handle_messages_ok: "keeps (\<lambda>w. fields_ok (fields w)) (handle_messages e ms)"
proof (induction ms)
  case (Cons m ms)
  have "keeps (\<lambda>w. fields_ok (fields w)) (handle_message e m)"
    using handle_message_ok by (fastforce simp: keeps_def triple_def split: prod.split)
  then show ?case unfolding handle_messages.simps agent_stopped_def
    by (intro keeps_rules Cons.IH) (simp add: fields_def)
qed simp

lemma blind_ok: "blind (\<lambda>w. fields_ok (fields w))"
  by (simp add: blind_def fields_def)

lemma poll_once_ok: "keeps (\<lambda>w. fields_ok (fields w)) (poll_once e)"
  unfolding poll_once_def by (intro keeps_rules agent_blind_rules [OF blind_ok] handle_messages_ok)

lemma run_job_fields:
  assumes "run_state (run_job e j) w = (True, w')"
  shows "fields w' = (ag_seen w, flight_done (jb_command_id j) (ag_inflight w), ag_jobs w, ag_marked w, ag_started w)"
proof -
  obtain out w1 where w1: "run_state (job_outcome e j) w = (out, w1)" by fastforce
  with assms obtain o1 where o1: "out = Some o1" by (cases out) (auto simp: run_job_def)
  obtain o2 w2 where w2: "run_state (upload_outputs e (jb_command_id j) (jb_s3_bucket j) (jb_s3_prefix j) o1) w1 = (o2, w2)"
    by fastforce
  obtain b w3 where w3: "run_state (status_reply e (jb_message_id j) (do_status o2) (do_trace o2) (do_steps o2)) w2 = (b, w3)"
    by fastforce
  have "fields w1 = fields w" by (rule same_fields [OF _ w1]) (intro keeps_fields)
  moreover have "fields w2 = fields w1" by (rule same_fields [OF _ w2]) (intro keeps_fields)
  moreover have "fields w3 = fields w2" by (rule same_fields [OF _ w3]) (intro keeps_fields)
  moreover have "w' = w3\<lparr>ag_inflight := flight_done (jb_command_id j) (ag_inflight w3)\<rparr>"
    using assms w1 w2 w3 o1 by (simp add: run_job_def)
  ultimately show ?thesis by (simp add: fields_def)
qed

lemma agent_step_ok:
  assumes "agent_step e w w'" and "fields_ok (fields w)"
  shows "fields_ok (fields w')"
  using assms(1)
proof (rule agent_step_cases)
  fix t
  assume "run_state (poll_once e) w = (t, w')"
  then show ?thesis by (rule keeps_run [OF poll_once_ok assms(2)])
next
  fix n v b
  assume "run_state (health_ping e n v) w = (b, w')"
  then show ?thesis by (rule keeps_run [OF keeps_health_ping [OF blind_ok] assms(2)])
next
  fix j w1
  assume work: "w' = w1\<lparr>ag_jobs := remove1 j (ag_jobs w1)\<rparr>" "j \<in> set (ag_jobs w)" "run_state (run_job e j) w = (True, w1)"
  from run_job_fields [OF work(3)] work assms(2) show ?thesis
    by (auto simp: fields_ok_def fields_def intro: registry_ok_done)
next
  assume "w' = w\<lparr>ag_inflight := flight_cancel_all (ag_inflight w)\<rparr>"
  then show ?thesis using assms(2) by (simp add: fields_ok_def fields_def registry_ok_def flight_cancel_all_def)
qed

lemma agent_reach_ok:
  assumes "agent_reach e w0 w" and "agent_fresh w0"
  shows "fields_ok (fields w)"
  using assms(1)
proof (induction rule: agent_reach.induct)
  case start
  have "marks_ok no_commands []"
    unfolding marks_ok_def by (intro exI [of _ "[]"]) (simp add: seen_commands.run_def seen_commands.acted_def)
  with assms(2) show ?case
    by (simp add: fields_ok_def fields_def agent_fresh_def registry_ok_def no_flights_def)
qed (rule agent_step_ok)

text \<open>
  C1: however polls, pings and workers take turns, workers are started only for commands entered in
  \<open>SeenCommands\<close>, in that order, and among any 513 successive entries no two are for the same
  command.
\<close>

theorem worker_started_once:
  assumes "agent_reach e w0 w" and "agent_fresh w0"
  shows "subseq (ag_started w) (ag_marked w) \<and> (\<forall>i. distinct (take 513 (drop i (ag_marked w))))"
proof -
  have ok: "marks_ok (ag_seen w) (ag_marked w)" "subseq (ag_started w) (ag_marked w)"
    using agent_reach_ok [OF assms] by (simp_all add: fields_ok_def fields_def)
  then obtain ks where "ag_marked w = seen_commands.acted ks" by (auto simp: marks_ok_def)
  then have "distinct (take (Suc dedup_history) (drop i (ag_marked w)))" for i
    using seen_commands.acted_window by simp
  then show ?thesis using ok(2) by (simp add: dedup_history_def)
qed


subsection \<open>A poll that brings a command\<close>

text \<open>An agent that has just started, and a command for it.\<close>

definition sample_agent_world :: agent_world where
  "sample_agent_world = agent_world.make 0 0 0 0 [] [] 0 sample_credentials
     \<lparr>id_instance_id = ''i-1'', id_region = ''us-east-1'', id_availability_zone = [], id_private_ip = [],
      id_hostname = []\<rparr>
     sample_agent no_commands no_flights [] 0 [] []"

definition sample_message :: json where
  "sample_message = VObj [(''MessageId'', VString ''aws.ssm.c1.i-1''),
     (''Payload'', VString (json_dump (VObj [(''DocumentContent'', VObj [])]))), (''Topic'', VString ''aws.ssm.sendCommand.x'')]"

lemma sample_agent_fresh: "agent_fresh sample_agent_world"
  by (simp add: agent_fresh_def sample_agent_world_def agent_world.defs)

lemma sample_command: "msg_command sample_message = ''c1''"
  "document_of sample_message = Inr (VObj [(''DocumentContent'', VObj [])], VObj [])"
  "str_of sample_message ''MessageId'' = ''aws.ssm.c1.i-1''"
  by code_simp+

definition sample_poll_body :: string where
  "sample_poll_body = json_dump (VObj [(''Messages'', VArr [sample_message])])"

definition sample_agent_env :: session_env where
  "sample_agent_env = sample_session_env\<lparr>e_peer := \<lambda>i. plain_reply sample_poll_body\<rparr>"

lemma sample_poll_body: "poll_messages sample_poll_body = [sample_message]" "length sample_poll_body \<le> 65536"
proof -
  show "poll_messages sample_poll_body = [sample_message]" by code_simp
  have "length sample_poll_body = 114" by code_simp
  then show "length sample_poll_body \<le> 65536" by simp
qed

lemma sample_topic:
  "str_of sample_message ''Topic'' \<noteq> []" "starts_with (str_of sample_message ''Topic'') send_command_topic"
  by code_simp+

lemma sample_agent_get:
  "at_clock w = 1 \<Longrightarrow> cached w = sample_credentials \<Longrightarrow>
   run_state (provider_get sample_agent_env) w = (Some sample_credentials, w\<lparr>at_clock := 2\<rparr>)"
  by (simp add: provider_get_def run_now_s sample_agent_env_def sample_session_env_def env.defs sample_env_def
      stale_def creds_empty_def sample_credentials_def)

lemma sample_agent_call:
  "\<exists>w'. run_state (aws_call sample_agent_env s p op region sample_credentials body t) w = (plain_response [] sample_poll_body, w')"
proof -
  have peer: "e_peer sample_agent_env k = plain_reply sample_poll_body" for k
    by (simp add: sample_agent_env_def)
  have ca: "e_ca sample_agent_env \<noteq> []"
    by (simp add: sample_agent_env_def sample_session_env_def env.defs sample_env_def)
  note perform = sample_perform [where e = sample_agent_env and bodies = "\<lambda>_. sample_poll_body", OF peer sample_poll_body(2) ca]
  have req: "req_body_path (call_request e s p op r c b t n) = []" "req_sink_path (call_request e s p op r c b t n) = []"
    for e :: session_env and s p op r c b t n
    by (simp_all add: call_request_def Let_def new_request_def)
  have "\<not> creds_empty sample_credentials" by (simp add: creds_empty_def sample_credentials_def)
  then show ?thesis by (simp add: aws_call_def run_now_s perform req)
qed

lemma sample_agent_messages:
  "\<exists>w'. run_state (get_messages sample_agent_env region sample_credentials i t) w = (plain_response [] sample_poll_body, w')"
  unfolding get_messages_def by (simp add: sample_agent_call split: prod.split)

lemma sample_poll:
  "\<exists>t w j. run_state (poll_once sample_agent_env) sample_agent_world = (t, w) \<and>
     ag_started w = [''c1''] \<and> ag_marked w = [''c1''] \<and> ag_jobs w = [j] \<and> jb_command_id j = ''c1''"
proof -
  let ?e = sample_agent_env and ?w = sample_agent_world
  let ?w2 = "?w\<lparr>at_clock := 2\<rparr>"
  have now: "run_state (now_ms ?e) ?w = (e_clock ?e 0, ?w\<lparr>at_clock := 1\<rparr>)"
    by (simp add: now_ms_def sample_agent_world_def agent_world.defs)
  have stop: "\<not> e_stop ?e i" for i by (simp add: sample_agent_env_def sample_session_env_def env.defs)
  have get: "run_state (provider_get ?e) (?w\<lparr>at_clock := 1\<rparr>) = (Some sample_credentials, ?w2)"
    by (subst sample_agent_get) (simp_all add: sample_agent_world_def agent_world.defs)
  obtain w3 where w3: "run_state (get_messages ?e ''us-east-1'' sample_credentials ''i-1'' poll_http_timeout) ?w2 =
      (plain_response [] sample_poll_body, w3)"
    using sample_agent_messages by blast
  let ?w4 = "w3\<lparr>ag_stop := Suc (ag_stop w3)\<rparr>"
  obtain w5 where w5: "run_state (handle_send_command ?e sample_message) ?w4 = ((), w5)"
    by (cases "run_state (handle_send_command ?e sample_message) ?w4") auto
  obtain t w6 where w6: "run_state (now_ms ?e) w5 = (t, w6)" by fastforce
  have "run_state (handle_message ?e sample_message) ?w4 = ((), w5)"
    using w5 sample_topic by (simp add: handle_message_def Let_def sample_command)
  then have "run_state (handle_messages ?e [sample_message]) w3 = ((), w5)"
    using stop by (simp add: agent_stopped_def)
  moreover have "resp_ok (plain_response [] sample_poll_body)" "resp_body (plain_response [] sample_poll_body) = sample_poll_body"
    by (simp_all add: plain_response_def resp_ok_def new_response_def)
  moreover have "ag_id ?w2 = \<lparr>id_instance_id = ''i-1'', id_region = ''us-east-1'', id_availability_zone = [],
      id_private_ip = [], id_hostname = []\<rparr>"
    by (simp add: sample_agent_world_def agent_world.defs)
  ultimately have run: "run_state (poll_once ?e) ?w = (t - e_clock ?e 0, w6)"
    using now get w3 w6 by (simp add: poll_once_def sample_poll_body(1) del: handle_messages.simps)
  have "fields w3 = fields ?w2" by (rule same_fields [OF _ w3]) (intro keeps_fields)
  then have 4: "fields ?w4 = fields ?w" by (simp add: fields_def)
  have f: "ag_seen ?w4 = no_commands" "ag_inflight ?w4 = no_flights" "ag_jobs ?w4 = []" "ag_marked ?w4 = []" "ag_started ?w4 = []"
    using 4 by (simp_all add: fields_def sample_agent_world_def agent_world.defs)
  have "fields w6 = fields w5" by (rule same_fields [OF _ w6]) (intro keeps_fields)
  moreover have "run_state (handle_send_command ?e sample_message) ?w4 = run_state (accept_command ?e ''aws.ssm.c1.i-1'' ''c1''
      (VObj [(''DocumentContent'', VObj [])]) (VObj []))
      (?w4\<lparr>ag_seen := add_command ''c1'' (ag_seen ?w4), ag_marked := ag_marked ?w4 @ [''c1'']\<rparr>)"
    using f by (subst handle_send_unseen) (simp_all add: sample_command no_commands_def seen_command_def)
  ultimately have 6: "fields w6 = fields w5" and acc: "run_state (accept_command ?e ''aws.ssm.c1.i-1'' ''c1''
      (VObj [(''DocumentContent'', VObj [])]) (VObj []))
      (?w4\<lparr>ag_seen := add_command ''c1'' (ag_seen ?w4), ag_marked := ag_marked ?w4 @ [''c1'']\<rparr>) = ((), w5)"
    using w5 by simp_all
  obtain j where "jb_command_id j = ''c1''" "ag_jobs w5 = [j]" "ag_marked w5 = [''c1'']" "ag_started w5 = [''c1'']"
    using accept_fields [OF acc] f by (auto simp: fields_def)
  with 6 have "ag_jobs w6 = [j]" "ag_marked w6 = [''c1'']" "ag_started w6 = [''c1'']" "jb_command_id j = ''c1''"
    by (simp_all add: fields_def)
  with run show ?thesis by blast
qed

theorem worker_started_once_witness:
  "\<exists>w. agent_reach sample_agent_env sample_agent_world w \<and> ag_started w = [''c1''] \<and>
     subseq (ag_started w) (ag_marked w)"
proof -
  obtain t w where p: "run_state (poll_once sample_agent_env) sample_agent_world = (t, w)" "ag_started w = [''c1'']"
    using sample_poll by blast
  have r: "agent_reach sample_agent_env sample_agent_world w"
    by (rule agent_reach.step [OF agent_reach.start agent_step.poll [OF p(1)]])
  with worker_started_once [OF r sample_agent_fresh] p(2) show ?thesis by blast
qed


end
