(* ===== verification/Agent_Order.thy ===== *)
theory Agent_Order
  imports Agent_Facts
begin

text \<open>
  What the agent tells the message delivery service, and in which order: a command that is accepted
  is reported as InProgress and acknowledged before its worker exists, a command that cannot be run
  is reported as failed and then failed at the service, and a command seen before is acknowledged
  and nothing else.
\<close>

subsection \<open>Calls and commands\<close>

text \<open>
  What a trace shows of the program's dealings: the calls of the services, by operation and body,
  and the shell commands. The requests to the metadata service are not encrypted and are no calls.
\<close>

datatype act = Call string string | Ran string

fun act_of :: "event \<Rightarrow> act list" where
  "act_of (EvHttp req r) =
     (if req_tls req
      then [Call (case map_of (req_headers req) ''X-Amz-Target'' of None \<Rightarrow> [] | Some t \<Rightarrow> t) (req_body req)]
      else [])"
| "act_of (EvShell script) = [Ran script]"
| "act_of (EvSystem command) = [Ran command]"
| "act_of _ = []"

definition acts :: "'w world_scheme \<Rightarrow> act list" where
  "acts w = concat (map act_of (trace w))"

lemma acts_simps [simp]:
  "acts (w\<lparr>trace := trace w @ [ev]\<rparr>) = acts w @ act_of ev"
  "acts (w\<lparr>at_clock := n\<rparr>) = acts w" "acts (w\<lparr>at_random := n\<rparr>) = acts w"
  "acts (w\<lparr>at_peer := n\<rparr>) = acts w" "acts (w\<lparr>at_child := n\<rparr>) = acts w"
  by (simp_all add: acts_def)

lemma acts_aws_simps [simp]:
  "acts (w\<lparr>imds_token := t, imds_expires := x\<rparr>) = acts w" "acts (w\<lparr>cached := c\<rparr>) = acts w"
  by (simp_all add: acts_def)

lemma acts_agent_simps [simp]:
  "acts (w\<lparr>ag_seen := s, ag_marked := m\<rparr>) = acts w" "acts (w\<lparr>ag_inflight := f\<rparr>) = acts w"
  "acts (w\<lparr>ag_jobs := js, ag_started := st\<rparr>) = acts w"
  by (simp_all add: acts_def)

text \<open>\<open>adds P m\<close>: what the run of \<open>m\<close> adds to the acts satisfies \<open>P\<close>.\<close>

definition adds :: "(act list \<Rightarrow> bool) \<Rightarrow> ('w world_scheme, 'a) state \<Rightarrow> bool" where
  "adds P m \<longleftrightarrow> (\<forall>w x w'. run_state m w = (x, w') \<longrightarrow> (\<exists>as. P as \<and> acts w' = acts w @ as))"

lemma addsD: "adds P m \<Longrightarrow> run_state m w = (x, w') \<Longrightarrow> \<exists>as. P as \<and> acts w' = acts w @ as"
  by (simp add: adds_def)

lemma adds_ret: "P [] \<Longrightarrow> adds P (ret x)"
  by (auto simp: adds_def)

lemma adds_bind:
  assumes "adds P m" and "\<And>x. adds Q (k x)" and "\<And>as bs. P as \<Longrightarrow> Q bs \<Longrightarrow> R (as @ bs)"
  shows "adds R (m \<bind> k)"
  unfolding adds_def
proof (intro allI impI)
  fix w y w'
  assume run: "run_state (m \<bind> k) w = (y, w')"
  obtain x v where v: "run_state m w = (x, v)" by fastforce
  with run have k: "run_state (k x) v = (y, w')" by simp
  from addsD [OF assms(1) v] addsD [OF assms(2) k] assms(3)
  show "\<exists>as. R as \<and> acts w' = acts w @ as" by (metis append.assoc)
qed

lemma adds_nothing:
  assumes "\<And>x. keeps (\<lambda>w. acts w = x) m"
  shows "adds (\<lambda>as. as = []) m"
  unfolding adds_def
proof (intro allI impI)
  fix w x w'
  assume "run_state m w = (x, w')"
  from keeps_run [OF assms refl this] show "\<exists>as. as = [] \<and> acts w' = acts w @ as" by simp
qed

text \<open>\<open>follows as Ps\<close>: the acts are of the kinds \<open>Ps\<close>, in their order, each at most once.\<close>

fun follows :: "act list \<Rightarrow> (act \<Rightarrow> bool) list \<Rightarrow> bool" where
  "follows [] Ps = True"
| "follows (a # as) [] = False"
| "follows (a # as) (P # Ps) = ((P a \<and> follows as Ps) \<or> follows (a # as) Ps)"

lemma follows_skip: "follows bs Qs \<Longrightarrow> follows bs (Ps @ Qs)"
  by (induction Ps; cases bs) auto

lemma follows_append: "follows as Ps \<Longrightarrow> follows bs Qs \<Longrightarrow> follows (as @ bs) (Ps @ Qs)"
  by (induction as Ps rule: follows.induct) (auto simp: follows_skip)

lemma follows_mono: "follows as Ps \<Longrightarrow> list_all2 (\<le>) Ps Qs \<Longrightarrow> follows as Qs"
  by (induction as Ps arbitrary: Qs rule: follows.induct) (auto simp: list_all2_Cons1)

text \<open>\<open>emits Ps m\<close>: of the kinds of act \<open>Ps\<close>, in their order, each at most once, and nothing else.\<close>

definition emits :: "(act \<Rightarrow> bool) list \<Rightarrow> ('w world_scheme, 'a) state \<Rightarrow> bool" where
  "emits Ps = adds (\<lambda>as. follows as Ps)"

lemma emits_ret: "emits Ps (ret x)"
  by (simp add: emits_def adds_ret)

lemma emits_bind: "emits Ps m \<Longrightarrow> (\<And>x. emits Qs (k x)) \<Longrightarrow> emits (Ps @ Qs) (m \<bind> k)"
  unfolding emits_def by (erule adds_bind, assumption) (rule follows_append)

lemma emits_nothing:
  assumes "\<And>x. keeps (\<lambda>w. acts w = x) m"
  shows "emits [] m"
  unfolding emits_def using adds_nothing [OF assms] by (simp add: adds_def)

lemma emits_pass: "emits [] m \<Longrightarrow> (\<And>x. emits Ps (k x)) \<Longrightarrow> emits Ps (m \<bind> k)"
  using emits_bind [of "[]" m Ps k] by simp

lemma emits_then: "emits Ps m \<Longrightarrow> (\<And>x. emits [] (k x)) \<Longrightarrow> emits Ps (m \<bind> k)"
  using emits_bind [of Ps m "[]" k] by simp

lemma emits_case_option:
  "emits Ps a \<Longrightarrow> (\<And>y. emits Ps (b y)) \<Longrightarrow> emits Ps (case x of None \<Rightarrow> a | Some y \<Rightarrow> b y)"
  by (cases x) auto

lemma emits_if: "(b \<Longrightarrow> emits Ps m) \<Longrightarrow> (\<not> b \<Longrightarrow> emits Ps n) \<Longrightarrow> emits Ps (if b then m else n)"
  by simp

lemma emits_mono: "emits Ps m \<Longrightarrow> list_all2 (\<le>) Ps Qs \<Longrightarrow> emits Qs m"
  unfolding emits_def adds_def using follows_mono by blast

lemma emits_gets: "emits [] (gets f)"
  by (rule emits_nothing) (simp add: keeps_def triple_def)

lemma emits_provider_get: "emits [] (provider_get e)"
  by (rule emits_nothing, rule keeps_provider_get) auto

lemma emits_new_uuid: "emits [] (new_uuid e)"
  by (rule emits_nothing, rule keeps_new_uuid) auto

lemma emits_now_ms: "emits [] (now_ms e)"
  by (rule emits_nothing, rule keeps_now_ms) auto

lemma emits_check_auth: "emits [] (check_auth_failure r)"
  by (rule emits_nothing) (auto simp: check_auth_failure_def provider_invalidate_def intro!: keeps_rules)

lemma emits_aws_call:
  "emits [\<lambda>a. a = Call (p @ ''.'' @ op) body] (aws_call e service p op region creds body t)"
  unfolding emits_def adds_def
proof (intro allI impI)
  fix w x w'
  assume that: "run_state (aws_call e service p op region creds body t) w = (x, w')"
  show "\<exists>as. follows as [\<lambda>a. a = Call (p @ ''.'' @ op) body] \<and> acts w' = acts w @ as"
  proof (cases "creds_empty creds")
    case True
    with that show ?thesis by (auto simp: aws_call_def)
  next
    case False
    let ?req = "call_request e service p op region creds body t (e_clock e (at_clock w) div 1000)"
    from False that have "w' = w\<lparr>at_clock := Suc (at_clock w), at_peer := Suc (at_peer w),
        trace := trace w @ [EvHttp ?req (http_perform (e_ca e) (e_peer e (at_peer w)) ?req)]\<rparr>"
      by (auto simp: aws_call_def run_now_s perform_def Let_def emit_def)
    moreover have "act_of (EvHttp ?req r) = [Call (p @ ''.'' @ op) body]" for r
      unfolding act_of.simps call_request_target by (simp add: call_request_def Let_def)
    ultimately have "acts w' = acts w @ [Call (p @ ''.'' @ op) body]"
      by (simp add: acts_def del: act_of.simps)
    then show ?thesis by auto
  qed
qed

lemmas emits_quiet = emits_gets emits_provider_get emits_new_uuid emits_now_ms emits_check_auth


subsection \<open>The three calls about a message\<close>

definition is_reply :: "string \<Rightarrow> string \<Rightarrow> string \<Rightarrow> step_result list \<Rightarrow> act \<Rightarrow> bool" where
  "is_reply message_id status tr steps a \<longleftrightarrow> (\<exists>agent t u.
     a = Call ''EC2WindowsMessageDeliveryService.SendReply''
       (json_dump (mk_obj [(''MessageId'', VString message_id),
          (''Payload'', VString (json_dump (reply_json agent status tr steps t))), (''ReplyId'', VString u)])))"

definition is_ack :: "string \<Rightarrow> act \<Rightarrow> bool" where
  "is_ack message_id a \<longleftrightarrow> a = Call ''EC2WindowsMessageDeliveryService.AcknowledgeMessage''
     (json_dump (mk_obj [(''MessageId'', VString message_id)]))"

definition is_fail :: "string \<Rightarrow> act \<Rightarrow> bool" where
  "is_fail message_id a \<longleftrightarrow> a = Call ''EC2WindowsMessageDeliveryService.FailMessage''
     (json_dump (mk_obj [(''MessageId'', VString message_id), (''FailureType'', VString ''InternalHandlerException'')]))"

lemma emits_acknowledge: "emits [is_ack m] (agent_acknowledge e m)"
proof -
  have "emits [is_ack m] (acknowledge_message e region creds m)" for region creds
    unfolding acknowledge_message_def
    by (rule emits_mono [OF emits_aws_call]) (auto simp: is_ack_def mds_target_prefix_def)
  then show ?thesis unfolding agent_acknowledge_def
    by (intro emits_pass [OF emits_provider_get] emits_pass [OF emits_gets] emits_case_option emits_ret emits_then)
qed

lemma emits_fail: "emits [is_fail m] (agent_fail e m)"
proof -
  have "emits [is_fail m] (fail_message e region creds m ''InternalHandlerException'')" for region creds
    unfolding fail_message_def
    by (rule emits_mono [OF emits_aws_call]) (auto simp: is_fail_def mds_target_prefix_def)
  then show ?thesis unfolding agent_fail_def
    by (intro emits_pass [OF emits_provider_get] emits_pass [OF emits_gets] emits_case_option emits_ret emits_then)
qed

lemma emits_status_reply: "emits [is_reply m st tr steps] (status_reply e m st tr steps)"
proof -
  have send: "emits [is_reply m st tr steps] (send_reply e region creds m (json_dump (reply_json agent st tr steps t)))"
    for region creds agent t
    unfolding send_reply_def
  proof (rule emits_pass [OF emits_new_uuid], rule emits_mono [OF emits_aws_call])
    show "list_all2 (\<le>) [\<lambda>a. a = Call (mds_target_prefix @ ''.'' @ ''SendReply'')
        (json_dump (mk_obj [(''MessageId'', VString m),
          (''Payload'', VString (json_dump (reply_json agent st tr steps t))), (''ReplyId'', VString u)]))]
        [is_reply m st tr steps]" for u
      unfolding is_reply_def mds_target_prefix_def by (simp add: le_fun_def) blast
  qed
  have "emits [is_reply m st tr steps] (agent_reply e m (json_dump (reply_json agent st tr steps t)))" for agent t
    unfolding agent_reply_def
    by (intro emits_pass [OF emits_provider_get] emits_pass [OF emits_gets] emits_case_option emits_ret
        emits_then [OF send] emits_if emits_then [OF emits_check_auth])
  then show ?thesis unfolding status_reply_def reply_payload_def bind_assoc
    by (intro emits_pass [OF emits_gets] emits_pass [OF emits_now_ms]) simp
qed


subsection \<open>A send-command\<close>

lemma emits_reject: "emits [is_reply m ''Failed'' tr [], is_fail m] (reject_command e m tr)"
  using emits_bind [OF emits_status_reply emits_fail] by (simp add: reject_command_def)

lemma emits_start_job: "emits [] (start_job m k payload doc)"
  by (rule emits_nothing) (auto simp: start_job_def flight_add_def keeps_def triple_def Let_def)

lemma emits_accept: "emits [is_reply m ''InProgress'' [] [], is_ack m] (accept_command e m k payload doc)"
proof -
  have "emits ([is_reply m ''InProgress'' [] []] @ [is_ack m]) (accept_command e m k payload doc)"
    unfolding accept_command_def
    by (intro emits_bind [OF emits_status_reply] emits_then [OF emits_acknowledge] emits_pass
        emits_case_option emits_if emits_ret emits_check_auth emits_start_job)
  then show ?thesis by simp
qed



end
