(* ===== verification/Control.thy ===== *)
theory Control
  imports Session_Facts Dedup
begin

text \<open>
  The control channel, \<open>session::run\<close> of \<open>src/src/session.cpp\<close>: it waits for requests to
  start a session and starts a thread for each that is new and that the agent can serve.

  \<open>spawned\<close> are the requests for which a thread was started; what the threads do is
  \<open>run_session\<close> of \<open>Session\<close>. How many of them are still alive when the channel is
  shut down is part of the environment.
\<close>

subsection \<open>State\<close>

record control_env = session_env +
  e_active :: "nat \<Rightarrow> int"

record control_world = chan_world +
  ctl_stop :: nat
  next_ping :: int
  known_sessions :: "string set"
  spawned :: "start_request list"

datatype control_end = Keeps | Closed bool | Aborted

definition ping_interval :: int where "ping_interval = 45"

definition standard_stream :: string where "standard_stream = ''Standard_Stream''"

subsection \<open>One message\<close>

text \<open>A message of type \<open>interactive_shell\<close>.\<close>

definition start_session :: "start_request \<Rightarrow> ('w control_world_scheme, unit) state" where
  "start_session sr =
     (if sq_error sr \<noteq> [] then ret ()
      else if sq_session_type sr \<noteq> [] \<and> sq_session_type sr \<noteq> standard_stream then ret ()
      else if sq_kms_key_id sr \<noteq> [] then ret ()
      else do {
        known \<leftarrow> gets known_sessions;
        if sq_session_id sr \<in> known then ret ()
        else do {
          modify (\<lambda>w. w\<lparr>known_sessions := insert (sq_session_id sr) known\<rparr>);
          modify (\<lambda>w. w\<lparr>spawned := spawned w @ [sr]\<rparr>) } })"

definition control_message :: "agent_message \<Rightarrow> ('w control_world_scheme, control_end) state" where
  "control_message m =
     (if am_message_type m = msg_interactive_shell
      then do { start_session (parse_start_request (am_payload m)); ret Keeps }
      else if am_message_type m = msg_channel_closed then ret (Closed True)
      else ret Keeps)"

definition keep_alive :: "'e env_scheme \<Rightarrow> ('w control_world_scheme, unit) state" where
  "keep_alive e = do {
     now \<leftarrow> now_s e;
     due \<leftarrow> gets next_ping;
     if now < due then ret ()
     else do {
       ws_send e op_ping [];
       now2 \<leftarrow> now_s e;
       modify (\<lambda>w. w\<lparr>next_ping := now2 + ping_interval\<rparr>) } }"

definition control_step :: "'e env_scheme \<Rightarrow> ('w control_world_scheme, control_end) state" where
  "control_step e = do {
     keep_alive e;
     r \<leftarrow> ws_recv e;
     case r of
       RecvErr _ \<Rightarrow> ret (Closed False)
     | RecvNone \<Rightarrow> ret Keeps
     | RecvFrame _ payload \<Rightarrow>
         (case deserialize payload of
            Refused _ \<Rightarrow> ret Keeps
          | Threw_out_of_range \<Rightarrow> ret Aborted
          | Got m \<Rightarrow> control_message m) }"

subsection \<open>The loop\<close>

definition control_stopped :: "'e session_env_scheme \<Rightarrow> ('w control_world_scheme, bool) state" where
  "control_stopped e = do {
     i \<leftarrow> gets ctl_stop;
     modify (\<lambda>w. w\<lparr>ctl_stop := Suc i\<rparr>);
     ret (e_stop e i) }"

lemma keeps_unread_alive: "keeps (\<lambda>w. unread (client w) = x) (keep_alive e)"
  unfolding keep_alive_def by (intro keeps_rules keeps_unread_send) simp_all

lemma keeps_unread_control: "keeps (\<lambda>w. unread (client w) = x) (control_message m)"
  unfolding control_message_def start_session_def by (intro keeps_rules) simp_all

lemma control_step_takes:
  assumes "run_state (control_step e) w = (Keeps, w')"
  shows "fewer (client w') (client w)"
proof -
  obtain w1 where w1: "run_state (keep_alive e) w = ((), w1)" by (cases "run_state (keep_alive e) w") auto
  obtain r w2 where w2: "run_state (ws_recv e) w1 = (r, w2)" by fastforce
  have "unread (client w1) = unread (client w)" by (rule keeps_run [OF keeps_unread_alive refl w1])
  moreover have r: "\<forall>t. r \<noteq> RecvErr t" "w' = w2 \<or> (\<exists>m x. run_state (control_message m) w2 = (x, w'))"
    using assms w1 w2 by (auto simp: control_step_def split: recv_result.splits des_result.splits)
  moreover have "fewer (client w2) (client w1)" by (rule ws_recv_takes [OF w2 r(1)])
  moreover have "unread (client w') = unread (client w2)"
    using r(2) keeps_run [OF keeps_unread_control [of "unread (client w2)"] refl] by blast
  ultimately show ?thesis by simp
qed

text \<open>\<open>Keeps\<close> as the result means that the loop was left because of the stop flag.\<close>

function control_loop ::
    "'e session_env_scheme \<Rightarrow> 'w control_world_scheme \<Rightarrow> control_end \<times> 'w control_world_scheme" where
  "control_loop e w =
     (case run_state (control_stopped e) w of (stop, w1) \<Rightarrow>
        if stop then (Keeps, w1)
        else case run_state (control_step e) w1 of
          (Keeps, w2) \<Rightarrow> control_loop e w2
        | (x, w2) \<Rightarrow> (x, w2))"
  by pat_completeness auto
termination
proof (relation "inv_image (less_than <*lex*> less_than) (\<lambda>(e, w). unread (client w))")
  show "wf (inv_image (less_than <*lex*> less_than) (\<lambda>(e, w). unread (client w)))"
    by (intro wf_inv_image wf_lex_prod wf_less_than)
qed (auto simp: control_stopped_def dest!: sym [of "(_, _)" "run_state _ _"] control_step_takes)

declare control_loop.simps [simp del]

text \<open>Wait for the session threads, at most until the deadline; the counters of the two questions.\<close>

partial_function (option) drain_sessions ::
    "'e control_env_scheme \<Rightarrow> int \<Rightarrow> nat \<Rightarrow> nat \<Rightarrow> (nat \<times> nat) option" where
  "drain_sessions e deadline i c =
     (if e_active e i \<le> 0 then Some (Suc i, c)
      else if e_clock e c div 1000 < deadline then drain_sessions e deadline (Suc i) (Suc c)
      else Some (Suc i, Suc c))"

declare drain_sessions.simps [code]

subsection \<open>The channel\<close>

definition open_control_channel :: "string \<Rightarrow> string \<Rightarrow> string \<Rightarrow> string" where
  "open_control_channel request_id token agent_version = json_dump (mk_obj
     [(''MessageSchemaVersion'', VString ''1.0''), (''RequestId'', VString request_id),
      (''TokenValue'', VString token), (''AgentVersion'', VString agent_version),
      (''PlatformType'', VString ''Linux'')])"

text \<open>Up to the loop: true when the channel is open.\<close>

definition open_control :: "'e env_scheme \<Rightarrow> session_options \<Rightarrow> ('w control_world_scheme, bool) state" where
  "open_control e opts = do {
     let channel_id = so_instance_id opts;
     t \<leftarrow> create_channel e (so_region opts) ''control-channel'' channel_id;
     case t of Inl _ \<Rightarrow> ret False | Inr token \<Rightarrow> do {
       c \<leftarrow> provider_get e;
       case c of None \<Rightarrow> ret False | Some creds \<Rightarrow> do {
         let host = mgs_endpoint (so_region opts);
         let path = ''/v1/control-channel/'' @ channel_id;
         let query = ''role=subscribe&stream=input'';
         headers \<leftarrow> ws_upgrade_headers e creds (so_region opts) host path query;
         err \<leftarrow> ws_connect e host True (path @ ''?'' @ query) headers;
         if err \<noteq> None then ret False
         else do {
           request_id \<leftarrow> new_uuid e;
           err \<leftarrow> ws_send e op_text (open_control_channel request_id token (so_agent_version opts));
           ret (err = None) } } } }"

text \<open>From the open channel on: the loop and the shutdown. \<open>None\<close> would be a wait that never ends.\<close>

definition shut_down :: "'e control_env_scheme \<Rightarrow> ('w control_world_scheme, control_end option) state" where
  "shut_down e = do {
     ws_close e;
     now \<leftarrow> now_s e;
     c \<leftarrow> gets at_clock;
     case drain_sessions e (now + 15) 0 c of
       None \<Rightarrow> ret None
     | Some (_, c') \<Rightarrow> do {
         modify (\<lambda>w. w\<lparr>at_clock := c'\<rparr>);
         ret (Some (Closed True)) } }"

definition serve_control :: "'e control_env_scheme \<Rightarrow> ('w control_world_scheme, control_end option) state" where
  "serve_control e = do {
     now \<leftarrow> now_s e;
     modify (\<lambda>w. w\<lparr>next_ping := now + ping_interval\<rparr>);
     x \<leftarrow> State (control_loop e);
     if x \<noteq> Keeps then ret (Some x) else shut_down e }"

text \<open>\<open>session::run\<close>.\<close>

definition run_control ::
    "'e control_env_scheme \<Rightarrow> session_options \<Rightarrow> ('w control_world_scheme, control_end option) state" where
  "run_control e opts = do {
     opened \<leftarrow> open_control e opts;
     if \<not> opened then ret (Some (Closed False))
     else do {
       modify (\<lambda>w. w\<lparr>known_sessions := {}\<rparr>);
       serve_control e } }"

subsection \<open>Each session is started once\<close>

definition servable :: "start_request \<Rightarrow> bool" where
  "servable sr \<longleftrightarrow> sq_error sr = [] \<and> sq_kms_key_id sr = [] \<and> sq_session_type sr \<in> {[], standard_stream}"

text \<open>The sessions known and started are those of the deliveries \<open>ks\<close>.\<close>

definition started_by :: "string list \<Rightarrow> 'w control_world_scheme \<Rightarrow> bool" where
  "started_by ks w \<longleftrightarrow> known_sessions w = fst (seen_sessions.run ks) \<and>
     map sq_session_id (spawned w) = snd (seen_sessions.run ks) \<and> (\<forall>sr \<in> set (spawned w). servable sr)"

lemma start_session_step:
  assumes "started_by ks w"
  shows "\<exists>w'. run_state (start_session sr) w = ((), w') \<and>
    started_by (if servable sr then ks @ [sq_session_id sr] else ks) w' \<and>
    set (spawned w') \<subseteq> insert sr (set (spawned w))"
  using assms
  by (auto simp: start_session_def servable_def started_by_def seen_sessions.run_snoc seen_sessions.step_def)

text \<open>A sequence of requests.\<close>

fun start_sessions :: "start_request list \<Rightarrow> ('w control_world_scheme, unit) state" where
  "start_sessions [] = ret ()"
| "start_sessions (sr # srs) = do { start_session sr; start_sessions srs }"

text \<open>The first occurrences in a list, in order.\<close>

fun firsts :: "'a list \<Rightarrow> 'a list" where
  "firsts [] = []"
| "firsts (x # xs) = x # filter (\<lambda>y. y \<noteq> x) (firsts xs)"

lemma set_firsts: "set (firsts xs) = set xs"
  by (induction xs) auto

lemma firsts_snoc: "firsts (xs @ [x]) = (if x \<in> set xs then firsts xs else firsts xs @ [x])"
  by (induction xs) auto

lemma acted_firsts: "seen_sessions.acted ks = firsts ks"
proof (induction ks rule: rev_induct)
  case (snoc k ks)
  have "fst (seen_sessions.run ks) = set ks" for ks
    by (induction ks rule: rev_induct)
      (auto simp: seen_sessions.run_snoc seen_sessions.step_def seen_sessions.run_def [of "[]"])
  with snoc show ?case
    by (simp add: seen_sessions.acted_def seen_sessions.run_snoc seen_sessions.step_def firsts_snoc)
qed (simp add: seen_sessions.acted_def seen_sessions.run_def)

lemma start_sessions_run:
  "started_by ks w \<Longrightarrow> \<exists>w'. run_state (start_sessions srs) w = ((), w') \<and>
     started_by (ks @ map sq_session_id (filter servable srs)) w'"
proof (induction srs arbitrary: ks w)
  case (Cons sr srs)
  from start_session_step [OF Cons.prems, of sr] obtain w1 where
    w1: "run_state (start_session sr) w = ((), w1)"
      "started_by (if servable sr then ks @ [sq_session_id sr] else ks) w1" by blast
  from Cons.IH [OF w1(2)] obtain w2 where "run_state (start_sessions srs) w1 = ((), w2)"
      "started_by ((if servable sr then ks @ [sq_session_id sr] else ks) @ map sq_session_id (filter servable srs)) w2"
    by blast
  with w1 show ?case by (intro exI [of _ w2]) (simp split: if_splits)
qed simp

text \<open>
  C18: for any sequence of requests on one control channel, the sessions started are those of the
  first request for each identifier among the requests the agent can serve, in the order of these.
\<close>

theorem sessions_started_first:
  assumes "known_sessions w = {}" and "spawned w = []"
  shows "\<exists>w'. run_state (start_sessions srs) w = ((), w') \<and>
    map sq_session_id (spawned w') = firsts (map sq_session_id (filter servable srs))"
proof -
  have "started_by [] w" using assms by (simp add: started_by_def seen_sessions.run_def)
  from start_sessions_run [OF this, of srs] obtain w' where
    w': "run_state (start_sessions srs) w = ((), w')"
      "started_by (map sq_session_id (filter servable srs)) w'" by auto
  have "map sq_session_id (spawned w') = seen_sessions.acted (map sq_session_id (filter servable srs))"
    using w'(2) unfolding started_by_def seen_sessions.acted_def by (elim conjE)
  with w'(1) show ?thesis unfolding acted_firsts by blast
qed

lemma started_by_other [simp]:
  "started_by ks (w\<lparr>at_clock := a\<rparr>) = started_by ks w" "started_by ks (w\<lparr>at_random := b\<rparr>) = started_by ks w"
  "started_by ks (w\<lparr>at_peer := c\<rparr>) = started_by ks w" "started_by ks (w\<lparr>trace := t\<rparr>) = started_by ks w"
  "started_by ks (w\<lparr>imds_token := d\<rparr>) = started_by ks w" "started_by ks (w\<lparr>imds_expires := f\<rparr>) = started_by ks w"
  "started_by ks (w\<lparr>cached := g\<rparr>) = started_by ks w" "started_by ks (w\<lparr>client := h\<rparr>) = started_by ks w"
  "started_by ks (w\<lparr>ctl_stop := i\<rparr>) = started_by ks w" "started_by ks (w\<lparr>next_ping := j\<rparr>) = started_by ks w"
  by (simp_all add: started_by_def)

definition fresh_starts :: "'w control_world_scheme \<Rightarrow> bool" where
  "fresh_starts w \<longleftrightarrow> (\<exists>ks. started_by ks w) \<and> (\<forall>sr \<in> set (spawned w). sq_session_id sr \<noteq> [])"

lemma parse_start_request_id: "sq_error (parse_start_request p) = [] \<Longrightarrow> sq_session_id (parse_start_request p) \<noteq> []"
  by (auto simp: parse_start_request_def start_request_of_def Let_def split: prod.splits if_splits)

lemma keeps_fresh_start: "keeps fresh_starts (start_session (parse_start_request p))"
proof -
  have "fresh_starts w'" if "run_state (start_session (parse_start_request p)) w = (r, w')" and "fresh_starts w" for w r w'
  proof -
    from that(2) obtain ks where "started_by ks w" by (auto simp: fresh_starts_def)
    from start_session_step [OF this, of "parse_start_request p"] that(1) have
      "\<exists>ks. started_by ks w'" "set (spawned w') \<subseteq> insert (parse_start_request p) (set (spawned w))" by auto
    moreover from this(1) have "\<forall>sr \<in> set (spawned w'). servable sr" by (auto simp: started_by_def)
    ultimately show ?thesis using that(2) parse_start_request_id [of p]
      unfolding fresh_starts_def servable_def by blast
  qed
  then show ?thesis by (auto simp: keeps_def triple_def split: prod.split)
qed

lemma keeps_fresh_step: "keeps fresh_starts (control_step e)"
  unfolding control_step_def keep_alive_def control_message_def
  by (intro keeps_rules keeps_fresh_start; simp add: fresh_starts_def)

lemma keeps_fresh_loop: "fresh_starts w \<Longrightarrow> fresh_starts (snd (control_loop e w))"
proof (induction e w rule: control_loop.induct)
  case (1 e w)
  let ?w1 = "w\<lparr>ctl_stop := Suc (ctl_stop w)\<rparr>"
  obtain x w2 where w2: "run_state (control_step e) ?w1 = (x, w2)" by fastforce
  have i: "fresh_starts ?w1" using "1.prems" by (simp add: fresh_starts_def)
  then have i2: "fresh_starts w2" by (rule keeps_run [OF keeps_fresh_step _ w2])
  show ?case
  proof (cases "e_stop e (ctl_stop w)")
    case True
    with i show ?thesis by (simp add: control_loop.simps [of e w] control_stopped_def)
  next
    case False
    with "1.IH" [of _ ?w1 x w2] w2 i2 show ?thesis
      by (cases x) (simp_all add: control_loop.simps [of e w] control_stopped_def)
  qed
qed


lemma keeps_open_control:
  assumes "\<And>s. I s \<Longrightarrow> I (s\<lparr>at_clock := Suc (at_clock s)\<rparr>)"
    and "\<And>s. I s \<Longrightarrow> I (s\<lparr>at_random := Suc (at_random s)\<rparr>)"
    and "\<And>s. I s \<Longrightarrow> I (s\<lparr>at_peer := Suc (at_peer s)\<rparr>)"
    and "\<And>s ev. I s \<Longrightarrow> I (s\<lparr>trace := trace s @ [ev]\<rparr>)"
    and "\<And>s t x. I s \<Longrightarrow> I (s\<lparr>imds_token := t, imds_expires := x\<rparr>)"
    and "\<And>s c. I s \<Longrightarrow> I (s\<lparr>cached := c\<rparr>)"
    and "\<And>s c. I s \<Longrightarrow> I (s\<lparr>client := c\<rparr>)"
  shows "keeps I (open_control e opts)"
  unfolding open_control_def ws_upgrade_headers_def Let_def by (intro keeps_rules assms)

text \<open>
  C7: one run of the control channel, whatever the service sends and however it ends, starts no
  session twice, and only sessions of an interactive shell without encryption, with an identifier.
\<close>

theorem control_starts_once:
  assumes "run_state (run_control e opts) w = (r, w')" and "spawned w = []"
  shows "distinct (map sq_session_id (spawned w')) \<and>
    (\<forall>sr \<in> set (spawned w'). sq_session_id sr \<noteq> [] \<and> sq_error sr = [] \<and> sq_kms_key_id sr = [] \<and>
       (sq_session_type sr = [] \<or> sq_session_type sr = ''Standard_Stream''))"
proof -
  obtain opened w1 where w1: "run_state (open_control e opts) w = (opened, w1)" by fastforce
  have s1: "spawned w1 = []"
    by (rule keeps_run [OF keeps_open_control _ w1]) (use assms(2) in simp_all)
  have "fresh_starts (w1\<lparr>known_sessions := {}\<rparr>)"
    using s1 by (auto simp: fresh_starts_def started_by_def seen_sessions.run_def intro: exI [of _ "[]"])
  moreover have "keeps fresh_starts (serve_control e)"
    unfolding serve_control_def shut_down_def by (intro keeps_rules keeps_loop keeps_fresh_loop; simp add: fresh_starts_def)
  note k = keeps_run [OF this]
  have "opened \<Longrightarrow> run_state (serve_control e) (w1\<lparr>known_sessions := {}\<rparr>) = (r, w')"
    using assms(1) w1 by (simp add: run_control_def)
  ultimately have "opened \<Longrightarrow> fresh_starts w'" using k by blast
  moreover have "\<not> opened \<Longrightarrow> spawned w' = []"
    using assms(1) w1 s1 by (simp add: run_control_def)
  moreover have "distinct (map sq_session_id (spawned w'))" if "started_by ks w'" for ks
    using that seen_sessions.acted_once [of ks] by (simp add: started_by_def seen_sessions.acted_def)
  ultimately show ?thesis
    by (cases opened) (auto simp: fresh_starts_def started_by_def servable_def standard_stream_def)
qed

definition sample_control_env :: control_env where
  "sample_control_env = session_env.extend (env.extend channel_env
     \<lparr>e_stop = (\<lambda>i. False), e_spawn = Spawned, e_pid = 7, e_pty_reads = [], e_pty_writes = [], e_exit = Some 0\<rparr>)
     \<lparr>e_active = (\<lambda>i. 0)\<rparr>"

definition sample_control_world :: control_world where
  "sample_control_world = chan_world.extend (sample_chan_world new_client)
     \<lparr>ctl_stop = 0, next_ping = 0, known_sessions = {}, spawned = []\<rparr>"

theorem control_starts_once_witness:
  "\<exists>r w'. run_state (run_control sample_control_env sample_options) sample_control_world = (r, w') \<and>
     distinct (map sq_session_id (spawned w'))"
proof -
  obtain r w' where r: "run_state (run_control sample_control_env sample_options) sample_control_world = (r, w')" by fastforce
  have "spawned sample_control_world = []" by (simp add: sample_control_world_def chan_world.defs sample_chan_world_def)
  from control_starts_once [OF r this] r show ?thesis by blast
qed

definition request_for :: "string \<Rightarrow> string \<Rightarrow> start_request" where
  "request_for i kms = no_start_request\<lparr>sq_session_id := i, sq_kms_key_id := kms\<rparr>"

theorem sessions_started_first_witness:
  "\<exists>w'. run_state (start_sessions [request_for ''s1'' [], request_for ''s2'' ''key'', request_for ''s3'' [], request_for ''s1'' []])
      sample_control_world = ((), w') \<and> map sq_session_id (spawned w') = [''s1'', ''s3'']"
  using sessions_started_first [of sample_control_world
      "[request_for ''s1'' [], request_for ''s2'' ''key'', request_for ''s3'' [], request_for ''s1'' []]"]
  by (simp add: sample_control_world_def chan_world.defs sample_chan_world_def request_for_def no_start_request_def
      servable_def)

subsection \<open>Shutdown is bounded\<close>

lemma drain_sessions_returns:
  assumes "\<forall>j \<ge> n. deadline \<le> e_clock e j div 1000"
  shows "drain_sessions e deadline i c \<noteq> None"
proof (induction "n - c" arbitrary: i c)
  case 0
  then have "\<not> e_clock e c div 1000 < deadline" using assms by (simp add: not_less)
  then show ?case by (subst drain_sessions.simps) simp
next
  case (Suc d)
  have "drain_sessions e deadline (Suc i) (Suc c) \<noteq> None" using Suc.hyps(2) by (intro Suc.hyps(1)) simp
  then show ?case by (subst drain_sessions.simps) simp
qed



end
