(* ===== verification/Log.thy ===== *)
theory Log
  imports Util
begin

text \<open>
  The line log, \<open>src/src/log.h\<close> and \<open>src/src/log.cpp\<close>: levels in their order, the
  threshold, and where a line goes. The three global variables are a record; whether the log file
  can be opened is a parameter. The calls of the log in the rest of the program are left out of the
  other theories: they have no effect there.
\<close>

subsection \<open>Levels\<close>

datatype level = Debug | Info | Warn | Error

fun level_rank :: "level \<Rightarrow> nat" where
  "level_rank Debug = 0"
| "level_rank Info = 1"
| "level_rank Warn = 2"
| "level_rank Error = 3"

instantiation level :: linorder
begin

definition less_eq_level :: "level \<Rightarrow> level \<Rightarrow> bool" where
  "less_eq_level a b \<longleftrightarrow> level_rank a \<le> level_rank b"

definition less_level :: "level \<Rightarrow> level \<Rightarrow> bool" where
  "less_level a b \<longleftrightarrow> level_rank a < level_rank b"

instance
proof
  fix a b :: level
  assume "a \<le> b" "b \<le> a"
  then show "a = b" by (cases a; cases b) (simp_all add: less_eq_level_def)
qed (auto simp: less_eq_level_def less_level_def)

end

fun level_name :: "level \<Rightarrow> string" where
  "level_name Debug = ''DEBUG''"
| "level_name Info = ''INFO''"
| "level_name Warn = ''WARN''"
| "level_name Error = ''ERROR''"


subsection \<open>The log\<close>

record log_state =
  lg_path :: string
  lg_min :: level
  lg_stderr :: bool

definition log_start :: log_state where
  "log_start = \<lparr>lg_path = [], lg_min = Info, lg_stderr = True\<rparr>"

definition log_init :: "string \<Rightarrow> level \<Rightarrow> bool \<Rightarrow> log_state" where
  "log_init path min_level also_stderr =
     \<lparr>lg_path = path, lg_min = min_level, lg_stderr = also_stderr \<or> path = []\<rparr>"

datatype log_sink = To_file string | To_stderr

definition log_line :: "level \<Rightarrow> int \<Rightarrow> string \<Rightarrow> string" where
  "log_line level now msg = iso8601 now @ '' ['' @ level_name level @ ''] '' @ msg @ [CHR 0x0A]"

text \<open>What \<open>log\<close> writes, and where.\<close>

definition log_write :: "log_state \<Rightarrow> bool \<Rightarrow> int \<Rightarrow> level \<Rightarrow> string \<Rightarrow> (log_sink \<times> string) list" where
  "log_write st opens now level msg =
     (if level < lg_min st then []
      else let line = log_line level now msg in
        (if lg_path st \<noteq> []
         then (if opens then [(To_file (lg_path st), line)]
               else if \<not> lg_stderr st then [(To_stderr, line)] else [])
         else []) @
        (if lg_stderr st then [(To_stderr, line)] else []))"

text \<open>\<open>logf\<close> with the text its arguments would print: the buffer holds 4095 bytes of it.\<close>

definition logf_write :: "log_state \<Rightarrow> bool \<Rightarrow> int \<Rightarrow> level \<Rightarrow> string \<Rightarrow> (log_sink \<times> string) list" where
  "logf_write st opens now level text_of =
     (if level < lg_min st then [] else log_write st opens now level (cstr (take 4095 text_of)))"

text \<open>
  A message below the threshold is dropped. Any other goes out whole, at least once and never twice
  to the same place: to the file when there is one that opens, and to the standard error stream when
  that was asked for, when no file was named, or when the file cannot be opened.
\<close>

lemma log_never_silent:
  fixes path min_level also_stderr
  defines "st \<equiv> log_init path min_level also_stderr"
  shows "log_write st opens now level msg =
    (if level < min_level then []
     else map (\<lambda>s. (s, log_line level now msg))
       ((if path \<noteq> [] \<and> opens then [To_file path] else []) @
        (if also_stderr \<or> path = [] \<or> \<not> opens then [To_stderr] else [])))"
  by (simp add: st_def log_init_def log_write_def Let_def)

lemma log_kept_iff: "log_write (log_init path m also_stderr) opens now level msg = [] \<longleftrightarrow> level < m"
  by (auto simp: log_never_silent)

end
