(* ===== verification/Cli.thy ===== *)
theory Cli
  imports Agent_Order Control Selfupdate Timesync Log
begin

text \<open>
  The program itself, \<open>main\<close> of \<open>src/src/main.cpp\<close>: the command line, the subcommands, the
  way to a running daemon, and what its threads do in each turn. \<open>printf\<close>, the log and the
  sleeping are left out; an exit is its status.

  The environment has the result of \<open>uname\<close>, the status of \<open>system\<close> and the values of
  \<open>rand_r\<close> in addition.
\<close>

record cli_env = session_env +
  e_uname :: "(string \<times> string \<times> string) option"
  e_system :: "string \<Rightarrow> int"

definition default_log_path :: string where "default_log_path = ''/var/log/haiku-mgmt-agent.log''"
definition launch_job :: string where "launch_job = ''x-vnd.haiku-mgmt-agent''"
definition default_binary_path :: string where
  "default_binary_path = ''/boot/system/non-packaged/bin/haiku-mgmt-agent''"
definition health_interval :: int where "health_interval = 300"
definition update_interval :: int where "update_interval = 3600"
definition max_clock_drift :: int where "max_clock_drift = 60"
definition identity_attempts :: nat where "identity_attempts = 20"
definition identity_retry_seconds :: nat where "identity_retry_seconds = 6"

subsection \<open>Options\<close>

record main_options =
  opt_log_path :: string
  opt_level :: level
  opt_foreground :: bool
  opt_ping_once :: bool
  opt_poll_once :: bool
  opt_time_sync :: bool
  opt_session_manager :: bool
  opt_update_manifest :: string
  opt_binary_path :: string

definition default_options :: main_options where
  "default_options = \<lparr>opt_log_path = default_log_path, opt_level = Info, opt_foreground = False,
     opt_ping_once = False, opt_poll_once = False, opt_time_sync = True, opt_session_manager = True,
     opt_update_manifest = [], opt_binary_path = default_binary_path\<rparr>"

definition level_of :: "string \<Rightarrow> level" where
  "level_of l = (if l = ''debug'' then Debug else if l = ''warn'' then Warn
     else if l = ''error'' then Error else Info)"

datatype parsed_args = Help | Show_version | Bad_argument string | Run main_options

definition set_flag :: "string \<Rightarrow> (main_options \<Rightarrow> main_options) option" where
  "set_flag a =
     (if a = ''--foreground'' then Some (\<lambda>opt. opt\<lparr>opt_foreground := True\<rparr>)
      else if a = ''--ping-once'' then Some (\<lambda>opt. opt\<lparr>opt_ping_once := True, opt_foreground := True\<rparr>)
      else if a = ''--poll-once'' then Some (\<lambda>opt. opt\<lparr>opt_poll_once := True, opt_foreground := True\<rparr>)
      else if a = ''--no-time-sync'' then Some (\<lambda>opt. opt\<lparr>opt_time_sync := False\<rparr>)
      else if a = ''--no-session-manager'' then Some (\<lambda>opt. opt\<lparr>opt_session_manager := False\<rparr>)
      else None)"

definition set_value :: "string \<Rightarrow> (string \<Rightarrow> main_options \<Rightarrow> main_options) option" where
  "set_value a =
     (if a = ''--update-manifest'' then Some (\<lambda>v opt. opt\<lparr>opt_update_manifest := v\<rparr>)
      else if a = ''--binary-path'' then Some (\<lambda>v opt. opt\<lparr>opt_binary_path := v\<rparr>)
      else if a = ''--log-file'' then Some (\<lambda>v opt. opt\<lparr>opt_log_path := v\<rparr>)
      else if a = ''--log-level'' then Some (\<lambda>v opt. opt\<lparr>opt_level := level_of v\<rparr>)
      else None)"

fun parse_args :: "string list \<Rightarrow> main_options \<Rightarrow> parsed_args" where
  "parse_args [] opt = Run opt"
| "parse_args (a # as) opt =
     (if a = ''--help'' \<or> a = ''-h'' then Help
      else if a = ''--version'' then Show_version
      else case set_flag a of
        Some f \<Rightarrow> parse_args as (f opt)
      | None \<Rightarrow>
          (case (set_value a, as) of
             (Some f, v # as') \<Rightarrow> parse_args as' (f v opt)
           | _ \<Rightarrow> Bad_argument a))"

subsection \<open>Waiting\<close>

text \<open>\<open>for (s = 0; s < n && !g_stop; s++) sleep(1)\<close>.\<close>

fun pause :: "'e session_env_scheme \<Rightarrow> nat \<Rightarrow> ('w agent_world_scheme, unit) state" where
  "pause e 0 = ret ()"
| "pause e (Suc n) = do {
     stop \<leftarrow> agent_stopped e;
     if stop then ret () else pause e n }"

subsection \<open>Subcommands\<close>

text \<open>What \<open>main\<close> ends with: a status, a command that never returns, or the threads of the daemon.\<close>

datatype main_end = Exits int | Hangs | Serves

definition cli_bootstrap :: "'e env_scheme \<Rightarrow> ('w agent_world_scheme, bool) state" where
  "cli_bootstrap e = do {
     ensure_clock e True max_clock_drift;
     i \<leftarrow> imds_identity e;
     modify (\<lambda>w. w\<lparr>ag_id := i\<rparr>);
     ret (identity_valid i) }"

text \<open>The arguments of a subcommand are those after its name.\<close>

definition cmd_s3 :: "'e env_scheme \<Rightarrow> string list \<Rightarrow> ('w agent_world_scheme, main_end) state" where
  "cmd_s3 e args =
     (case args of
        [cp, src, dst] \<Rightarrow>
          if cp \<noteq> ''cp'' \<or> (s3_parse_uri src = None \<longleftrightarrow> s3_parse_uri dst = None) then ret (Exits 2)
          else do {
            ok \<leftarrow> cli_bootstrap e;
            if \<not> ok then ret (Exits 1)
            else do {
              _ \<leftarrow> now_ms e;
              i \<leftarrow> gets ag_id;
              r \<leftarrow> (case s3_parse_uri src of
                      Some (bucket, key) \<Rightarrow> s3_get e (id_region i) bucket key dst
                    | None \<Rightarrow>
                        (case s3_parse_uri dst of
                           Some (bucket, key) \<Rightarrow> s3_put e (id_region i) bucket key src [] []
                         | None \<Rightarrow> ret new_response));
              _ \<leftarrow> now_ms e;
              ret (Exits (if resp_ok r then 0 else 1)) } }
      | _ \<Rightarrow> ret (Exits 2))"

text \<open>The operation and whether to report; an empty operation is a usage error.\<close>

fun patch_args :: "string list \<Rightarrow> string \<Rightarrow> bool \<Rightarrow> string \<times> bool" where
  "patch_args [] operation report = (operation, report)"
| "patch_args (a # as) operation report =
     (if a = ''--no-report'' then patch_args as operation False
      else if operation = [] \<and> (a = ''scan'' \<or> a = ''install'') then patch_args as a report
      else ([], report))"

definition cmd_patch :: "'e env_scheme \<Rightarrow> string list \<Rightarrow> ('w agent_world_scheme, main_end) state" where
  "cmd_patch e args =
     (case patch_args args [] True of (operation, report) \<Rightarrow>
        if operation = [] then ret (Exits 2)
        else do {
          ok \<leftarrow> cli_bootstrap e;
          if \<not> ok then ret (Exits 1)
          else do {
            i \<leftarrow> gets ag_id;
            u \<leftarrow> new_uuid e;
            out \<leftarrow> run_baseline e \<lparr>pc_has_creds = True, pc_region = id_region i, pc_instance_id = id_instance_id i,
                pc_command_id = u, pc_cancel = False, pc_report_inventory = report\<rparr>
              (mk_obj [(''Operation'', VString operation), (''RebootOption'', VString ''NoReboot'')]);
            ret (case out of
                   None \<Rightarrow> Hangs
                 | Some out \<Rightarrow> Exits (if do_status out = ''Success'' then 0 else 1)) } })"

text \<open>Manifest, binary and restart flag; \<open>None\<close> is an unknown argument.\<close>

fun update_args :: "string list \<Rightarrow> string \<times> string \<times> bool \<Rightarrow> (string \<times> string \<times> bool) option" where
  "update_args [] opt = Some opt"
| "update_args (a # as) (manifest, binary, restart) =
     (case (a = ''--manifest'', a = ''--binary-path'', as) of
        (True, _, v # as') \<Rightarrow> update_args as' (v, binary, restart)
      | (_, True, v # as') \<Rightarrow> update_args as' (manifest, v, restart)
      | _ \<Rightarrow> if a = ''--restart'' then update_args as (manifest, binary, True) else None)"

definition restart_command :: string where
  "restart_command = ''launch_roster restart '' @ launch_job"

definition cmd_self_update :: "'e cli_env_scheme \<Rightarrow> string list \<Rightarrow> ('w agent_world_scheme, main_end) state" where
  "cmd_self_update e args =
     (case update_args args ([], default_binary_path, False) of
        None \<Rightarrow> ret (Exits 2)
      | Some (manifest, binary, restart) \<Rightarrow>
          if manifest = [] then ret (Exits 2)
          else do {
            ok \<leftarrow> cli_bootstrap e;
            if \<not> ok then ret (Exits 1)
            else do {
              i \<leftarrow> gets ag_id;
              r \<leftarrow> check_and_apply e (id_region i) manifest agent_version binary;
              case r of
                None \<Rightarrow> ret Hangs
              | Some (UpToDate, _) \<Rightarrow> ret (Exits 0)
              | Some (UpdateError, _) \<Rightarrow> ret (Exits 1)
              | Some (Updated, _) \<Rightarrow>
                  if restart then do {
                    emit (EvSystem restart_command);
                    ret (Exits (if e_system e restart_command = 0 then 0 else 1)) }
                  else ret (Exits 0) } })"

subsection \<open>Starting the daemon\<close>

definition detect_platform :: "(string \<times> string \<times> string) option \<Rightarrow> string \<times> string" where
  "detect_platform u =
     (case u of
        None \<Rightarrow> (''Haiku'', ''unknown'')
      | Some (sysname, version, release) \<Rightarrow>
          let v = takeWhile (\<lambda>c. c \<noteq> CHR '' '') version
          in (if sysname \<noteq> [] then sysname else ''Haiku'', if v = [] then release else v))"

text \<open>The attempts to learn the identity, each after a look at the clock.\<close>

fun identify :: "'e session_env_scheme \<Rightarrow> bool \<Rightarrow> nat \<Rightarrow> ('w agent_world_scheme, bool) state" where
  "identify e time_sync 0 = ret False"
| "identify e time_sync (Suc n) = do {
     stop \<leftarrow> agent_stopped e;
     if stop then ret False
     else do {
       ensure_clock e time_sync max_clock_drift;
       i \<leftarrow> imds_identity e;
       modify (\<lambda>w. w\<lparr>ag_id := i\<rparr>);
       if identity_valid i then ret True
       else do { pause e identity_retry_seconds; identify e time_sync n } } }"

text \<open>
  From the options to the threads. With \<open>--poll-once\<close> the program then waits up to 15 seconds for
  its workers, which are other threads (\<open>flight_drained\<close> is what it waits for).
\<close>

definition start_daemon :: "'e cli_env_scheme \<Rightarrow> main_options \<Rightarrow> ('w agent_world_scheme, main_end) state" where
  "start_daemon e opt = do {
     identified \<leftarrow> identify e (opt_time_sync opt) identity_attempts;
     if \<not> identified then ret (Exits 1)
     else do {
       let (name, version) = detect_platform (e_uname e);
       modify (\<lambda>w. w\<lparr>ag_info := \<lparr>ai_name = agent_name, ai_version = agent_version, ai_lang = ''en-US'',
         ai_os = name, ai_os_ver = version\<rparr>\<rparr>);
       if opt_ping_once opt then do {
         ok \<leftarrow> health_ping e name version;
         ret (Exits (if ok then 0 else 1)) }
       else do {
         health_ping e name version;
         if opt_poll_once opt then do { poll_once e; ret (Exits 0) } else ret Serves } } }"

definition run_main :: "'e cli_env_scheme \<Rightarrow> string list \<Rightarrow> ('w agent_world_scheme, main_end) state" where
  "run_main e args =
     (case args of
        cmd # rest \<Rightarrow>
          if cmd = ''s3'' then cmd_s3 e rest
          else if cmd = ''patch'' then cmd_patch e rest
          else if cmd = ''self-update'' then cmd_self_update e rest
          else (case parse_args args default_options of
              Help \<Rightarrow> ret (Exits 0)
            | Show_version \<Rightarrow> ret (Exits 0)
            | Bad_argument _ \<Rightarrow> ret (Exits 2)
            | Run opt \<Rightarrow> start_daemon e opt)
      | [] \<Rightarrow> start_daemon e default_options)"


subsection \<open>The threads of the daemon\<close>

text \<open>When the health thread pings first, and when the update thread looks first.\<close>

definition health_start :: "'e env_scheme \<Rightarrow> ('w agent_world_scheme, int) state" where
  "health_start e = do { now \<leftarrow> now_s e; ret (now + health_interval) }"

definition update_start :: "'e env_scheme \<Rightarrow> ('w agent_world_scheme, int) state" where
  "update_start e = do { now \<leftarrow> now_s e; ret (now + 60) }"

text \<open>A turn of the health thread, with the time of its next ping.\<close>

definition health_turn ::
    "'e env_scheme \<Rightarrow> bool \<Rightarrow> string \<Rightarrow> string \<Rightarrow> int \<Rightarrow> ('w agent_world_scheme, int) state" where
  "health_turn e time_sync name version due = do {
     now \<leftarrow> now_s e;
     if now < due then ret due
     else do {
       ensure_clock e time_sync max_clock_drift;
       health_ping e name version;
       now2 \<leftarrow> now_s e;
       ret (now2 + health_interval) } }"

definition scheduled_restart :: string where
  "scheduled_restart = ''(sleep 2; launch_roster restart '' @ launch_job @ '') >/dev/null 2>&1 &''"

text \<open>A turn of the update thread; \<open>None\<close> when an installing command never returns.\<close>

definition update_turn ::
    "'e env_scheme \<Rightarrow> main_options \<Rightarrow> int \<Rightarrow> ('w agent_world_scheme, int option) state" where
  "update_turn e opt due = do {
     now \<leftarrow> now_s e;
     if now < due then ret (Some due)
     else do {
       i \<leftarrow> gets ag_id;
       r \<leftarrow> check_and_apply e (id_region i) (opt_update_manifest opt) agent_version (opt_binary_path opt);
       case r of
         None \<Rightarrow> ret None
       | Some (outcome, _) \<Rightarrow> do {
           (if outcome = Updated then emit (EvSystem scheduled_restart) else ret ());
           now2 \<leftarrow> now_s e;
           ret (Some (now2 + update_interval)) } } }"

text \<open>How long the session thread waits after a control channel, and what it would wait next.\<close>

definition session_wait :: "bool \<Rightarrow> nat \<Rightarrow> nat" where
  "session_wait ok backoff = (if ok then 2 else backoff)"

definition next_backoff :: "bool \<Rightarrow> nat \<Rightarrow> nat" where
  "next_backoff ok backoff = (if ok then 2 else min (backoff * 2) 60)"

datatype turn_end = Again nat | Stops | Aborts | Waits_forever

fun control_pause :: "'e session_env_scheme \<Rightarrow> nat \<Rightarrow> ('w control_world_scheme, unit) state" where
  "control_pause e 0 = ret ()"
| "control_pause e (Suc n) = do {
     stop \<leftarrow> control_stopped e;
     if stop then ret () else control_pause e n }"

text \<open>A turn of the session thread.\<close>

definition session_turn ::
    "'e control_env_scheme \<Rightarrow> session_options \<Rightarrow> bool \<Rightarrow> nat \<Rightarrow> ('w control_world_scheme, turn_end) state" where
  "session_turn e sopt time_sync backoff = do {
     stop \<leftarrow> control_stopped e;
     if stop then ret Stops
     else do {
       ensure_clock e time_sync max_clock_drift;
       r \<leftarrow> run_control e sopt;
       case r of
         None \<Rightarrow> ret Waits_forever
       | Some x \<Rightarrow>
           (case x of
              Closed ok \<Rightarrow> do {
                stop \<leftarrow> control_stopped e;
                if stop then ret Stops
                else do {
                  control_pause e (session_wait ok backoff);
                  ret (Again (next_backoff ok backoff)) } }
            | _ \<Rightarrow> ret Aborts) } }"

text \<open>
  The pause after a poll that took \<open>elapsed\<close> milliseconds, in milliseconds, with the value of
  \<open>rand_r\<close>.
\<close>

definition poll_delay :: "int \<Rightarrow> int \<Rightarrow> int" where
  "poll_delay elapsed r = (if elapsed < 1000 then 2000 + r mod 500 else 0)"

text \<open>The first \<open>n\<close> turns of the poll loop, with the pauses made between them.\<close>

fun poll_loop ::
    "'e session_env_scheme \<Rightarrow> (nat \<Rightarrow> int) \<Rightarrow> nat \<Rightarrow> ('w agent_world_scheme, (int \<times> int) list) state" where
  "poll_loop e rand 0 = ret []"
| "poll_loop e rand (Suc n) = do {
     stop \<leftarrow> agent_stopped e;
     if stop then ret []
     else do {
       elapsed \<leftarrow> poll_once e;
       stop \<leftarrow> agent_stopped e;
       if stop then ret []
       else do {
         pauses \<leftarrow> poll_loop e (\<lambda>i. rand (Suc i)) n;
         ret ((elapsed, poll_delay elapsed (rand 0)) # pauses) } } }"


text \<open>After the poll loop: every command is cancelled; whether there is none left to wait for.\<close>

definition stop_daemon :: "('w agent_world_scheme, bool) state" where
  "stop_daemon = do {
     modify (\<lambda>w. w\<lparr>ag_inflight := flight_cancel_all (ag_inflight w)\<rparr>);
     f \<leftarrow> gets ag_inflight;
     ret (flight_drained f) }"


subsection \<open>Reconnecting\<close>

text \<open>The waits after a sequence of control channels, given how each ended.\<close>

fun session_waits :: "bool list \<Rightarrow> nat \<Rightarrow> nat list" where
  "session_waits [] backoff = []"
| "session_waits (ok # oks) backoff = session_wait ok backoff # session_waits oks (next_backoff ok backoff)"

lemma session_waits_append:
  "session_waits (xs @ ys) b = session_waits xs b @ session_waits ys (fold next_backoff xs b)"
  by (induction xs arbitrary: b) auto

lemma length_session_waits [simp]: "length (session_waits oks b) = length oks"
  by (induction oks arbitrary: b) auto

lemma session_waits_failures:
  "session_waits (replicate n False) (min (2 ^ Suc k) 60) = map (\<lambda>i. min (2 ^ Suc (k + i)) 60) [0..<n]"
proof (induction n arbitrary: k)
  case (Suc n)
  have "next_backoff False (min (2 ^ Suc k) 60) = min (2 ^ Suc (Suc k)) 60"
    by (simp add: next_backoff_def)
  moreover have "[0..<Suc n] = 0 # map Suc [0..<n]"
    by (simp only: upt_conv_Cons map_Suc_upt zero_less_Suc)
  ultimately show ?case using Suc [of "Suc k"]
    by (simp add: session_wait_def comp_def del: upt_Suc map_Suc_upt power_Suc)
qed simp

lemma session_waits_bounds:
  "2 \<le> b \<Longrightarrow> b \<le> 60 \<Longrightarrow> \<forall>n \<in> set (session_waits oks b). 2 \<le> n \<and> n \<le> 60"
proof (induction oks arbitrary: b)
  case (Cons ok oks)
  from Cons.prems have "2 \<le> next_backoff ok b" "next_backoff ok b \<le> 60" by (simp_all add: next_backoff_def)
  with Cons.IH [OF this] Cons.prems show ?case by (simp add: session_wait_def)
qed simp

text \<open>
  C40: after a control channel that ended well, or at the start, \<open>n\<close> failures in a row are waited
  for 2, 4, 8, 16, 32 and then always 60 seconds, and the next channel that ends well only 2; no wait
  is shorter than 2 or longer than 60 seconds.
\<close>

theorem reconnect_backoff:
  assumes "xs = [] \<or> last xs"
  shows "session_waits (xs @ replicate n False @ [True]) 2 =
      session_waits xs 2 @ map (\<lambda>i. min (2 ^ Suc i) 60) [0..<n] @ [2] \<and>
    (\<forall>t \<in> set (session_waits oks 2). 2 \<le> t \<and> t \<le> 60)"
proof -
  have "fold next_backoff xs 2 = 2"
    using assms by (cases xs rule: rev_cases) (auto simp: next_backoff_def)
  then show ?thesis
    using session_waits_failures [of n 0] session_waits_bounds [of 2 oks]
    by (simp add: session_waits_append session_wait_def)
qed

theorem reconnect_backoff_witness:
  "session_waits [False, True, False, False, False, False, False, False, False, True] 2 = [2, 2, 2, 4, 8, 16, 32, 60, 60, 2]"
  using reconnect_backoff [of "[False, True]" 7 "[]"]
  by (simp add: session_wait_def next_backoff_def eval_nat_numeral upt_rec)


subsection \<open>The command line\<close>

text \<open>The command line that sets given options.\<close>

fun level_arg :: "level \<Rightarrow> string" where
  "level_arg Debug = ''debug''"
| "level_arg Info = ''info''"
| "level_arg Warn = ''warn''"
| "level_arg Error = ''error''"

definition flag :: "bool \<Rightarrow> string \<Rightarrow> string list" where
  "flag b a = (if b then [a] else [])"

definition render_args :: "main_options \<Rightarrow> string list" where
  "render_args opt =
     flag (opt_foreground opt) ''--foreground'' @ flag (opt_ping_once opt) ''--ping-once'' @
     flag (opt_poll_once opt) ''--poll-once'' @ flag (\<not> opt_time_sync opt) ''--no-time-sync'' @
     flag (\<not> opt_session_manager opt) ''--no-session-manager'' @
     [''--update-manifest'', opt_update_manifest opt, ''--binary-path'', opt_binary_path opt,
      ''--log-file'', opt_log_path opt, ''--log-level'', level_arg (opt_level opt)]"

lemma level_of_arg: "level_of (level_arg l) = l"
  by (cases l) (simp_all add: level_of_def)

lemma parse_flags:
  "parse_args (flag b ''--foreground'' @ as) opt = parse_args as (if b then opt\<lparr>opt_foreground := True\<rparr> else opt)"
  "parse_args (flag b ''--ping-once'' @ as) opt =
     parse_args as (if b then opt\<lparr>opt_ping_once := True, opt_foreground := True\<rparr> else opt)"
  "parse_args (flag b ''--poll-once'' @ as) opt =
     parse_args as (if b then opt\<lparr>opt_poll_once := True, opt_foreground := True\<rparr> else opt)"
  "parse_args (flag b ''--no-time-sync'' @ as) opt = parse_args as (if b then opt\<lparr>opt_time_sync := False\<rparr> else opt)"
  "parse_args (flag b ''--no-session-manager'' @ as) opt =
     parse_args as (if b then opt\<lparr>opt_session_manager := False\<rparr> else opt)"
  by (simp_all add: flag_def set_flag_def)

lemma parse_values:
  "parse_args (''--update-manifest'' # v # as) opt = parse_args as (opt\<lparr>opt_update_manifest := v\<rparr>)"
  "parse_args (''--binary-path'' # v # as) opt = parse_args as (opt\<lparr>opt_binary_path := v\<rparr>)"
  "parse_args (''--log-file'' # v # as) opt = parse_args as (opt\<lparr>opt_log_path := v\<rparr>)"
  "parse_args (''--log-level'' # v # as) opt = parse_args as (opt\<lparr>opt_level := level_of v\<rparr>)"
  by (simp_all add: set_flag_def set_value_def)

text \<open>
  C39: every setting of the options that a command line can ask for (the two one-shot modes log to the
  foreground) is what the parser makes of the command line that spells it out.
\<close>

theorem options_roundtrip:
  assumes "opt_ping_once opt \<or> opt_poll_once opt \<longrightarrow> opt_foreground opt"
  shows "parse_args (render_args opt) default_options = Run opt"
  unfolding render_args_def parse_flags parse_values parse_args.simps(1)
  using assms by (cases opt) (simp add: default_options_def level_of_arg)

theorem options_roundtrip_witness:
  "parse_args (render_args (default_options\<lparr>opt_ping_once := True, opt_foreground := True\<rparr>)) default_options =
     Run (default_options\<lparr>opt_ping_once := True, opt_foreground := True\<rparr>)"
  using options_roundtrip [of "default_options\<lparr>opt_ping_once := True, opt_foreground := True\<rparr>"] by simp

text \<open>Either a usage error at once, or no usage error.\<close>

definition usage_first :: "('s, main_end) state \<Rightarrow> bool" where
  "usage_first m \<longleftrightarrow> m = ret (Exits 2) \<or> yields (\<lambda>r. r \<noteq> Exits 2) m"

lemma yields_case_prod [yields_rules]:
  "(\<And>a b. x = (a, b) \<Longrightarrow> yields Q (f a b)) \<Longrightarrow> yields Q (case x of (a, b) \<Rightarrow> f a b)"
  by (cases x) simp

lemma usage_first_now: "usage_first (ret (Exits 2))"
  by (simp add: usage_first_def)

lemma usage_first_later: "yields (\<lambda>r. r \<noteq> Exits 2) m \<Longrightarrow> usage_first m"
  by (simp add: usage_first_def)

lemma usage_first_s3: "usage_first (cmd_s3 e args)"
  unfolding cmd_s3_def
  by (auto split: list.split if_splits intro!: usage_first_now usage_first_later yields_rules)

lemma usage_first_patch: "usage_first (cmd_patch e args)"
  unfolding cmd_patch_def
  by (auto split: prod.split option.splits if_splits intro!: usage_first_now usage_first_later yields_rules)

lemma usage_first_update: "usage_first (cmd_self_update e args)"
  unfolding cmd_self_update_def
  by (auto split: prod.split option.split update_outcome.split intro!: usage_first_now usage_first_later yields_rules)

lemma usage_first_daemon: "usage_first (start_daemon e opt)"
  unfolding start_daemon_def Let_def
  by (intro usage_first_later yields_rules) simp_all

text \<open>
  C38: when the program ends with status 2, a usage error, it has done nothing: no request was sent,
  no command run, no file or clock touched, whatever the subcommand.
\<close>

theorem usage_error_does_nothing:
  assumes "run_state (run_main e args) w = (Exits 2, w')"
  shows "w' = w"
proof -
  have "usage_first (run_main e args)"
    unfolding run_main_def
    by (auto split: list.split parsed_args.split intro!: usage_first_s3 usage_first_patch usage_first_update
        usage_first_daemon usage_first_now usage_first_later yields_rules)
  then show ?thesis
    using assms by (auto simp: usage_first_def dest: yieldsD)
qed


definition sample_cli_env :: cli_env where
  "sample_cli_env = session_env.extend sample_agent_env \<lparr>e_uname = None, e_system = (\<lambda>c. 0)\<rparr>"

theorem usage_error_does_nothing_witness:
  "run_state (run_main sample_cli_env [''patch'', ''upgrade'']) sample_agent_world = (Exits 2, sample_agent_world)"
proof -
  obtain w' where r: "run_state (run_main sample_cli_env [''patch'', ''upgrade'']) sample_agent_world = (Exits 2, w')"
    by (simp add: run_main_def cmd_patch_def)
  with usage_error_does_nothing [OF r] show ?thesis by simp
qed


subsection \<open>No call before the identity is known\<close>

lemma acts_stop [simp]: "acts (w\<lparr>ag_stop := n\<rparr>) = acts w" "acts (w\<lparr>ag_id := i\<rparr>) = acts w"
  by (simp_all add: acts_def)

lemma emits_ensure_clock: "emits [] (ensure_clock e allow d)"
proof (rule emits_nothing)
  show "keeps (\<lambda>w. acts w = x) (ensure_clock e allow d)" for x
    unfolding ensure_clock_def server_time_def Let_def
    by (intro keeps_rules) (simp_all add: token_request_plain)
qed

lemma emits_imds_identity: "emits [] (imds_identity e)"
proof (rule emits_nothing)
  show "keeps (\<lambda>w. acts w = x) (imds_identity e)" for x
    unfolding imds_identity_def by (intro keeps_rules) simp_all
qed

lemma emits_stopped: "emits [] (agent_stopped e)"
  by (rule emits_nothing) (auto simp: agent_stopped_def keeps_def triple_def)

lemma emits_set_id: "emits [] (modify (\<lambda>w. w\<lparr>ag_id := i\<rparr>))"
  by (rule emits_nothing) (simp add: keeps_def triple_def)

lemma emits_pause: "emits [] (pause e n)"
  by (induction n) (auto intro!: emits_ret emits_pass emits_stopped)

lemma emits_identify: "emits [] (identify e sync n)"
  by (induction n)
    (auto intro!: emits_ret emits_pass emits_stopped emits_ensure_clock emits_imds_identity emits_set_id emits_pause)

lemma identify_valid:
  "run_state (identify e sync n) w = (True, w') \<Longrightarrow> identity_valid (ag_id w')"
proof (induction n arbitrary: w)
  case (Suc n)
  obtain stop w1 where w1: "run_state (agent_stopped e) w = (stop, w1)" by fastforce
  obtain s w2 where w2: "run_state (ensure_clock e sync max_clock_drift) w1 = (s, w2)" by fastforce
  obtain i w3 where w3: "run_state (imds_identity e) w2 = (i, w3)" by fastforce
  show ?case
  proof (cases "identity_valid i")
    case False
    obtain w4 where w4: "run_state (pause e identity_retry_seconds) (w3\<lparr>ag_id := i\<rparr>) = ((), w4)"
      by (cases "run_state (pause e identity_retry_seconds) (w3\<lparr>ag_id := i\<rparr>)") auto
    with False Suc.prems w1 w2 w3 have "run_state (identify e sync n) w4 = (True, w')" by (auto split: if_splits)
    then show ?thesis by (rule Suc.IH)
  qed (use Suc.prems w1 w2 w3 in \<open>auto split: if_splits\<close>)
qed simp

text \<open>
  C12: the daemon asks for its identity at most twenty times and before anything else; until it has
  one it calls no service and runs no command, and if it never gets one the program ends with status
  1 and has done neither. The threads run only with a valid identity.
\<close>

theorem no_identity_no_calls:
  assumes run: "run_state (start_daemon e opt) w = (r, w')"
  shows "\<exists>b v. run_state (identify e (opt_time_sync opt) 20) w = (b, v) \<and> acts v = acts w \<and>
    (\<not> b \<longrightarrow> r = Exits 1 \<and> w' = v) \<and> (b \<longrightarrow> identity_valid (ag_id v)) \<and>
    (r = Serves \<longrightarrow> identity_valid (ag_id w'))"
proof -
  obtain b v where v: "run_state (identify e (opt_time_sync opt) 20) w = (b, v)" by fastforce
  have same: "acts v = acts w"
    using addsD [OF emits_identify [unfolded emits_def] v] by (auto elim: follows.elims)
  show ?thesis
  proof (cases b)
    case False
    with run v have "r = Exits 1" "w' = v" by (auto simp: start_daemon_def identity_attempts_def)
    with v same False show ?thesis by auto
  next
    case True
    have valid: "identity_valid (ag_id v)" using identify_valid [of e "opt_time_sync opt" 20 w v] v True by auto
    have "blind (\<lambda>s. identity_valid (ag_id s))" by (simp add: blind_def)
    note keep = keeps_health_ping [OF this]
    obtain name version where p: "detect_platform (e_uname e) = (name, version)" by fastforce
    let ?v = "v\<lparr>ag_info := \<lparr>ai_name = agent_name, ai_version = agent_version, ai_lang = ''en-US'',
         ai_os = name, ai_os_ver = version\<rparr>\<rparr>"
    obtain ok u where u: "run_state (health_ping e name version) ?v = (ok, u)" by fastforce
    have "identity_valid (ag_id u)" by (rule keeps_run [OF keep _ u]) (simp add: valid)
    moreover have "r = Serves \<Longrightarrow> w' = u"
      using run v True u by (auto simp: start_daemon_def identity_attempts_def p split: if_splits prod.splits)
    ultimately show ?thesis using v same valid True by auto
  qed
qed


theorem no_identity_no_calls_witness:
  "\<exists>r w' b v. run_state (start_daemon sample_cli_env default_options) sample_agent_world = (r, w') \<and>
     run_state (identify sample_cli_env True 20) sample_agent_world = (b, v) \<and> acts v = [] \<and> (b \<or> r = Exits 1)"
proof -
  obtain r w' where r: "run_state (start_daemon sample_cli_env default_options) sample_agent_world = (r, w')" by fastforce
  have "acts sample_agent_world = []" by (simp add: acts_def sample_agent_world_def agent_world.defs)
  with no_identity_no_calls [OF r] r show ?thesis by (auto simp: default_options_def)
qed

end
