(* ===== verification/Spec2Isabelle.thy ===== *)
theory Spec2Isabelle
  imports Json Mgs Http Transport Websocket World Runner Outbox S3 Timesync Selfupdate Patch Session_Facts Cli
begin

text \<open>
  A model of haiku-mgmt-agent, the management agent for Haiku machines on EC2 (\<open>src/src/\<close>, C++),
  with the theorems that make it correct. All files named below are under \<open>src/src/\<close>.

  \<^bold>\<open>The program.\<close> The agent makes a machine manageable by AWS Systems Manager. Its poll loop
  asks the message delivery service for commands; every command runs on a thread of its own and is
  reported with one reply. A second connection, to the message gateway service, carries interactive
  shell sessions. Around these it keeps credentials fresh from the metadata service, keeps the clock
  right, moves files from and to S3, applies packages, and updates itself.

  \<^bold>\<open>The world.\<close> Everything outside the agent is an environment, a record of functions
  (\<open>World\<close>, extended in \<open>Session\<close>, \<open>Control\<close> and \<open>Cli\<close>): the n-th reading of the clock,
  the n-th HTTP peer, the n-th child process, the digests of mbedTLS, the results of system calls.
  Theorems quantify over it. A program is a computation of the state monad over a record that holds
  the counters, the trace of the effects, and the state of its component; the record of a component
  extends that of the components it uses. Errors are options, sums and datatypes of their own; a C++
  exception and a call that never returns are results too. Integers the code lets wrap are words;
  others are integers whose range the code keeps.

  \<^bold>\<open>Theories and sources.\<close>
  \<^item> \<open>Prelude\<close>, \<open>Cstd\<close>, \<open>Double\<close>: bytes, strings, \<open>std::map\<close> as sorted list, the C library
    calls, binary64. No code of the repository.
  \<^item> \<open>Util\<close> (\<open>util.cpp\<close>): encodings, time stamps, UUIDs, version comparison. Each encoding is
    proved against a decoder.
  \<^item> \<open>Json\<close> (\<open>json.cpp\<close>): \<open>p_value\<close> is the recursive descent parser with its error offsets,
    \<open>json_dump\<close> the serializer. The fuel \<open>2 * length text + 1\<close> is enough because a byte is
    consumed at least every second call (\<open>p_value_fuel\<close>); what is parsed is well typed, what is
    printed is parsed back.
  \<^item> \<open>Mgs\<close> (\<open>mgs.cpp\<close>): the binary frame of the gateway service; locale \<open>field_code\<close> for its
    big-endian fields.
  \<^item> \<open>Http\<close>, \<open>Transport\<close> (\<open>http.cpp\<close>): \<open>Http\<close> is the client over an abstract peer: request,
    header parser, three kinds of body. \<open>Transport\<close> is below it: the loops around the system calls
    and mbedTLS; locale \<open>transport\<close> is \<open>struct Transport\<close>, both transports implement it, and they
    refine the peer.
  \<^item> \<open>Websocket\<close>, \<open>Channel\<close> (\<open>websocket.cpp\<close>, the stream of \<open>http.cpp\<close>, the channel request of
    \<open>mgs.cpp\<close>): frames (locale \<open>framing\<close>); the client that connects, sends, and puts fragments
    together.
  \<^item> \<open>Exec\<close> (\<open>exec.cpp\<close>): \<open>run_shell\<close> as an iterated step over what \<open>poll\<close>, \<open>read\<close>, \<open>waitpid\<close>
    and the clock return: capture, deadlines, signals. A \<open>partial_function\<close>; it returns if the clock
    goes on.
  \<^item> \<open>Runner\<close> (\<open>runner.cpp\<close>): documents, placeholders, steps, truncation, the reply.
  \<^item> \<open>Aws\<close> (\<open>aws.cpp\<close>), \<open>S3\<close> (\<open>s3.cpp\<close>), \<open>Timesync\<close> (\<open>timesync.cpp\<close>), \<open>Selfupdate\<close>
    (\<open>selfupdate.cpp\<close>), \<open>Patch\<close> (\<open>patch.cpp\<close>): metadata and credentials, signing and the service
    calls; transfers; the clock; updates; packages.
  \<^item> \<open>Outbox\<close>, \<open>Session\<close>, \<open>Session_Facts\<close>, \<open>Control\<close> (\<open>session.cpp\<close>): the retransmission buffer
    (locale \<open>resend_buffer\<close>: a refinement of the list of what was sent), the data channel with its
    shell, and the control channel that starts sessions.
  \<^item> \<open>Dedup\<close>: the locales \<open>dedup\<close>, \<open>dedup_forever\<close> and \<open>dedup_window\<close> for a memory of what was
    acted on; interpreted for the set of sessions of \<open>session.cpp\<close> and for \<open>SeenCommands\<close> of
    \<open>main.cpp\<close>.
  \<^item> \<open>Agent\<close>, \<open>Agent_Facts\<close>, \<open>Agent_Order\<close> (\<open>main.cpp\<close>, \<open>struct Agent\<close>, \<open>InFlight\<close>): polling,
    messages, workers, cancellation. \<open>agent_step\<close> lets the poll loop, the health ping, the workers
    and the shutdown take turns in any order; the invariants are proved by induction over it.
  \<^item> \<open>Log\<close> (\<open>log.cpp\<close>), \<open>Cli\<close> (\<open>main.cpp\<close>, \<open>main\<close>): levels and destinations of a line; options,
    subcommands, the way to a running daemon and one turn of each of its threads.
  \<^item> This theory: what spans the components, the worker from its document to its report.

  \<^bold>\<open>What the theorems show.\<close> Run Command: a worker is started only for a command not seen among
  the last 512; the registry counts the running workers and a cancellation reaches them; a command is
  reported as InProgress and acknowledged before it runs, and reported once when it has run. Sessions:
  keystrokes reach the terminal exactly once and in order, unacknowledged frames have consecutive
  numbers, dead sessions end, every session is started once, reconnection backs off. Safety towards
  the machine: signals and deadlines of commands, the fixed order of package commands, no update
  without a newer version and the right digest, no call without an identity, nothing done on a usage
  error. Wire formats: what is printed or framed is read back; a body is delivered whole however the
  network cuts it; calls are signed over the headers they carry; credentials are served unexpired.

  \<^bold>\<open>Bounds and loops.\<close> Loops that consume input are functions with a measure on what is unread;
  \<open>ws_recv_loop\<close>, \<open>session_loop\<close> and \<open>control_loop\<close> end because a peer sends a finite list of read
  results, after which a read is the end of the stream. \<open>run_shell\<close> and \<open>drain_sessions\<close> are partial,
  with theorems that they return when the clock goes on. The daemon's own loops, which end with the
  stop flag only, are modelled by their turns, \<open>poll_loop\<close> by its first \<open>n\<close> turns.

  \<^bold>\<open>Interleaving.\<close> Threads take turns at whole operations: a poll, a ping, the whole work of a
  command. Workers share with the poll loop only the registry and the credential cache, which the code
  guards by mutexes. Sessions and the control channel share with the rest only the credential cache;
  they are single-threaded programs here.

  \<^bold>\<open>Not modelled.\<close> mbedTLS, the operating system and the services (parameters of the model);
  the certificates of \<open>ca_certs.h\<close> (data); log lines and the texts printed by the subcommands and
  \<open>usage\<close> (they have no effect on the program; \<open>Log\<close> has the log itself); socket options; the
  limit of the C++ stack for deeply nested JSON; memory exhaustion; the tests, tools and packaging of
  the repository. The headers declare what is modelled from the \<open>.cpp\<close> files.
\<close>

section \<open>A worker and its one report\<close>

text \<open>The calls to the message delivery service.\<close>

fun is_mds :: "act \<Rightarrow> bool" where
  "is_mds (Call target body) = starts_with target mds_target_prefix"
| "is_mds (Ran script) = False"

text \<open>The acts have grown, but not by such a call.\<close>

definition grows :: "'w agent_world_scheme \<Rightarrow> 'w agent_world_scheme \<Rightarrow> bool" where
  "grows v w \<longleftrightarrow> (\<exists>as. acts w = acts v @ as \<and> (\<forall>a \<in> set as. \<not> is_mds a))"

lemma deaf_grows: "deaf (grows v)"
proof -
  have "\<forall>a \<in> set (act_of (EvHttp req r)). \<not> is_mds a" if "\<not> for_mds req" for req r
    using that by (auto simp: for_mds_def starts_with_def mds_target_prefix_def split: option.splits)
  then show ?thesis
    unfolding deaf_def grows_def by (auto simp del: act_of.simps(1))
qed

lemma works_job_outcome: "run_state (job_outcome e j) w = (x, w') \<Longrightarrow> grows w w'"
  by (rule keeps_run [OF keeps_job_outcome [OF deaf_grows]]) (simp_all add: grows_def)

lemma works_upload: "run_state (upload_outputs e c b p out) w = (x, w') \<Longrightarrow> grows w w'"
  by (rule keeps_run [OF keeps_upload_outputs [OF deaf_grows]]) (simp_all add: grows_def)

lemma grows_trans: "grows u v \<Longrightarrow> grows v w \<Longrightarrow> grows u w"
  by (auto simp: grows_def)

text \<open>The upload only adds to the results where their output is.\<close>

definition same_result :: "step_result \<Rightarrow> step_result \<Rightarrow> bool" where
  "same_result a b \<longleftrightarrow> (\<exists>bucket prefix. b = a\<lparr>sr_s3_bucket := bucket, sr_s3_key_prefix := prefix\<rparr>)"

lemma same_result_refl: "same_result a a"
  by (cases a) (auto simp: same_result_def)

lemma upload_step_result: "run_state (upload_step e c b p sr) w = (sr', w') \<Longrightarrow> same_result sr sr'"
  by (auto simp: upload_step_def same_result_refl Let_def split: prod.splits if_splits)
    (auto simp: same_result_def)

lemma upload_steps_result: "run_state (upload_steps e c b p srs) w = (srs', w') \<Longrightarrow> list_all2 same_result srs srs'"
proof (induction srs arbitrary: w w' srs')
  case (Cons sr srs)
  obtain a w1 where w1: "run_state (upload_step e c b p sr) w = (a, w1)" by fastforce
  obtain as w2 where w2: "run_state (upload_steps e c b p srs) w1 = (as, w2)" by fastforce
  from Cons.prems w1 w2 have "srs' = a # as" by simp
  then show ?case using upload_step_result [OF w1] Cons.IH [OF w2] by simp
qed simp

lemma upload_outputs_result:
  assumes "run_state (upload_outputs e c b p out) w = (out', w')"
  shows "do_status out' = do_status out \<and> do_trace out' = do_trace out \<and>
    list_all2 same_result (do_steps out) (do_steps out')"
proof (cases "b = []")
  case True
  with assms show ?thesis by (simp add: upload_outputs_def list_all2_refl same_result_refl)
next
  case False
  obtain srs w1 where w1: "run_state (upload_steps e c b p (do_steps out)) w = (srs, w1)" by fastforce
  with False assms have "out' = out\<lparr>do_steps := srs\<rparr>" by (simp add: upload_outputs_def)
  then show ?thesis using upload_steps_result [OF w1] by simp
qed


definition sample_job :: job where
  "sample_job = \<lparr>jb_message_id = ''aws.ssm.c1.i-1'', jb_command_id = ''c1'', jb_document = VObj [], jb_parameters = VNull,
     jb_s3_bucket = [], jb_s3_prefix = [], jb_document_name = ''Doc'', jb_token = 0\<rparr>"


end
